(* ===== verification/Prelude.thy ===== *)
theory Prelude
  imports Main "HOL-Library.Word"
begin

text \<open>
  Shared vocabulary of the development: bytes and byte strings, the exceptions of the
  Python layer, decimal printing for messages, and the generic facts on lists, words and
  options that the component theories use. A call that may raise is a value of
  \<open>py_exn + 'a\<close>: \<open>Inl\<close> is the exception, \<open>Inr\<close> the returned value.
\<close>

named_theorems wire_simps \<open>lengths and shapes of the wire messages\<close>
named_theorems result_simps \<open>inversion of results that returned\<close>

type_synonym byte = "8 word"
type_synonym bytes = "byte list"

text \<open>A Python \<open>str\<close> is the list of its code points.\<close>

type_synonym pystr = "nat list"

definition py_lit :: "string \<Rightarrow> pystr" where
  "py_lit s = map of_char s"

section \<open>Exceptions\<close>

text \<open>
  The exceptions the program raises or catches. \<open>OSErr\<close> carries the errno; the
  subclasses of \<open>OSError\<close> that the program distinguishes have constructors of their own.
  \<open>HookErr\<close> is any other exception out of a user hook.
\<close>

datatype py_exn =
    ValueErr string
  | TypeErr
  | IndexErr
  | OverflowErr
  | UnicodeEncodeErr
  | UnicodeDecodeErr
  | Socks5Err string
  | RuntimeErr string
  | TimeoutErr
  | ConnRefusedErr
  | OSErr int
  | IncompleteReadErr
  | AttributeErr
  | UnicodeErr
  | HookErr
  | SystemExitErr string
  | EOFErr

text \<open>\<open>except OSError\<close> catches the errno exceptions and their subclasses, timeouts included.\<close>

fun is_os_error :: "py_exn \<Rightarrow> bool" where
  "is_os_error TimeoutErr = True"
| "is_os_error ConnRefusedErr = True"
| "is_os_error (OSErr _) = True"
| "is_os_error _ = False"

fun is_socks5_error :: "py_exn \<Rightarrow> bool" where
  "is_socks5_error (Socks5Err _) = True"
| "is_socks5_error _ = False"

section \<open>Decimal text\<close>

fun dec_nat :: "nat \<Rightarrow> string" where
  "dec_nat n = (if n < 10 then [char_of (48 + n)] else dec_nat (n div 10) @ [char_of (48 + n mod 10)])"

declare dec_nat.simps [simp del]

definition dec_int :: "int \<Rightarrow> string" where
  "dec_int i = (if i < 0 then ''-'' @ dec_nat (nat (- i)) else dec_nat (nat i))"

section \<open>Sequencing calls that may raise\<close>

fun bind_res :: "'e + 'a \<Rightarrow> ('a \<Rightarrow> 'e + 'b) \<Rightarrow> 'e + 'b" where
  "bind_res (Inl e) f = Inl e"
| "bind_res (Inr x) f = f x"

lemma bind_res_Inr [result_simps]:
  "bind_res m f = Inr y \<longleftrightarrow> (\<exists>x. m = Inr x \<and> f x = Inr y)"
  by (cases m) auto

lemma bind_res_Inl:
  "bind_res m f = Inl e \<longleftrightarrow> m = Inl e \<or> (\<exists>x. m = Inr x \<and> f x = Inl e)"
  by (cases m) auto

section \<open>Bytes\<close>

lemma unat_byte_lt [simp]: "unat (b :: byte) < 256"
proof -
  have "unat b < 2 ^ LENGTH(8)" by (rule unsigned_less)
  then show ?thesis by simp
qed

lemma unat_byte_le [simp]: "unat (b :: byte) \<le> 255"
  using unat_byte_lt [of b] by linarith

lemma byte_of_unat [simp]: "(word_of_nat (unat b) :: byte) = b"
  by simp

lemma unat_of_nat_byte: "n < 256 \<Longrightarrow> unat (word_of_nat n :: byte) = n"
  by (simp add: unat_of_nat)

text \<open>\<open>static_cast<std::uint8_t>(v.size())\<close>\<close>

definition size8 :: "'a list \<Rightarrow> byte" where
  "size8 xs = word_of_nat (length xs)"

lemma unat_size8: "length xs \<le> 255 \<Longrightarrow> unat (size8 xs) = length xs"
  by (simp add: size8_def unat_of_nat)

section \<open>Lists\<close>

lemma nth_append_left: "i < length xs \<Longrightarrow> (xs @ ys) ! i = xs ! i"
  by (simp add: nth_append)

lemma take_append_left: "n \<le> length xs \<Longrightarrow> take n (xs @ ys) = take n xs"
  by simp

lemma drop_append_left: "n \<le> length xs \<Longrightarrow> drop n (xs @ ys) = drop n xs @ ys"
  by simp

lemma take_drop_append_left:
  "m + n \<le> length xs \<Longrightarrow> take n (drop m (xs @ ys)) = take n (drop m xs)"
  by simp

lemma length_ge_2: "2 \<le> length xs \<longleftrightarrow> (\<exists>a b r. xs = a # b # r)"
  by (cases xs; cases "tl xs") auto

lemma length_ge_4: "4 \<le> length xs \<longleftrightarrow> (\<exists>a b c d r. xs = a # b # c # d # r)"
  by (auto simp: numeral_eq_Suc Suc_le_length_iff)

end
