(* ===== verification/PyStr.thy ===== *)
theory PyStr
  imports Prelude
begin

text \<open>
  UTF-8 as CPython's strict codec has it. The C++ binding receives every \<open>str\<close> argument as
  its UTF-8 encoding and returns every host and credential by decoding the wire bytes, so both
  directions can raise: a lone surrogate has no encoding, and a byte string that is not
  well-formed UTF-8 has no decoding. Main facts: the two directions are mutually inverse.
\<close>

section \<open>One code point\<close>

fun utf8_char :: "nat \<Rightarrow> nat list option" where
  "utf8_char c =
     (if c < 0x80 then Some [c]
      else if c < 0x800 then Some [0xC0 + c div 64, 0x80 + c mod 64]
      else if 0xD800 \<le> c \<and> c < 0xE000 then None
      else if c < 0x10000 then
        Some [0xE0 + c div 4096, 0x80 + c div 64 mod 64, 0x80 + c mod 64]
      else if c < 0x110000 then
        Some [0xF0 + c div 262144, 0x80 + c div 4096 mod 64, 0x80 + c div 64 mod 64,
              0x80 + c mod 64]
      else None)"

definition is_cont :: "nat \<Rightarrow> bool" where
  "is_cont b \<longleftrightarrow> 0x80 \<le> b \<and> b < 0xC0"

fun utf8_take :: "nat list \<Rightarrow> (nat \<times> nat list) option" where
  "utf8_take [] = None"
| "utf8_take (a # r) =
     (if a < 0x80 then Some (a, r)
      else if 0xC2 \<le> a \<and> a < 0xE0 then
        (case r of
           b # r' \<Rightarrow>
             if is_cont b then Some ((a - 0xC0) * 64 + (b - 0x80), r') else None
         | _ \<Rightarrow> None)
      else if 0xE0 \<le> a \<and> a < 0xF0 then
        (case r of
           b # c # r' \<Rightarrow>
             (let v = (a - 0xE0) * 4096 + (b - 0x80) * 64 + (c - 0x80)
              in if is_cont b \<and> is_cont c \<and> 0x800 \<le> v \<and> \<not> (0xD800 \<le> v \<and> v < 0xE000)
                 then Some (v, r') else None)
         | _ \<Rightarrow> None)
      else if 0xF0 \<le> a \<and> a < 0xF5 then
        (case r of
           b # c # d # r' \<Rightarrow>
             (let v = (a - 0xF0) * 262144 + (b - 0x80) * 4096 + (c - 0x80) * 64 + (d - 0x80)
              in if is_cont b \<and> is_cont c \<and> is_cont d \<and> 0x10000 \<le> v \<and> v < 0x110000
                 then Some (v, r') else None)
         | _ \<Rightarrow> None)
      else None)"

lemma utf8_take_shorter: "utf8_take xs = Some (c, r) \<Longrightarrow> length r < length xs"
  by (cases xs) (auto simp: Let_def split: if_splits list.splits)

text \<open>Base-64 digits of a code point, taken apart and put together.\<close>

lemma digit_div: "d < k \<Longrightarrow> (q * k + d) div k = (q :: nat)"
  and digit_mod: "d < k \<Longrightarrow> (q * k + d) mod k = (d :: nat)"
  by simp_all

lemma div_64_64: "(c :: nat) div 64 div 64 = c div 4096"
  using div_mult2_eq [of c 64 64] by simp

lemma div_4096_64: "(c :: nat) div 4096 div 64 = c div 262144"
  using div_mult2_eq [of c 4096 64] by simp

lemma digits_3: "(c :: nat) div 4096 * 4096 + c div 64 mod 64 * 64 + c mod 64 = c"
  using div_mult_mod_eq [of c 64] div_mult_mod_eq [of "c div 64" 64] unfolding div_64_64
  by linarith

lemma digits_4:
  "(c :: nat) div 262144 * 262144 + c div 4096 mod 64 * 4096 + c div 64 mod 64 * 64 + c mod 64 = c"
  using digits_3 [of c] div_mult_mod_eq [of "c div 4096" 64] unfolding div_4096_64
  by linarith

lemma undigits_3:
  assumes "b < 64" "d < 64" "c = a * 4096 + b * 64 + (d :: nat)"
  shows "c div 4096 = a" "c div 64 mod 64 = b" "c mod 64 = d"
proof -
  have c: "c = (a * 64 + b) * 64 + d" using assms by simp
  then have q: "c div 64 = a * 64 + b" using digit_div assms by simp
  show "c mod 64 = d" unfolding c by (rule digit_mod [OF assms(2)])
  show "c div 64 mod 64 = b" unfolding q by (rule digit_mod [OF assms(1)])
  show "c div 4096 = a" unfolding div_64_64 [symmetric] q by (rule digit_div [OF assms(1)])
qed

lemma undigits_4:
  assumes "b < 64" "d < 64" "e < 64" "c = a * 262144 + b * 4096 + d * 64 + (e :: nat)"
  shows "c div 262144 = a" "c div 4096 mod 64 = b" "c div 64 mod 64 = d" "c mod 64 = e"
proof -
  have c: "c = (a * 64 + b) * 4096 + d * 64 + e" using assms by simp
  note u = undigits_3 [OF assms(2,3) c]
  show "c div 64 mod 64 = d" "c mod 64 = e" by (rule u)+
  show "c div 4096 mod 64 = b" unfolding u(1) by (rule digit_mod [OF assms(1)])
  show "c div 262144 = a"
    unfolding div_4096_64 [symmetric] u(1) by (rule digit_div [OF assms(1)])
qed

text \<open>The multi-byte forms over their payload digits.\<close>

lemma utf8_take_2:
  assumes "2 \<le> a" "a < 32" "b < 64"
  shows "utf8_take ((0xC0 + a) # (0x80 + b) # r) = Some (a * 64 + b, r)"
  using assms by (simp add: is_cont_def)

lemma utf8_take_3:
  assumes "a < 16" "b < 64" "d < 64" "v = a * 4096 + b * 64 + d"
  shows "utf8_take ((0xE0 + a) # (0x80 + b) # (0x80 + d) # r) =
    (if 0x800 \<le> v \<and> \<not> (0xD800 \<le> v \<and> v < 0xE000) then Some (v, r) else None)"
  using assms by (simp add: is_cont_def Let_def)

lemma utf8_take_4:
  assumes "a < 5" "b < 64" "d < 64" "e < 64" "v = a * 262144 + b * 4096 + d * 64 + e"
  shows "utf8_take ((0xF0 + a) # (0x80 + b) # (0x80 + d) # (0x80 + e) # r) =
    (if 0x10000 \<le> v \<and> v < 0x110000 then Some (v, r) else None)"
  using assms by (simp add: is_cont_def Let_def)

lemma utf8_take_char:
  assumes "utf8_char c = Some u"
  shows "utf8_take (u @ r) = Some (c, r)"
proof -
  consider "c < 0x80" | "0x80 \<le> c" "c < 0x800"
    | "0x800 \<le> c" "c < 0x10000" "\<not> (0xD800 \<le> c \<and> c < 0xE000)"
    | "0x10000 \<le> c" "c < 0x110000"
    using assms by (auto split: if_splits)
  then show ?thesis
  proof cases
    case 1
    with assms show ?thesis by auto
  next
    case 2
    with assms have "u = [0xC0 + c div 64, 0x80 + c mod 64]" by simp
    with utf8_take_2 [of "c div 64" "c mod 64" r] 2 show ?thesis by (simp del: utf8_take.simps)
  next
    case 3
    with assms have u: "u = [0xE0 + c div 4096, 0x80 + c div 64 mod 64, 0x80 + c mod 64]" by auto
    have v: "c = c div 4096 * 4096 + c div 64 mod 64 * 64 + c mod 64" by (simp only: digits_3)
    have "c div 4096 < 16" using 3 by auto
    have "utf8_take ((0xE0 + c div 4096) # (0x80 + c div 64 mod 64) # (0x80 + c mod 64) # r)
        = Some (c, r)"
      using utf8_take_3 [OF \<open>c div 4096 < 16\<close> _ _ v, of r] 3 by (simp del: utf8_take.simps)
    with u show ?thesis by (simp del: utf8_take.simps)
  next
    case 4
    with assms have u: "u = [0xF0 + c div 262144, 0x80 + c div 4096 mod 64,
        0x80 + c div 64 mod 64, 0x80 + c mod 64]"
      by auto
    have v: "c = c div 262144 * 262144 + c div 4096 mod 64 * 4096 + c div 64 mod 64 * 64 + c mod 64"
      by (simp only: digits_4)
    have "c div 262144 < 5" using 4 by auto
    have "utf8_take ((0xF0 + c div 262144) # (0x80 + c div 4096 mod 64) #
        (0x80 + c div 64 mod 64) # (0x80 + c mod 64) # r) = Some (c, r)"
      using utf8_take_4 [OF \<open>c div 262144 < 5\<close> _ _ _ v, of r] 4 by (simp del: utf8_take.simps)
    with u show ?thesis by (simp del: utf8_take.simps)
  qed
qed

lemma utf8_char_take:
  assumes "utf8_take xs = Some (c, r)"
  shows "\<exists>u. utf8_char c = Some u \<and> xs = u @ r"
proof (cases xs)
  case Nil
  with assms show ?thesis by simp
next
  case (Cons a ys)
  consider "a < 0x80" | "0xC2 \<le> a" "a < 0xE0" | "0xE0 \<le> a" "a < 0xF0" | "0xF0 \<le> a" "a < 0xF5"
    using assms Cons by (auto split: if_splits)
  then show ?thesis
  proof cases
    case 1
    with assms Cons show ?thesis by auto
  next
    case 2
    with assms Cons obtain b where ys: "ys = b # r" and "is_cont b"
      and c: "c = (a - 0xC0) * 64 + (b - 0x80)"
      by (auto split: list.splits if_splits)
    obtain a' b' where a': "a = a' + 0xC0" and b': "b = b' + 0x80"
      using 2 \<open>is_cont b\<close> by (intro that [of "a - 0xC0" "b - 0x80"]) (auto simp: is_cont_def)
    have lt: "2 \<le> a'" "a' < 32" "b' < 64" using 2 \<open>is_cont b\<close> a' b' by (auto simp: is_cont_def)
    have c': "c = a' * 64 + b'" using c a' b' by simp
    with lt have "c div 64 = a'" "c mod 64 = b'" "0x80 \<le> c" "c < 0x800" by auto
    with ys Cons a' b' show ?thesis by auto
  next
    case 3
    with assms Cons obtain b d where ys: "ys = b # d # r" and bd: "is_cont b" "is_cont d"
      and c: "c = (a - 0xE0) * 4096 + (b - 0x80) * 64 + (d - 0x80)"
      and rng: "0x800 \<le> c" "\<not> (0xD800 \<le> c \<and> c < 0xE000)"
      by (auto split: list.splits if_splits simp: Let_def)
    obtain a' b' d' where a': "a = a' + 0xE0" and b': "b = b' + 0x80" and d': "d = d' + 0x80"
      using 3 bd by (intro that [of "a - 0xE0" "b - 0x80" "d - 0x80"]) (auto simp: is_cont_def)
    have lt: "a' < 16" "b' < 64" "d' < 64" using 3 bd a' b' d' by (auto simp: is_cont_def)
    have c': "c = a' * 4096 + b' * 64 + d'" using c a' b' d' by simp
    note u = undigits_3 [OF lt(2,3) c']
    have "c < 0x10000" using lt c' by linarith
    with ys Cons rng a' b' d' u show ?thesis by auto
  next
    case 4
    with assms Cons obtain b d e where ys: "ys = b # d # e # r"
      and bd: "is_cont b" "is_cont d" "is_cont e"
      and c: "c = (a - 0xF0) * 262144 + (b - 0x80) * 4096 + (d - 0x80) * 64 + (e - 0x80)"
      and rng: "0x10000 \<le> c" "c < 0x110000"
      by (auto split: list.splits if_splits simp: Let_def)
    obtain a' b' d' e' where a': "a = a' + 0xF0" and b': "b = b' + 0x80" and d': "d = d' + 0x80"
      and e': "e = e' + 0x80"
      using 4 bd
      by (intro that [of "a - 0xF0" "b - 0x80" "d - 0x80" "e - 0x80"]) (auto simp: is_cont_def)
    have lt: "a' < 5" "b' < 64" "d' < 64" "e' < 64"
      using 4 bd a' b' d' e' by (auto simp: is_cont_def)
    have c': "c = a' * 262144 + b' * 4096 + d' * 64 + e'" using c a' b' d' e' by simp
    note u = undigits_4 [OF lt(2,3,4) c']
    with ys Cons rng a' b' d' e' show ?thesis by auto
  qed
qed

declare utf8_char.simps [simp del] utf8_take.simps [simp del]

section \<open>Whole strings\<close>

fun utf8_units :: "nat list \<Rightarrow> nat list option" where
  "utf8_units [] = Some []"
| "utf8_units (c # s) =
     (case utf8_char c of None \<Rightarrow> None | Some u \<Rightarrow> map_option (\<lambda>r. u @ r) (utf8_units s))"

function utf8_scan :: "nat list \<Rightarrow> nat list option" where
  "utf8_scan xs =
     (if xs = [] then Some []
      else case utf8_take xs of
             None \<Rightarrow> None
           | Some (c, r) \<Rightarrow> map_option (\<lambda>s. c # s) (utf8_scan r))"
  by pat_completeness auto
termination
  by (relation "measure length") (auto dest: utf8_take_shorter)

declare utf8_scan.simps [simp del]

lemma utf8_scan_Nil [simp]: "utf8_scan [] = Some []"
  by (simp add: utf8_scan.simps)

lemma utf8_scan_units: "utf8_units s = Some u \<Longrightarrow> utf8_scan u = Some s"
proof (induction s arbitrary: u)
  case Nil
  then show ?case by simp
next
  case (Cons c s)
  then obtain v w where v: "utf8_char c = Some v" and w: "utf8_units s = Some w" "u = v @ w"
    by (auto split: option.splits)
  have "v @ w \<noteq> []" using utf8_take_char [OF v, of w] by (auto simp: utf8_take.simps)
  with Cons.IH [OF w(1)] w(2) show ?case
    by (simp add: utf8_scan.simps [of "v @ w"] utf8_take_char [OF v])
qed

lemma utf8_units_scan: "utf8_scan u = Some s \<Longrightarrow> utf8_units s = Some u"
proof (induction u arbitrary: s rule: utf8_scan.induct)
  case (1 u)
  show ?case
  proof (cases "u = []")
    case True
    with 1(2) show ?thesis by simp
  next
    case False
    with 1(2) obtain c r t where t: "utf8_take u = Some (c, r)" and r: "utf8_scan r = Some t"
      and s: "s = c # t"
      by (auto simp: utf8_scan.simps [of u] split: option.splits)
    obtain v where "utf8_char c = Some v" "u = v @ r" using utf8_char_take [OF t] by blast
    moreover have "utf8_units t = Some r" using 1(1) False t r by blast
    ultimately show ?thesis using s by simp
  qed
qed

definition utf8_encode :: "pystr \<Rightarrow> bytes option" where
  "utf8_encode s = map_option (map word_of_nat) (utf8_units s)"

definition utf8_decode :: "bytes \<Rightarrow> pystr option" where
  "utf8_decode bs = utf8_scan (map unat bs)"

lemma utf8_char_byte: "utf8_char c = Some u \<Longrightarrow> b \<in> set u \<Longrightarrow> b < 256"
  by (auto simp: utf8_char.simps split: if_splits)

lemma utf8_units_byte: "utf8_units s = Some u \<Longrightarrow> b \<in> set u \<Longrightarrow> b < 256"
  by (induction s arbitrary: u) (auto split: option.splits dest: utf8_char_byte)

lemma utf8_decode_encode: "utf8_encode s = Some bs \<Longrightarrow> utf8_decode bs = Some s"
proof -
  assume "utf8_encode s = Some bs"
  then obtain u where u: "utf8_units s = Some u" and bs: "bs = map word_of_nat u"
    by (auto simp: utf8_encode_def)
  have "map unat bs = u"
    using utf8_units_byte [OF u] by (auto simp: bs unat_of_nat_byte intro!: map_idI)
  then show ?thesis by (simp add: utf8_decode_def utf8_scan_units [OF u])
qed

lemma utf8_encode_decode: "utf8_decode bs = Some s \<Longrightarrow> utf8_encode s = Some bs"
  by (simp add: utf8_decode_def utf8_encode_def comp_def utf8_units_scan)

lemma utf8_decode_inj: "utf8_decode a = Some s \<Longrightarrow> utf8_decode b = Some s \<Longrightarrow> a = b"
  by (drule utf8_encode_decode)+ simp

lemma utf8_encode_inj: "utf8_encode s = Some a \<Longrightarrow> utf8_encode t = Some a \<Longrightarrow> s = t"
  by (drule utf8_decode_encode)+ simp

section \<open>ASCII text\<close>

definition ascii_bytes :: "bytes \<Rightarrow> bool" where
  "ascii_bytes bs \<longleftrightarrow> list_all (\<lambda>b. unat b < 128) bs"

lemma utf8_scan_ascii: "list_all (\<lambda>b. b < 128) xs \<Longrightarrow> utf8_scan xs = Some xs"
  by (induction xs) (auto simp: utf8_scan.simps [of "_ # _"] utf8_take.simps)

lemma utf8_decode_ascii: "ascii_bytes bs \<Longrightarrow> utf8_decode bs = Some (map unat bs)"
  by (simp add: utf8_decode_def ascii_bytes_def utf8_scan_ascii list.pred_map comp_def)

end
