(* ===== verification/Codec.thy ===== *)
theory Codec
  imports PyStr
begin

text \<open>
  The C++ codec, \<^verbatim>\<open>csrc/socks5_codec.cpp\<close>: every builder and parser of the wire format, over
  bytes, in the order of the source. A builder that throws \<^verbatim>\<open>std::length_error\<close> returns
  \<open>Inl\<close> with the message; a parser that returns \<^verbatim>\<open>nullopt\<close> returns \<open>None\<close>.

  The codec turns host text into address bytes with \<^verbatim>\<open>inet_pton\<close> and back with
  \<^verbatim>\<open>inet_ntop\<close>, which belong to the C library: they are the four functions of the record
  \<open>inet_api\<close>, an argument of the definitions that use them. The locale \<open>posix_inet\<close> states
  what POSIX documents of them.
\<close>

section \<open>The C library's address conversions\<close>

record inet_api =
  pton4 :: "bytes \<Rightarrow> bytes option"
  ntop4 :: "bytes \<Rightarrow> bytes option"
  pton6 :: "bytes \<Rightarrow> bytes option"
  ntop6 :: "bytes \<Rightarrow> bytes option"

text \<open>The text of the unspecified IPv4 address, which the server puts into its replies.\<close>

definition any_v4 :: bytes where
  "any_v4 = map (\<lambda>c. word_of_nat (of_char c)) ''0.0.0.0''"

text \<open>Text that a C string can hold and that is ASCII.\<close>

definition c_text :: "bytes \<Rightarrow> bool" where
  "c_text s \<longleftrightarrow> ascii_bytes s \<and> 0 \<notin> set s"

locale posix_inet =
  fixes I :: inet_api
  assumes pton4_len: "pton4 I s = Some b \<Longrightarrow> length b = 4"
    and pton6_len: "pton6 I s = Some b \<Longrightarrow> length b = 16"
    and ntop4_total: "length b = 4 \<Longrightarrow> ntop4 I b \<noteq> None"
    and ntop6_total: "length b = 16 \<Longrightarrow> ntop6 I b \<noteq> None"
    and pton4_ntop4: "length b = 4 \<Longrightarrow> ntop4 I b = Some s \<Longrightarrow> pton4 I s = Some b"
    and pton6_ntop6: "length b = 16 \<Longrightarrow> ntop6 I b = Some s \<Longrightarrow> pton6 I s = Some b"
    and ntop4_text: "length b = 4 \<Longrightarrow> ntop4 I b = Some s \<Longrightarrow> c_text s"
    and ntop6_text: "length b = 16 \<Longrightarrow> ntop6 I b = Some s \<Longrightarrow> c_text s"
    and pton_disjoint: "pton6 I s = Some b \<Longrightarrow> pton4 I s = None"
    and pton4_any: "pton4 I any_v4 = Some [0, 0, 0, 0]"
    and ntop4_any: "ntop4 I [0, 0, 0, 0] = Some any_v4"

section \<open>Protocol constants\<close>

definition kVer :: byte where [simp]: "kVer = 0x05"
definition kAuthVer :: byte where [simp]: "kAuthVer = 0x01"
definition kIpv4 :: byte where [simp]: "kIpv4 = 0x01"
definition kDomain :: byte where [simp]: "kDomain = 0x03"
definition kIpv6 :: byte where [simp]: "kIpv6 = 0x04"

record address =
  a_host :: bytes
  a_port :: "16 word"

section \<open>Address codec\<close>

definition push_port :: "bytes \<Rightarrow> 16 word \<Rightarrow> bytes" where
  "push_port out port = out @ [ucast (drop_bit 8 port), ucast (and port 0xFF)]"

text \<open>\<^verbatim>\<open>host.c_str()\<close> as a C function reads it: up to the first NUL.\<close>

definition c_str :: "bytes \<Rightarrow> bytes" where
  "c_str s = takeWhile (\<lambda>b. b \<noteq> 0) s"

definition classify_host :: "inet_api \<Rightarrow> bytes \<Rightarrow> byte \<times> bytes" where
  "classify_host I host =
     (case pton4 I (c_str host) of
        Some b \<Rightarrow> (kIpv4, b)
      | None \<Rightarrow>
          (case pton6 I (c_str host) of
             Some b \<Rightarrow> (kIpv6, b)
           | None \<Rightarrow> (kDomain, host)))"

definition encode_address :: "inet_api \<Rightarrow> bytes \<Rightarrow> address \<Rightarrow> string + (bytes \<times> byte)" where
  "encode_address I out a =
     (let (atyp, raw) = classify_host I (a_host a)
      in if atyp = kDomain \<and> length raw > 255
         then Inl ''domain name exceeds 255 bytes''
         else let out1 = out @ [atyp];
                  out2 = (if atyp = kDomain then out1 @ [size8 raw] else out1)
              in Inr (push_port (out2 @ raw) (a_port a), atyp))"

text \<open>The port field, computed in \<^verbatim>\<open>int\<close> and cast to 16 bits.\<close>

definition port_at :: "bytes \<Rightarrow> nat \<Rightarrow> 16 word" where
  "port_at data pos =
     ucast (or (push_bit 8 (ucast (data ! pos))) (ucast (data ! (pos + 1))) :: 32 word)"

definition decode_port :: "bytes \<Rightarrow> nat \<Rightarrow> bytes \<Rightarrow> (address \<times> nat) option" where
  "decode_port data pos host =
     (if pos + 2 > length data then None
      else Some (\<lparr>a_host = host, a_port = port_at data pos\<rparr>, pos + 2))"

definition decode_address :: "inet_api \<Rightarrow> bytes \<Rightarrow> nat \<Rightarrow> (address \<times> nat) option" where
  "decode_address I data pos0 =
     (if pos0 \<ge> length data then None
      else
        let atyp = data ! pos0; pos = pos0 + 1
        in if atyp = kIpv4 then
             (if pos + 4 > length data then None
              else case ntop4 I (take 4 (drop pos data)) of
                     None \<Rightarrow> None
                   | Some h \<Rightarrow> decode_port data (pos + 4) h)
           else if atyp = kIpv6 then
             (if pos + 16 > length data then None
              else case ntop6 I (take 16 (drop pos data)) of
                     None \<Rightarrow> None
                   | Some h \<Rightarrow> decode_port data (pos + 16) h)
           else if atyp = kDomain then
             (if pos \<ge> length data then None
              else let len = unat (data ! pos); pos = pos + 1
                   in if pos + len > length data then None
                      else decode_port data (pos + len) (take len (drop pos data)))
           else None)"

section \<open>TCP control channel, client side\<close>

definition client_greeting :: "bytes \<Rightarrow> string + bytes" where
  "client_greeting methods =
     (if length methods > 255 then Inl ''too many methods (>255)''
      else Inr ([kVer, size8 methods] @ methods))"

definition parse_method_selection :: "bytes \<Rightarrow> byte option" where
  "parse_method_selection data =
     (if length data < 2 \<or> data ! 0 \<noteq> kVer then None else Some (data ! 1))"

definition userpass_auth :: "bytes \<Rightarrow> bytes \<Rightarrow> string + bytes" where
  "userpass_auth user pass =
     (if length user > 255 \<or> length pass > 255
      then Inl ''username/password exceeds 255 bytes''
      else Inr ([kAuthVer, size8 user] @ user @ [size8 pass] @ pass))"

definition parse_auth_reply :: "bytes \<Rightarrow> byte option" where
  "parse_auth_reply data =
     (if length data < 2 \<or> data ! 0 \<noteq> kAuthVer then None else Some (data ! 1))"

definition request :: "inet_api \<Rightarrow> byte \<Rightarrow> address \<Rightarrow> string + bytes" where
  "request I cmd dst =
     (case encode_address I [kVer, cmd, 0x00] dst of
        Inl e \<Rightarrow> Inl e
      | Inr (out, atyp) \<Rightarrow> Inr out)"

definition parse_reply :: "inet_api \<Rightarrow> bytes \<Rightarrow> (byte \<times> address) option" where
  "parse_reply I data =
     (if length data < 4 \<or> data ! 0 \<noteq> kVer then None
      else case decode_address I data 3 of
             None \<Rightarrow> None
           | Some (a, pos) \<Rightarrow> Some (data ! 1, a))"

section \<open>TCP control channel, server side\<close>

definition parse_greeting :: "bytes \<Rightarrow> bytes option" where
  "parse_greeting data =
     (if length data < 2 \<or> data ! 0 \<noteq> kVer then None
      else let n = unat (data ! 1)
           in if length data < 2 + n then None else Some (take n (drop 2 data)))"

definition method_selection :: "byte \<Rightarrow> bytes" where
  "method_selection method = [kVer, method]"

definition parse_userpass :: "bytes \<Rightarrow> (bytes \<times> bytes) option" where
  "parse_userpass data =
     (if length data < 2 \<or> data ! 0 \<noteq> kAuthVer then None
      else let ulen = unat (data ! 1); pos = 2
           in if pos + ulen + 1 > length data then None
              else let user = take ulen (drop pos data);
                       pos = pos + ulen;
                       plen = unat (data ! pos);
                       pos = pos + 1
                   in if pos + plen > length data then None
                      else Some (user, take plen (drop pos data)))"

definition auth_reply :: "byte \<Rightarrow> bytes" where
  "auth_reply status = [kAuthVer, status]"

definition parse_request :: "inet_api \<Rightarrow> bytes \<Rightarrow> (byte \<times> address) option" where
  "parse_request I data =
     (if length data < 4 \<or> data ! 0 \<noteq> kVer then None
      else case decode_address I data 3 of
             None \<Rightarrow> None
           | Some (a, pos) \<Rightarrow> Some (data ! 1, a))"

definition reply :: "inet_api \<Rightarrow> byte \<Rightarrow> address \<Rightarrow> string + bytes" where
  "reply I rep bound =
     (case encode_address I [kVer, rep, 0x00] bound of
        Inl e \<Rightarrow> Inl e
      | Inr (out, atyp) \<Rightarrow> Inr out)"

section \<open>UDP data channel\<close>

definition udp_encapsulate ::
  "inet_api \<Rightarrow> address \<Rightarrow> bytes \<Rightarrow> byte \<Rightarrow> string + bytes" where
  "udp_encapsulate I dst payload frag =
     (case encode_address I [0x00, 0x00, frag] dst of
        Inl e \<Rightarrow> Inl e
      | Inr (out, atyp) \<Rightarrow> Inr (out @ payload))"

definition udp_decapsulate :: "inet_api \<Rightarrow> bytes \<Rightarrow> (byte \<times> address \<times> bytes) option" where
  "udp_decapsulate I data =
     (if length data < 4 then None
      else case decode_address I data 3 of
             None \<Rightarrow> None
           | Some (a, pos) \<Rightarrow> Some (data ! 2, a, drop pos data))"

end
