(* ===== verification/CodecFacts.thy ===== *)
theory CodecFacts
  imports Codec
begin

text \<open>
  Facts about the C++ codec: the port field, the extent of an address on the wire, decoding
  after encoding, and the contract \<open>incremental\<close> that every parser of a length-delimited
  message keeps (more bytes behind a complete message never change what is parsed), from which
  the two sans-IO sessions get that chunk boundaries do not matter.
\<close>

section \<open>Incremental parsers\<close>

text \<open>
  A parser of a message at the front of a buffer, with the number of bytes the message takes.
\<close>

locale incremental =
  fixes parse :: "bytes \<Rightarrow> 'a option" and used :: "bytes \<Rightarrow> nat"
  assumes parse_extends: "parse xs = Some v \<Longrightarrow> parse (xs @ ys) = Some v"
    and used_extends: "parse xs = Some v \<Longrightarrow> used (xs @ ys) = used xs"
    and used_bound: "parse xs = Some v \<Longrightarrow> used xs \<le> length xs"
    and used_exact: "parse xs = Some v \<Longrightarrow> parse (take (used xs) xs) = Some v"
begin

lemma rest_extends:
  "parse xs = Some v \<Longrightarrow> drop (used (xs @ ys)) (xs @ ys) = drop (used xs) xs @ ys"
  by (simp add: used_extends used_bound)

lemma not_yet_prefix: "parse (xs @ ys) = None \<Longrightarrow> parse xs = None"
  using parse_extends [of xs _ ys] by (cases "parse xs") auto

lemma message_alone:
  assumes "parse xs = Some v"
  shows "parse (take (used xs) xs @ ys) = Some v"
  using parse_extends [OF used_exact [OF assms]] .

lemma same_front:
  assumes "parse xs = Some v"
  shows "take (used (xs @ ys)) (xs @ ys) = take (used xs) xs"
  using assms by (simp add: used_extends used_bound)

end

section \<open>The port field\<close>

lemma length_push_port [wire_simps]: "length (push_port out p) = length out + 2"
  by (simp add: push_port_def)

lemma port_at_push:
  assumes "xs ! i = ucast (drop_bit 8 p)" "xs ! (i + 1) = ucast (and p 0xFF)"
  shows "port_at xs i = p"
proof -
  have m: "(0xFF :: 16 word) = mask 8" by (simp add: mask_eq_exp_minus_1)
  show ?thesis
    unfolding port_at_def assms m
    by (rule bit_word_eqI) (auto simp: bit_simps)
qed

lemma port_at_append: "i + 2 \<le> length xs \<Longrightarrow> port_at (xs @ ys) i = port_at xs i"
  by (simp add: port_at_def nth_append)

lemma decode_port_extends:
  "decode_port xs pos h = Some r \<Longrightarrow> decode_port (xs @ ys) pos h = Some r"
  by (auto simp: decode_port_def port_at_append split: if_splits)

section \<open>The extent of an address\<close>

text \<open>The bytes that \<open>[ATYP][ADDR][PORT]\<close> takes at \<open>pos\<close>, where they can be told.\<close>

definition addr_size :: "bytes \<Rightarrow> nat \<Rightarrow> nat option" where
  "addr_size data pos =
     (if length data \<le> pos then None
      else if data ! pos = kIpv4 then Some 7
      else if data ! pos = kIpv6 then Some 19
      else if data ! pos = kDomain then
        (if length data \<le> pos + 1 then None else Some (4 + unat (data ! (pos + 1))))
      else None)"

lemma decode_address_extent:
  assumes "decode_address I data pos = Some (a, p)"
  shows "\<exists>n. addr_size data pos = Some n \<and> p = pos + n \<and> p \<le> length data"
  using assms
  by (auto simp: decode_address_def addr_size_def decode_port_def Let_def
      split: if_splits option.splits)

lemma addr_size_extends: "addr_size xs pos = Some n \<Longrightarrow> addr_size (xs @ ys) pos = Some n"
  by (auto simp: addr_size_def nth_append split: if_splits)

lemma addr_size_take:
  assumes "addr_size xs pos = Some n" "pos + n \<le> m"
  shows "addr_size (take m xs) pos = Some n"
  using assms by (auto simp: addr_size_def split: if_splits)

lemma addr_size_max: "addr_size xs pos = Some n \<Longrightarrow> n \<le> 259"
proof -
  have "unat (xs ! (pos + 1)) \<le> 255" by simp
  then show "addr_size xs pos = Some n \<Longrightarrow> n \<le> 259"
    by (auto simp: addr_size_def simp del: unat_byte_le split: if_splits)
qed

lemma decode_address_extends:
  assumes "decode_address I xs pos = Some r"
  shows "decode_address I (xs @ ys) pos = Some r"
  using assms
  by (auto simp: decode_address_def Let_def nth_append decode_port_extends
      split: if_splits option.splits)

lemma decode_address_take:
  assumes d: "decode_address I xs pos = Some (a, p)" and "p \<le> m"
  shows "decode_address I (take m xs) pos = Some (a, p)"
  using assms
  by (auto simp: decode_address_def Let_def decode_port_def port_at_def take_drop min_def
      split: if_splits option.splits)

lemma decode_address_total:
  assumes I: "posix_inet I" and n: "addr_size data pos = Some n" and l: "pos + n \<le> length data"
  shows "\<exists>a. decode_address I data pos = Some (a, pos + n)"
proof -
  have 4: "ntop4 I (take 4 (drop (Suc pos) data)) \<noteq> None" if "Suc pos + 4 \<le> length data"
    using that by (intro posix_inet.ntop4_total [OF I]) simp
  have 6: "ntop6 I (take 16 (drop (Suc pos) data)) \<noteq> None" if "Suc pos + 16 \<le> length data"
    using that by (intro posix_inet.ntop6_total [OF I]) simp
  show ?thesis
    using n l 4 6
    by (auto simp: decode_address_def addr_size_def decode_port_def Let_def split: if_splits)
qed

section \<open>Decoding what was encoded\<close>

text \<open>The encoding of an address as one byte string, and the host text it decodes to.\<close>

definition addr_wire :: "inet_api \<Rightarrow> address \<Rightarrow> bytes" where
  "addr_wire I a =
     (let (atyp, raw) = classify_host I (a_host a)
      in [atyp] @ (if atyp = kDomain then [size8 raw] else []) @ raw @ push_port [] (a_port a))"

definition canon_host :: "inet_api \<Rightarrow> bytes \<Rightarrow> bytes" where
  "canon_host I h =
     (let (atyp, raw) = classify_host I h
      in if atyp = kIpv4 then (case ntop4 I raw of Some t \<Rightarrow> t | None \<Rightarrow> h)
         else if atyp = kIpv6 then (case ntop6 I raw of Some t \<Rightarrow> t | None \<Rightarrow> h)
         else h)"

lemma encode_address_wire [result_simps]:
  "encode_address I out a = Inr (w, t) \<longleftrightarrow>
     t = fst (classify_host I (a_host a)) \<and> w = out @ addr_wire I a \<and>
     (t = kDomain \<longrightarrow> length (snd (classify_host I (a_host a))) \<le> 255)"
  by (auto simp: encode_address_def addr_wire_def push_port_def Let_def split: prod.splits)

lemma encode_address_error:
  "encode_address I out a = Inl e \<longleftrightarrow>
     fst (classify_host I (a_host a)) = kDomain \<and>
     255 < length (snd (classify_host I (a_host a))) \<and> e = ''domain name exceeds 255 bytes''"
  by (auto simp: encode_address_def Let_def split: prod.splits)

lemma classify_host_domain: "classify_host I h = (kDomain, raw) \<Longrightarrow> raw = h"
  by (auto simp: classify_host_def split: option.splits)

lemma classify_host_cases:
  assumes "posix_inet I"
  obtains (v4) b where "classify_host I h = (kIpv4, b)" "length b = 4" "pton4 I (c_str h) = Some b"
  | (v6) b where "classify_host I h = (kIpv6, b)" "length b = 16" "pton6 I (c_str h) = Some b"
      "pton4 I (c_str h) = None"
  | (dom) "classify_host I h = (kDomain, h)" "pton4 I (c_str h) = None" "pton6 I (c_str h) = None"
proof (cases "pton4 I (c_str h)")
  case (Some b)
  with posix_inet.pton4_len [OF assms Some] show ?thesis
    by (intro v4) (simp_all add: classify_host_def)
next
  case None
  note n4 = None
  show ?thesis
  proof (cases "pton6 I (c_str h)")
    case None
    with n4 show ?thesis by (intro dom) (simp_all add: classify_host_def)
  next
    case (Some b)
    with n4 posix_inet.pton6_len [OF assms Some] show ?thesis
      by (intro v6) (simp_all add: classify_host_def)
  qed
qed

lemma length_addr_wire:
  assumes "posix_inet I"
  shows "length (addr_wire I a) \<le> 4 + max 16 (length (a_host a))"
  by (rule classify_host_cases [OF assms, of "a_host a"])
    (auto simp: addr_wire_def wire_simps)

lemma port_at_wire: "port_at (xs @ push_port [] p @ ys) (length xs) = p"
  by (rule port_at_push) (simp_all add: push_port_def nth_append)

lemma decode_port_wire:
  "decode_port (xs @ push_port [] p @ ys) (length xs) h
     = Some (\<lparr>a_host = h, a_port = p\<rparr>, length xs + 2)"
  by (simp add: decode_port_def port_at_wire wire_simps)

text \<open>The central fact: an encoded address decodes to its canonical host and its port.\<close>

lemma decode_address_wire:
  assumes I: "posix_inet I" and enc: "encode_address I out a = Inr (w, t)"
  shows "decode_address I (w @ ys) (length out) =
     Some (\<lparr>a_host = canon_host I (a_host a), a_port = a_port a\<rparr>, length w)"
proof -
  note w = enc [unfolded encode_address_wire]
  let ?h = "a_host a" and ?P = "push_port [] (a_port a)"
  show ?thesis
  proof (rule classify_host_cases [OF I, of ?h])
    fix b assume b: "classify_host I ?h = (kIpv4, b)" "length b = 4"
    then have w': "w @ ys = (out @ [kIpv4] @ b) @ ?P @ ys" "length w = length out + 7"
      using w by (auto simp: addr_wire_def wire_simps)
    obtain s where s: "ntop4 I b = Some s" using posix_inet.ntop4_total [OF I b(2)] by auto
    show ?thesis
      using b s w'(2) decode_port_wire [of "out @ [kIpv4] @ b" "a_port a" ys s]
      by (simp add: decode_address_def canon_host_def w'(1) Let_def nth_append wire_simps add.commute [of _ "length out"])
  next
    fix b assume b: "classify_host I ?h = (kIpv6, b)" "length b = 16"
    then have w': "w @ ys = (out @ [kIpv6] @ b) @ ?P @ ys" "length w = length out + 19"
      using w by (auto simp: addr_wire_def wire_simps)
    obtain s where s: "ntop6 I b = Some s" using posix_inet.ntop6_total [OF I b(2)] by auto
    show ?thesis
      using b s w'(2) decode_port_wire [of "out @ [kIpv6] @ b" "a_port a" ys s]
      by (simp add: decode_address_def canon_host_def w'(1) Let_def nth_append wire_simps add.commute [of _ "length out"])
  next
    assume b: "classify_host I ?h = (kDomain, ?h)"
    then have w': "w @ ys = (out @ [kDomain, size8 ?h] @ ?h) @ ?P @ ys"
        "length w = length out + length ?h + 4" and l: "length ?h \<le> 255"
      using w by (auto simp: addr_wire_def wire_simps)
    show ?thesis
      using b w'(2) unat_size8 [OF l] decode_port_wire [of "out @ [kDomain, size8 ?h] @ ?h" "a_port a" ys ?h]
      by (simp add: decode_address_def canon_host_def w'(1) Let_def nth_append wire_simps add.commute [of _ "length out"])
  qed
qed

section \<open>Canonical hosts\<close>

lemma c_str_text: "c_text s \<Longrightarrow> c_str s = s"
  by (auto simp: c_text_def c_str_def takeWhile_eq_all_conv)

text \<open>The host a peer sees is a fixed point: encoding it again gives the same host.\<close>

lemma canon_host_idem:
  assumes I: "posix_inet I"
  shows "classify_host I (canon_host I h) = classify_host I h"
proof (rule classify_host_cases [OF I, of h])
  fix b assume b: "classify_host I h = (kIpv4, b)" "length b = 4"
  obtain s where s: "ntop4 I b = Some s" using posix_inet.ntop4_total [OF I b(2)] by auto
  have "c_str s = s" by (rule c_str_text [OF posix_inet.ntop4_text [OF I b(2) s]])
  moreover have "pton4 I s = Some b" by (rule posix_inet.pton4_ntop4 [OF I b(2) s])
  moreover have "canon_host I h = s" using b s by (simp add: canon_host_def)
  ultimately show ?thesis using b by (simp add: classify_host_def)
next
  fix b assume b: "classify_host I h = (kIpv6, b)" "length b = 16"
  obtain s where s: "ntop6 I b = Some s" using posix_inet.ntop6_total [OF I b(2)] by auto
  have "c_str s = s" by (rule c_str_text [OF posix_inet.ntop6_text [OF I b(2) s]])
  moreover have p: "pton6 I s = Some b" by (rule posix_inet.pton6_ntop6 [OF I b(2) s])
  moreover have "pton4 I s = None" by (rule posix_inet.pton_disjoint [OF I p])
  moreover have "canon_host I h = s" using b s by (simp add: canon_host_def)
  ultimately show ?thesis using b by (simp add: classify_host_def)
next
  assume "classify_host I h = (kDomain, h)"
  then show ?thesis by (simp add: canon_host_def)
qed

lemma canon_host_cases:
  assumes "posix_inet I"
  shows "canon_host I h = h \<and> fst (classify_host I h) = kDomain \<or>
    c_text (canon_host I h) \<and> fst (classify_host I h) \<noteq> kDomain"
proof (rule classify_host_cases [OF assms, of h])
  fix b assume b: "classify_host I h = (kIpv4, b)" "length b = 4"
  then show ?thesis
    using posix_inet.ntop4_total [OF assms b(2)] posix_inet.ntop4_text [OF assms b(2)]
    by (auto simp: canon_host_def)
next
  fix b assume b: "classify_host I h = (kIpv6, b)" "length b = 16"
  then show ?thesis
    using posix_inet.ntop6_total [OF assms b(2)] posix_inet.ntop6_text [OF assms b(2)]
    by (auto simp: canon_host_def)
next
  assume "classify_host I h = (kDomain, h)"
  then show ?thesis by (simp add: canon_host_def)
qed

section \<open>Messages that end in an address\<close>

text \<open>The length of a request or a reply at the front of a buffer.\<close>

definition message_len :: "bytes \<Rightarrow> nat option" where
  "message_len buf = (if length buf < 4 then None else map_option (\<lambda>n. 3 + n) (addr_size buf 3))"

lemma message_len_extends: "message_len xs = Some n \<Longrightarrow> message_len (xs @ ys) = Some n"
  by (auto simp: message_len_def addr_size_extends split: if_splits)

lemma message_len_take:
  "message_len xs = Some n \<Longrightarrow> n \<le> m \<Longrightarrow> message_len (take m xs) = Some n"
  by (auto simp: message_len_def addr_size_def split: if_splits)

lemma message_len_max: "message_len xs = Some n \<Longrightarrow> n \<le> 262"
  by (auto simp: message_len_def dest!: addr_size_max split: if_splits)

lemma message_len_min: "message_len xs = Some n \<Longrightarrow> 7 \<le> n"
  by (auto simp: message_len_def addr_size_def split: if_splits)

text \<open>
  From the fifth byte on, the length is known exactly when the address type is one of the
  three of the protocol.
\<close>

lemma message_len_known:
  "5 \<le> length xs \<Longrightarrow> message_len xs \<noteq> None \<longleftrightarrow> xs ! 3 \<in> {0x01, 0x03, 0x04}"
  by (auto simp: message_len_def addr_size_def)

lemma parse_reply_len:
  assumes "parse_reply I xs = Some v"
  shows "\<exists>n. message_len xs = Some n \<and> n \<le> length xs"
  using assms decode_address_extent [of I xs 3]
  by (fastforce simp: parse_reply_def message_len_def split: if_splits option.splits)

lemma parse_reply_extends:
  "parse_reply I xs = Some v \<Longrightarrow> parse_reply I (xs @ ys) = Some v"
  by (auto simp: parse_reply_def nth_append decode_address_extends
      split: if_splits option.splits)

lemma parse_reply_take:
  assumes p: "parse_reply I xs = Some v" and n: "message_len xs = Some n"
  shows "parse_reply I (take n xs) = Some v"
proof -
  obtain a q where d: "decode_address I xs 3 = Some (a, q)" and v: "v = (xs ! 1, a)"
    and l: "4 \<le> length xs" "xs ! 0 = kVer"
    using p by (auto simp: parse_reply_def split: if_splits option.splits)
  from decode_address_extent [OF d] n have "q = n" "q \<le> length xs"
    by (auto simp: message_len_def split: if_splits)
  moreover have "decode_address I (take n xs) 3 = Some (a, q)"
    by (rule decode_address_take [OF d]) (simp add: \<open>q = n\<close>)
  moreover have "7 \<le> n" using n by (rule message_len_min)
  ultimately show ?thesis using v l by (auto simp: parse_reply_def)
qed

lemma parse_reply_total:
  assumes "posix_inet I" "message_len xs = Some n" "n \<le> length xs" "xs ! 0 = kVer"
  shows "parse_reply I xs \<noteq> None"
  using decode_address_total [OF assms(1), of xs 3] assms(2-4)
  by (fastforce simp: parse_reply_def message_len_def split: if_splits)

interpretation reply_parser: incremental "parse_reply I"
    "\<lambda>xs. case message_len xs of Some n \<Rightarrow> n | None \<Rightarrow> 0" for I
proof unfold_locales
  fix xs ys v assume p: "parse_reply I xs = Some v"
  then obtain n where n: "message_len xs = Some n" "n \<le> length xs" by (metis parse_reply_len)
  show "parse_reply I (xs @ ys) = Some v" using p by (rule parse_reply_extends)
  show "(case message_len (xs @ ys) of Some n \<Rightarrow> n | None \<Rightarrow> 0) =
      (case message_len xs of Some n \<Rightarrow> n | None \<Rightarrow> 0)"
    using n by (simp add: message_len_extends)
  show "(case message_len xs of Some n \<Rightarrow> n | None \<Rightarrow> 0) \<le> length xs" using n by simp
  show "parse_reply I (take (case message_len xs of Some n \<Rightarrow> n | None \<Rightarrow> 0) xs) = Some v"
    using n p by (simp add: parse_reply_take)
qed

text \<open>A request has the shape of a reply, with the command where the reply has its code.\<close>

lemma parse_request_eq: "parse_request = parse_reply"
  by (rule ext)+ (simp add: parse_request_def parse_reply_def)

lemma parse_reply_built:
  assumes I: "posix_inet I" and b: "reply I rep bound = Inr w"
  shows "parse_reply I (w @ ys) =
    Some (rep, \<lparr>a_host = canon_host I (a_host bound), a_port = a_port bound\<rparr>)"
    and "message_len (w @ ys) = Some (length w)"
proof -
  obtain t where e: "encode_address I [kVer, rep, 0] bound = Inr (w, t)"
    using b by (auto simp: reply_def split: sum.splits)
  then have w: "w = [kVer, rep, 0] @ addr_wire I bound" by (simp add: encode_address_wire)
  note d = decode_address_wire [OF I e, of ys]
  have "addr_wire I bound \<noteq> []" by (auto simp: addr_wire_def split: prod.splits)
  then have l: "4 \<le> length (w @ ys)" "0 < length (addr_wire I bound)"
    using w by (cases "addr_wire I bound"; simp)+
  show "parse_reply I (w @ ys) =
      Some (rep, \<lparr>a_host = canon_host I (a_host bound), a_port = a_port bound\<rparr>)"
    using d l by (simp add: w parse_reply_def numeral_3_eq_3)
  have "decode_address I (w @ ys) 3 \<noteq> None" using d by (simp add: numeral_3_eq_3)
  then show "message_len (w @ ys) = Some (length w)"
    using d l decode_address_extent [of I "w @ ys" 3]
    by (fastforce simp: message_len_def numeral_3_eq_3)
qed

lemma request_eq: "request = reply"
  by (rule ext)+ (simp add: request_def reply_def)

end
