(* ===== verification/CoreTypes.thy ===== *)
theory CoreTypes
  imports Prelude
begin

text \<open>
  \<^verbatim>\<open>optisocks5/core/types.py\<close>: the protocol enumerations (Python \<^verbatim>\<open>IntEnum\<close>s, so each
  member stands for an integer), the parsed \<open>Reply\<close> and the names of reply codes.
\<close>

datatype cmd_enum = CONNECT | BIND | UDP_ASSOCIATE

fun cmd_value :: "cmd_enum \<Rightarrow> int" where
  "cmd_value CONNECT = 0x01"
| "cmd_value BIND = 0x02"
| "cmd_value UDP_ASSOCIATE = 0x03"

datatype method_enum = NO_AUTH | GSSAPI | USERPASS | NO_ACCEPTABLE

fun method_value :: "method_enum \<Rightarrow> int" where
  "method_value NO_AUTH = 0x00"
| "method_value GSSAPI = 0x01"
| "method_value USERPASS = 0x02"
| "method_value NO_ACCEPTABLE = 0xFF"

datatype rep_enum =
    SUCCEEDED
  | GENERAL_FAILURE
  | NOT_ALLOWED
  | NET_UNREACHABLE
  | HOST_UNREACHABLE
  | CONN_REFUSED
  | TTL_EXPIRED
  | CMD_NOT_SUPPORTED
  | ATYP_NOT_SUPPORTED

fun rep_value :: "rep_enum \<Rightarrow> int" where
  "rep_value SUCCEEDED = 0x00"
| "rep_value GENERAL_FAILURE = 0x01"
| "rep_value NOT_ALLOWED = 0x02"
| "rep_value NET_UNREACHABLE = 0x03"
| "rep_value HOST_UNREACHABLE = 0x04"
| "rep_value CONN_REFUSED = 0x05"
| "rep_value TTL_EXPIRED = 0x06"
| "rep_value CMD_NOT_SUPPORTED = 0x07"
| "rep_value ATYP_NOT_SUPPORTED = 0x08"

fun rep_label :: "rep_enum \<Rightarrow> string" where
  "rep_label SUCCEEDED = ''SUCCEEDED''"
| "rep_label GENERAL_FAILURE = ''GENERAL_FAILURE''"
| "rep_label NOT_ALLOWED = ''NOT_ALLOWED''"
| "rep_label NET_UNREACHABLE = ''NET_UNREACHABLE''"
| "rep_label HOST_UNREACHABLE = ''HOST_UNREACHABLE''"
| "rep_label CONN_REFUSED = ''CONN_REFUSED''"
| "rep_label TTL_EXPIRED = ''TTL_EXPIRED''"
| "rep_label CMD_NOT_SUPPORTED = ''CMD_NOT_SUPPORTED''"
| "rep_label ATYP_NOT_SUPPORTED = ''ATYP_NOT_SUPPORTED''"

definition all_reps :: "rep_enum list" where
  "all_reps = [SUCCEEDED, GENERAL_FAILURE, NOT_ALLOWED, NET_UNREACHABLE, HOST_UNREACHABLE,
     CONN_REFUSED, TTL_EXPIRED, CMD_NOT_SUPPORTED, ATYP_NOT_SUPPORTED]"

text \<open>\<^verbatim>\<open>Rep(rep)\<close>: the member with that value, or \<^verbatim>\<open>ValueError\<close>.\<close>

definition rep_of :: "int \<Rightarrow> rep_enum option" where
  "rep_of n = find (\<lambda>r. rep_value r = n) all_reps"

definition rep_name :: "int \<Rightarrow> string" where
  "rep_name rep =
     (case rep_of rep of
        Some r \<Rightarrow> rep_label r
      | None \<Rightarrow> ''UNKNOWN('' @ dec_int rep @ '')'')"

record reply_obj =
  r_rep :: int
  r_host :: pystr
  r_port :: int

definition reply_ok :: "reply_obj \<Rightarrow> bool" where
  "reply_ok r \<longleftrightarrow> r_rep r = rep_value SUCCEEDED"

text \<open>\<^verbatim>\<open>Reply(*parsed)\<close>\<close>

fun mk_reply :: "int \<times> pystr \<times> int \<Rightarrow> reply_obj" where
  "mk_reply (rep, host, port) = \<lparr>r_rep = rep, r_host = host, r_port = port\<rparr>"

lemma rep_of_value [simp]: "rep_of (rep_value r) = Some r"
  by (cases r) (simp_all add: rep_of_def all_reps_def)

lemma rep_of_Some: "rep_of n = Some r \<Longrightarrow> rep_value r = n"
  by (auto simp: rep_of_def find_Some_iff)

lemma rep_value_inj: "rep_value r = rep_value s \<longleftrightarrow> r = s"
  using rep_of_value by (metis option.inject)

lemma rep_value_range: "0 \<le> rep_value r \<and> rep_value r \<le> 8"
  by (cases r) simp_all

end
