(* ===== verification/Binding.thy ===== *)
theory Binding
  imports CodecFacts CoreTypes
begin

text \<open>
  The CPython binding \<^verbatim>\<open>csrc/module.cpp\<close> (the module \<^verbatim>\<open>optisocks5._core\<close>) and the thin
  wrappers of \<^verbatim>\<open>optisocks5/core/codec.py\<close>: Python values in, Python values or an exception
  out. \<^verbatim>\<open>PyArg_ParseTuple\<close> converts the arguments from left to right and raises at the first
  that does not convert; then the range checks run; then the C++ codec.
\<close>

section \<open>Argument and result conversion\<close>

text \<open>Format \<^verbatim>\<open>i\<close>: a Python integer into a C \<^verbatim>\<open>int\<close>.\<close>

definition c_int_arg :: "int \<Rightarrow> py_exn + int" where
  "c_int_arg v = (if - (2 ^ 31) \<le> v \<and> v < 2 ^ 31 then Inr v else Inl OverflowErr)"

text \<open>Format \<^verbatim>\<open>s#\<close>: the UTF-8 bytes, NUL allowed.\<close>

definition c_str_len_arg :: "pystr \<Rightarrow> py_exn + bytes" where
  "c_str_len_arg s =
     (case utf8_encode s of None \<Rightarrow> Inl UnicodeEncodeErr | Some b \<Rightarrow> Inr b)"

text \<open>Format \<^verbatim>\<open>s\<close>: the UTF-8 bytes as a C string, so no NUL.\<close>

definition c_str_arg :: "pystr \<Rightarrow> py_exn + bytes" where
  "c_str_arg s =
     bind_res (c_str_len_arg s)
       (\<lambda>b. if 0 \<in> set b then Inl (ValueErr ''embedded null character'') else Inr b)"

text \<open>\<^verbatim>\<open>Py_BuildValue\<close> with \<^verbatim>\<open>s#\<close>: a \<^verbatim>\<open>str\<close> decoded from UTF-8.\<close>

definition py_str_result :: "bytes \<Rightarrow> py_exn + pystr" where
  "py_str_result b =
     (case utf8_decode b of None \<Rightarrow> Inl UnicodeDecodeErr | Some s \<Rightarrow> Inr s)"

definition in_range :: "int \<Rightarrow> int \<Rightarrow> string \<Rightarrow> py_exn + unit" where
  "in_range v vmax name =
     (if v < 0 \<or> v > vmax
      then Inl (ValueErr (name @ '' out of range [0, '' @ dec_int vmax @ '']''))
      else Inr ())"

text \<open>\<^verbatim>\<open>value_error\<close>: the \<^verbatim>\<open>std::length_error\<close> of a builder becomes \<^verbatim>\<open>ValueError\<close>.\<close>

fun value_error :: "string + bytes \<Rightarrow> py_exn + bytes" where
  "value_error (Inl what) = Inl (ValueErr what)"
| "value_error (Inr out) = Inr out"

section \<open>TCP control channel, client side\<close>

definition py_client_greeting :: "bytes \<Rightarrow> py_exn + bytes" where
  "py_client_greeting methods = value_error (client_greeting methods)"

definition py_parse_method_selection :: "bytes \<Rightarrow> int option" where
  "py_parse_method_selection data = map_option uint (parse_method_selection data)"

definition py_userpass_auth :: "pystr \<Rightarrow> pystr \<Rightarrow> py_exn + bytes" where
  "py_userpass_auth user pass =
     bind_res (c_str_len_arg user) (\<lambda>u.
     bind_res (c_str_len_arg pass) (\<lambda>p.
     value_error (userpass_auth u p)))"

definition py_parse_auth_reply :: "bytes \<Rightarrow> int option" where
  "py_parse_auth_reply data = map_option uint (parse_auth_reply data)"

definition py_request :: "inet_api \<Rightarrow> int \<Rightarrow> pystr \<Rightarrow> int \<Rightarrow> py_exn + bytes" where
  "py_request I cmd host port =
     bind_res (c_int_arg cmd) (\<lambda>cmd.
     bind_res (c_str_arg host) (\<lambda>host.
     bind_res (c_int_arg port) (\<lambda>port.
     bind_res (in_range cmd 255 ''cmd'') (\<lambda>_.
     bind_res (in_range port 65535 ''port'') (\<lambda>_.
     value_error (request I (word_of_int cmd) \<lparr>a_host = host, a_port = word_of_int port\<rparr>))))))"

text \<open>The tuple \<open>(code, host, port)\<close> that the two message parsers return.\<close>

definition build_message :: "(byte \<times> address) option \<Rightarrow> py_exn + (int \<times> pystr \<times> int) option" where
  "build_message r =
     (case r of
        None \<Rightarrow> Inr None
      | Some (c, a) \<Rightarrow>
          bind_res (py_str_result (a_host a)) (\<lambda>h. Inr (Some (uint c, h, uint (a_port a)))))"

definition py_parse_reply :: "inet_api \<Rightarrow> bytes \<Rightarrow> py_exn + (int \<times> pystr \<times> int) option" where
  "py_parse_reply I data = build_message (parse_reply I data)"

section \<open>TCP control channel, server side\<close>

definition py_parse_greeting :: "bytes \<Rightarrow> bytes option" where
  "py_parse_greeting data = parse_greeting data"

definition py_method_selection :: "int \<Rightarrow> py_exn + bytes" where
  "py_method_selection method =
     bind_res (c_int_arg method) (\<lambda>m.
     bind_res (in_range m 255 ''method'') (\<lambda>_.
     Inr (method_selection (word_of_int m))))"

definition py_parse_userpass :: "bytes \<Rightarrow> py_exn + (pystr \<times> pystr) option" where
  "py_parse_userpass data =
     (case parse_userpass data of
        None \<Rightarrow> Inr None
      | Some (u, p) \<Rightarrow>
          bind_res (py_str_result u) (\<lambda>u.
          bind_res (py_str_result p) (\<lambda>p. Inr (Some (u, p)))))"

definition py_auth_reply :: "int \<Rightarrow> py_exn + bytes" where
  "py_auth_reply status =
     bind_res (c_int_arg status) (\<lambda>s.
     bind_res (in_range s 255 ''status'') (\<lambda>_.
     Inr (auth_reply (word_of_int s))))"

definition py_parse_request :: "inet_api \<Rightarrow> bytes \<Rightarrow> py_exn + (int \<times> pystr \<times> int) option" where
  "py_parse_request I data = build_message (parse_request I data)"

definition py_reply :: "inet_api \<Rightarrow> int \<Rightarrow> pystr \<Rightarrow> int \<Rightarrow> py_exn + bytes" where
  "py_reply I rep host port =
     bind_res (c_int_arg rep) (\<lambda>rep.
     bind_res (c_str_arg host) (\<lambda>host.
     bind_res (c_int_arg port) (\<lambda>port.
     bind_res (in_range rep 255 ''rep'') (\<lambda>_.
     bind_res (in_range port 65535 ''port'') (\<lambda>_.
     value_error (reply I (word_of_int rep) \<lparr>a_host = host, a_port = word_of_int port\<rparr>))))))"

section \<open>UDP data channel\<close>

definition py_udp_encapsulate ::
  "inet_api \<Rightarrow> pystr \<Rightarrow> int \<Rightarrow> bytes \<Rightarrow> int \<Rightarrow> py_exn + bytes" where
  "py_udp_encapsulate I host port payload frag =
     bind_res (c_str_arg host) (\<lambda>host.
     bind_res (c_int_arg port) (\<lambda>port.
     bind_res (c_int_arg frag) (\<lambda>frag.
     bind_res (in_range port 65535 ''port'') (\<lambda>_.
     bind_res (in_range frag 255 ''frag'') (\<lambda>_.
     value_error (udp_encapsulate I \<lparr>a_host = host, a_port = word_of_int port\<rparr> payload
       (word_of_int frag)))))))"

definition py_udp_decapsulate ::
  "inet_api \<Rightarrow> bytes \<Rightarrow> py_exn + (int \<times> pystr \<times> int \<times> bytes) option" where
  "py_udp_decapsulate I data =
     (case udp_decapsulate I data of
        None \<Rightarrow> Inr None
      | Some (f, a, payload) \<Rightarrow>
          bind_res (py_str_result (a_host a))
            (\<lambda>h. Inr (Some (uint f, h, uint (a_port a), payload))))"

section \<open>\<^verbatim>\<open>core/codec.py\<close>\<close>

definition codec_request :: "inet_api \<Rightarrow> int \<Rightarrow> pystr \<Rightarrow> int \<Rightarrow> py_exn + bytes" where
  "codec_request I cmd host port = py_request I cmd host port"

definition codec_udp_encapsulate ::
  "inet_api \<Rightarrow> pystr \<Rightarrow> int \<Rightarrow> bytes \<Rightarrow> int \<Rightarrow> py_exn + bytes" where
  "codec_udp_encapsulate I host port payload frag = py_udp_encapsulate I host port payload frag"

section \<open>When the conversions succeed\<close>

lemma c_int_arg_ok [result_simps]: "c_int_arg v = Inr w \<longleftrightarrow> w = v \<and> - (2 ^ 31) \<le> v \<and> v < 2 ^ 31"
  by (auto simp: c_int_arg_def)

lemma in_range_ok [result_simps]: "in_range v m n = Inr u \<longleftrightarrow> 0 \<le> v \<and> v \<le> m"
  by (auto simp: in_range_def)

lemma value_error_ok [result_simps]: "value_error r = Inr w \<longleftrightarrow> r = Inr w"
  by (cases r) auto

lemma c_str_len_arg_ok [result_simps]: "c_str_len_arg s = Inr b \<longleftrightarrow> utf8_encode s = Some b"
  by (auto simp: c_str_len_arg_def split: option.splits)

lemma c_str_arg_ok [result_simps]: "c_str_arg s = Inr b \<longleftrightarrow> utf8_encode s = Some b \<and> 0 \<notin> set b"
  by (auto simp: c_str_arg_def result_simps)

lemma py_str_result_ok [result_simps]: "py_str_result b = Inr s \<longleftrightarrow> utf8_decode b = Some s"
  by (auto simp: py_str_result_def split: option.splits)

lemma uint_of_int_small: "0 \<le> v \<Longrightarrow> v < 2 ^ LENGTH('a) \<Longrightarrow> uint (word_of_int v :: 'a::len word) = v"
  by (simp add: uint_word_of_int_eq take_bit_int_eq_self)

section \<open>Hosts as a peer sees them\<close>

text \<open>
  The host a peer decodes for a host given as Python text: an address literal comes back in the
  C library's presentation form, a name as it is.
\<close>

definition seen_host :: "inet_api \<Rightarrow> pystr \<Rightarrow> pystr" where
  "seen_host I h =
     (case utf8_encode h of
        None \<Rightarrow> h
      | Some b \<Rightarrow> (case utf8_decode (canon_host I b) of None \<Rightarrow> h | Some s \<Rightarrow> s))"

lemma seen_host_decodes:
  assumes I: "posix_inet I" and e: "utf8_encode h = Some b"
  shows "utf8_decode (canon_host I b) = Some (seen_host I h)"
proof -
  have "utf8_decode (canon_host I b) \<noteq> None"
    using canon_host_cases [OF I, of b] utf8_decode_encode [OF e]
    by (auto simp: c_text_def utf8_decode_ascii)
  then show ?thesis using e by (auto simp: seen_host_def split: option.splits)
qed

end
