(* ===== verification/Chunks.thy ===== *)
theory Chunks
  imports Prelude
begin

text \<open>
  The contract of a sans-IO machine: bytes are pushed into it, and it is polled until it wants
  more bytes. What it does must not depend on how the transport cuts the stream into chunks.
  Both sessions of the library (client and server side) interpret the locale \<open>sans_io\<close>; the
  server session, whose driver takes decisions between two polls, also its extension
  \<open>sans_io_driven\<close>.
\<close>

text \<open>
  A driver's read loop: push a chunk, poll, stop at the first outcome. The result holds the
  outcome, the state, and the chunks that were not read.
\<close>

fun drive ::
  "('s \<Rightarrow> 'o option \<times> 's) \<Rightarrow> ('s \<Rightarrow> bytes \<Rightarrow> 's) \<Rightarrow> 's \<Rightarrow> bytes list
     \<Rightarrow> 'o option \<times> 's \<times> bytes list" where
  "drive poll push s [] = (None, s, [])"
| "drive poll push s (c # cs) =
     (case poll (push s c) of
        (None, s') \<Rightarrow> drive poll push s' cs
      | (Some r, s') \<Rightarrow> (Some r, s', cs))"

text \<open>
  A driver's event loop: poll, react to the outcome, read the next chunk only when the machine
  wants bytes; at most \<open>n\<close> outcomes. The result is the sequence of outcomes.
\<close>

fun outcomes ::
  "('s \<Rightarrow> 'o option \<times> 's) \<Rightarrow> ('s \<Rightarrow> bytes \<Rightarrow> 's) \<Rightarrow> ('o \<Rightarrow> 's \<Rightarrow> 's) \<Rightarrow> nat \<Rightarrow> 's
     \<Rightarrow> bytes list \<Rightarrow> 'o list" where
  "outcomes poll push react 0 s cs = []"
| "outcomes poll push react (Suc n) s [] =
     (case poll s of
        (None, s') \<Rightarrow> []
      | (Some r, s') \<Rightarrow> r # outcomes poll push react n (react r s') [])"
| "outcomes poll push react (Suc n) s (c # cs) =
     (case poll s of
        (None, s') \<Rightarrow> outcomes poll push react (Suc n) (push s' c) cs
      | (Some r, s') \<Rightarrow> r # outcomes poll push react n (react r s') (c # cs))"

locale sans_io =
  fixes poll :: "'s \<Rightarrow> 'o option \<times> 's" and push :: "'s \<Rightarrow> bytes \<Rightarrow> 's" and invar :: "'s \<Rightarrow> bool"
  assumes push_nil: "push s [] = s"
    and push_push: "push (push s a) b = push s (a @ b)"
    and invar_push: "invar s \<Longrightarrow> invar (push s b)"
    and invar_poll: "invar s \<Longrightarrow> poll s = (q, s') \<Longrightarrow> invar s'"
    and decided: "invar s \<Longrightarrow> poll s = (Some r, s') \<Longrightarrow> poll (push s b) = (Some r, push s' b)"
    and waiting: "invar s \<Longrightarrow> poll s = (None, s') \<Longrightarrow> poll (push s b) = poll (push s' b)"
    and waiting_again: "invar s \<Longrightarrow> poll s = (None, s') \<Longrightarrow> poll s' = (None, s')"
begin

lemma drive_idle:
  assumes "invar s" "poll s = (None, s)" "drive poll push s cs = (r, s', rest)"
  shows "poll (push s (concat cs)) = (r, push s' (concat rest))"
  using assms
proof (induction cs arbitrary: s)
  case Nil
  then show ?case by (auto simp: push_nil)
next
  case (Cons c cs)
  have i: "invar (push s c)" by (rule invar_push [OF Cons.prems(1)])
  obtain q t where p: "poll (push s c) = (q, t)" by (cases "poll (push s c)")
  show ?case
  proof (cases q)
    case None
    with p have p: "poll (push s c) = (None, t)" by simp
    have "drive poll push t cs = (r, s', rest)" using Cons.prems(3) p by simp
    then have "poll (push t (concat cs)) = (r, push s' (concat rest))"
      by (rule Cons.IH [OF invar_poll [OF i p] waiting_again [OF i p]])
    then show ?thesis using waiting [OF i p, of "concat cs"] by (simp add: push_push)
  next
    case (Some o')
    with p have p: "poll (push s c) = (Some o', t)" by simp
    with Cons.prems(3) have "r = Some o'" "s' = t" "rest = cs" by auto
    then show ?thesis using decided [OF i p, of "concat cs"] by (simp add: push_push)
  qed
qed

lemma drive_concat:
  assumes "invar s" "cs \<noteq> []" and d: "drive poll push s cs = (r, s', rest)"
  shows "poll (push s (concat cs)) = (r, push s' (concat rest))"
proof -
  obtain c cs' where cs: "cs = c # cs'" using assms(2) by (cases cs) auto
  have i: "invar (push s c)" by (rule invar_push [OF assms(1)])
  obtain q t where p: "poll (push s c) = (q, t)" by (cases "poll (push s c)")
  show ?thesis
  proof (cases q)
    case None
    with p have p: "poll (push s c) = (None, t)" by simp
    have "drive poll push t cs' = (r, s', rest)" using d p cs by simp
    then have "poll (push t (concat cs')) = (r, push s' (concat rest))"
      by (rule drive_idle [OF invar_poll [OF i p] waiting_again [OF i p]])
    then show ?thesis using waiting [OF i p, of "concat cs'"] by (simp add: push_push cs)
  next
    case (Some o')
    with p have p: "poll (push s c) = (Some o', t)" by simp
    with d cs have "r = Some o'" "s' = t" "rest = cs'" by auto
    then show ?thesis using decided [OF i p, of "concat cs'"] by (simp add: push_push cs)
  qed
qed

text \<open>Two ways of cutting one stream decide alike and leave the same bytes unread.\<close>

lemma drive_same_stream:
  assumes "invar s" "concat cs = concat ds" "cs \<noteq> []" "ds \<noteq> []"
    and "drive poll push s cs = (r, s', rest)" and "drive poll push s ds = (q, t', rest')"
  shows "r = q" "push s' (concat rest) = push t' (concat rest')"
  using drive_concat [OF assms(1,3,5)] drive_concat [OF assms(1,4,6)] assms(2) by auto

end

locale sans_io_driven = sans_io poll push invar
  for poll :: "'s \<Rightarrow> 'o option \<times> 's" and push :: "'s \<Rightarrow> bytes \<Rightarrow> 's" and invar :: "'s \<Rightarrow> bool" +
  fixes react :: "'o \<Rightarrow> 's \<Rightarrow> 's"
  assumes invar_react: "invar s \<Longrightarrow> invar (react r s)"
    and react_push: "react r (push s b) = push (react r s) b"
begin

lemma outcomes_same_poll:
  "poll s = poll t \<Longrightarrow> outcomes poll push react n s [] = outcomes poll push react n t []"
  by (cases n) auto

lemma outcomes_concat:
  "invar s \<Longrightarrow>
     outcomes poll push react n s cs = outcomes poll push react n (push s (concat cs)) []"
proof (induction n arbitrary: s cs)
  case 0
  show ?case by simp
next
  case (Suc n)
  note outer = Suc.IH
  show ?case using Suc.prems
  proof (induction cs arbitrary: s)
    case Nil
    show ?case by (simp add: push_nil)
  next
    case (Cons c cs)
    obtain q t where p: "poll s = (q, t)" by (cases "poll s")
    note i = invar_poll [OF Cons.prems p]
    show ?case
    proof (cases q)
      case None
      with p have p': "poll s = (None, t)" by simp
      have e: "poll (push s (concat (c # cs))) = poll (push (push t c) (concat cs))"
        using waiting [OF Cons.prems p', of "concat (c # cs)"] by (simp add: push_push)
      have "outcomes poll push react (Suc n) s (c # cs) =
          outcomes poll push react (Suc n) (push t c) cs"
        using p' by simp
      also have "\<dots> = outcomes poll push react (Suc n) (push (push t c) (concat cs)) []"
        by (rule Cons.IH [OF invar_push [OF i]])
      also have "\<dots> = outcomes poll push react (Suc n) (push s (concat (c # cs))) []"
        by (rule outcomes_same_poll [OF e [symmetric]])
      finally show ?thesis .
    next
      case (Some r)
      with p have p': "poll s = (Some r, t)" by simp
      show ?thesis
        unfolding outcomes.simps p' prod.case option.case
          decided [OF Cons.prems p', of "concat (c # cs)"] react_push
        by (simp only: outer [OF invar_react [OF i], of r "c # cs"])
    qed
  qed
qed

end

end
