(* ===== verification/ClientSession.thy ===== *)
theory ClientSession
  imports Binding Chunks
begin

text \<open>
  \<^verbatim>\<open>optisocks5/core/session.py\<close>: the sans-IO client \<^verbatim>\<open>Session\<close> of the optimistic
  handshake. The state is a record; \<open>session_turn\<close> is one pass of the \<^verbatim>\<open>while True\<close> of
  \<^verbatim>\<open>Session.feed\<close> and \<open>session_loop\<close> the loop, which ends because every pass that goes round
  again moves the phase forward. A call that raises leaves the state as it is at the raise.
\<close>

section \<open>The length of a reply\<close>

definition reply_size :: "bytes \<Rightarrow> nat option" where
  "reply_size buf =
     (if length buf < 4 then None
      else let atyp = buf ! 3
           in if atyp = 0x01 then Some (4 + 4 + 2)
              else if atyp = 0x04 then Some (4 + 16 + 2)
              else if atyp = 0x03 then
                (if length buf < 5 then None else Some (4 + 1 + unat (buf ! 4) + 2))
              else None)"

lemma reply_size_len: "reply_size buf = message_len buf"
  by (auto simp: reply_size_def message_len_def addr_size_def Let_def)

section \<open>State\<close>

datatype sess_phase = SMethod | SAuth | SReply | SDone

record session =
  ss_user :: "pystr option"
  ss_pass :: "pystr option"
  ss_auth :: bool
  ss_buf :: bytes
  ss_state :: sess_phase
  ss_reply :: "reply_obj option"

definition session_init :: "pystr option \<Rightarrow> pystr option \<Rightarrow> py_exn + session" where
  "session_init username password =
     (if (username = None) \<noteq> (password = None)
      then Inl (ValueErr ''username and password must be given together'')
      else Inr \<lparr>ss_user = username, ss_pass = password, ss_auth = (username \<noteq> None),
                ss_buf = [], ss_state = SMethod, ss_reply = None\<rparr>)"

definition session_method :: "session \<Rightarrow> method_enum" where
  "session_method s = (if ss_auth s then USERPASS else NO_AUTH)"

definition optimistic_pipeline ::
  "inet_api \<Rightarrow> session \<Rightarrow> pystr \<Rightarrow> int \<Rightarrow> int \<Rightarrow> py_exn + bytes" where
  "optimistic_pipeline I s host port cmd =
     bind_res (py_client_greeting [word_of_int (method_value (session_method s))]) (\<lambda>out.
     bind_res
       (if ss_auth s
        then (case (ss_user s, ss_pass s) of
                (Some u, Some p) \<Rightarrow> bind_res (py_userpass_auth u p) (\<lambda>a. Inr (out @ a))
              | _ \<Rightarrow> Inl TypeErr)
        else Inr out) (\<lambda>out.
     bind_res (codec_request I cmd host port) (\<lambda>r. Inr (out @ r))))"

section \<open>Feeding\<close>

datatype turn = Again session | Stop "py_exn + reply_obj option" session

definition session_turn :: "inet_api \<Rightarrow> session \<Rightarrow> turn" where
  "session_turn I s =
     (let buf = ss_buf s in
      case ss_state s of
        SMethod \<Rightarrow>
          if length buf < 2 then Stop (Inr None) s
          else (case py_parse_method_selection (take 2 buf) of
                  None \<Rightarrow> Stop (Inl (Socks5Err ''malformed method selection'')) s
                | Some m \<Rightarrow>
                    if m \<noteq> method_value (session_method s) then
                      (if m = method_value NO_ACCEPTABLE
                       then Stop (Inl (Socks5Err
                         ''proxy rejected all offered methods (NO ACCEPTABLE METHODS)'')) s
                       else Stop (Inl (Socks5Err
                         (''proxy chose method '' @ dec_int m @ '', we offered only '' @
                          dec_int (method_value (session_method s))))) s)
                    else Again (s\<lparr>ss_buf := drop 2 buf,
                                  ss_state := (if ss_auth s then SAuth else SReply)\<rparr>))
      | SAuth \<Rightarrow>
          if length buf < 2 then Stop (Inr None) s
          else (case py_parse_auth_reply (take 2 buf) of
                  None \<Rightarrow> Stop (Inl (Socks5Err ''malformed auth reply'')) s
                | Some status \<Rightarrow>
                    if status \<noteq> 0
                    then Stop (Inl (Socks5Err
                      (''auth rejected (status '' @ dec_int status @ '')''))) s
                    else Again (s\<lparr>ss_buf := drop 2 buf, ss_state := SReply\<rparr>))
      | SReply \<Rightarrow>
          if length buf \<ge> 4 \<and> buf ! 3 \<notin> {0x01, 0x03, 0x04}
          then Stop (Inl (Socks5Err (''reply has unknown ATYP '' @ dec_int (uint (buf ! 3))))) s
          else (case reply_size buf of
                  None \<Rightarrow> Stop (Inr None) s
                | Some n \<Rightarrow>
                    if length buf < n then Stop (Inr None) s
                    else (case py_parse_reply I (take n buf) of
                            Inl e \<Rightarrow> Stop (Inl e) s
                          | Inr None \<Rightarrow> Stop (Inl (Socks5Err ''malformed reply'')) s
                          | Inr (Some parsed) \<Rightarrow>
                              Stop (Inr (Some (mk_reply parsed)))
                                (s\<lparr>ss_buf := drop n buf, ss_reply := Some (mk_reply parsed),
                                   ss_state := SDone\<rparr>)))
      | SDone \<Rightarrow> Stop (Inr (ss_reply s)) s)"

fun phase_rank :: "sess_phase \<Rightarrow> nat" where
  "phase_rank SMethod = 3"
| "phase_rank SAuth = 2"
| "phase_rank SReply = 1"
| "phase_rank SDone = 0"

lemma session_turn_rank:
  "session_turn I s = Again s' \<Longrightarrow> phase_rank (ss_state s') < phase_rank (ss_state s)"
  by (auto simp: session_turn_def Let_def
      split: sess_phase.splits if_splits option.splits sum.splits)

function session_loop :: "inet_api \<Rightarrow> session \<Rightarrow> (py_exn + reply_obj option) \<times> session" where
  "session_loop I s =
     (case session_turn I s of
        Again s' \<Rightarrow> session_loop I s'
      | Stop r s' \<Rightarrow> (r, s'))"
  by pat_completeness auto
termination
  by (relation "measure (\<lambda>(I, s). phase_rank (ss_state s))") (auto dest: session_turn_rank)

declare session_loop.simps [simp del]

definition feed :: "inet_api \<Rightarrow> session \<Rightarrow> bytes \<Rightarrow> (py_exn + reply_obj option) \<times> session" where
  "feed I s data =
     session_loop I (if ss_state s \<noteq> SDone then s\<lparr>ss_buf := ss_buf s @ data\<rparr> else s)"

definition leftover :: "session \<Rightarrow> bytes" where
  "leftover s = (if ss_state s = SDone then ss_buf s else [])"

text \<open>
  The loop every user of a session runs: read a chunk, feed it, until a reply is returned or
  the session raises. The chunks behind that one stay unread.
\<close>

fun feed_all ::
  "inet_api \<Rightarrow> session \<Rightarrow> bytes list \<Rightarrow> (py_exn + reply_obj option) \<times> session \<times> bytes list" where
  "feed_all I s [] = (Inr None, s, [])"
| "feed_all I s (c # cs) =
     (case feed I s c of
        (Inr None, s') \<Rightarrow> feed_all I s' cs
      | (r, s') \<Rightarrow> (r, s', cs))"

end
