(* ===== verification/ClientSessionFacts.thy ===== *)
theory ClientSessionFacts
  imports ClientSession
begin

text \<open>
  Facts about the client session: its interpretation of the sans-IO contract, its invariant,
  what it consumes, and how much it can be made to wait.
\<close>

section \<open>The sans-IO contract\<close>

definition sess_push :: "session \<Rightarrow> bytes \<Rightarrow> session" where
  "sess_push s b = s\<lparr>ss_buf := ss_buf s @ b\<rparr>"

definition sess_poll :: "inet_api \<Rightarrow> session \<Rightarrow> (py_exn + reply_obj option) option \<times> session" where
  "sess_poll I s =
     (case session_loop I s of
        (r, s') \<Rightarrow> (if r = Inr None then None else Some r, s'))"

lemma sess_push_simps [simp]:
  "ss_user (sess_push s b) = ss_user s" "ss_pass (sess_push s b) = ss_pass s"
  "ss_auth (sess_push s b) = ss_auth s" "ss_state (sess_push s b) = ss_state s"
  "ss_reply (sess_push s b) = ss_reply s" "ss_buf (sess_push s b) = ss_buf s @ b"
  "session_method (sess_push s b) = session_method s"
  by (simp_all add: sess_push_def session_method_def)

lemma turn_wait: "session_turn I s = Stop (Inr None) s' \<Longrightarrow> s' = s"
  by (auto simp: session_turn_def Let_def
      split: sess_phase.splits if_splits option.splits sum.splits)

lemma turn_again_push:
  "session_turn I s = Again s' \<Longrightarrow> session_turn I (sess_push s b) = Again (sess_push s' b)"
  by (auto simp: session_turn_def Let_def sess_push_def session_method_def
      split: sess_phase.splits if_splits option.splits sum.splits)

lemma turn_stop_push:
  assumes "session_turn I s = Stop r s'" "r \<noteq> Inr None"
  shows "session_turn I (sess_push s b) = Stop r (sess_push s' b)"
proof (cases "ss_state s")
  case SReply
  show ?thesis
  proof (cases "length (ss_buf s) \<ge> 4 \<and> ss_buf s ! 3 \<notin> {0x01, 0x03, 0x04}")
    case True
    with SReply assms show ?thesis
      by (auto simp: session_turn_def nth_append)
  next
    case False
    with SReply assms obtain n where n: "reply_size (ss_buf s) = Some n" "n \<le> length (ss_buf s)"
      by (auto simp: session_turn_def Let_def split: option.splits if_splits)
    then have n': "reply_size (ss_buf s @ b) = Some n"
      by (simp add: reply_size_len message_len_extends)
    have l: "4 \<le> length (ss_buf s)" using n(1) by (auto simp: reply_size_def split: if_splits)
    show ?thesis
      using False SReply assms n n' l
      by (auto simp: session_turn_def nth_append sess_push_def Let_def split: sum.splits option.splits)
  qed
next
  case SMethod
  with assms show ?thesis
    by (auto simp: session_turn_def Let_def split: if_splits option.splits)
next
  case SAuth
  with assms show ?thesis
    by (auto simp: session_turn_def Let_def split: if_splits option.splits)
next
  case SDone
  with assms show ?thesis by (auto simp: session_turn_def Let_def)
qed

lemma loop_again: "session_turn I s = Again s' \<Longrightarrow> session_loop I s = session_loop I s'"
  by (simp add: session_loop.simps [of I s])

lemma loop_stop: "session_turn I s = Stop r s' \<Longrightarrow> session_loop I s = (r, s')"
  by (simp add: session_loop.simps [of I s])

lemma loop_decided:
  "session_loop I s = (r, s') \<Longrightarrow> r \<noteq> Inr None \<Longrightarrow>
     session_loop I (sess_push s b) = (r, sess_push s' b)"
proof (induction I s rule: session_loop.induct)
  case (1 I s)
  show ?case
  proof (cases "session_turn I s")
    case (Again t)
    then have "session_loop I t = (r, s')" using "1.prems"(1) by (simp add: loop_again)
    then show ?thesis using "1.IH" [OF Again] "1.prems"(2) loop_again [OF turn_again_push [OF Again]] by simp
  next
    case (Stop q t)
    then show ?thesis using "1.prems" turn_stop_push [of I s q t b] by (simp add: loop_stop)
  qed
qed

lemma loop_waiting:
  "session_loop I s = (Inr None, s') \<Longrightarrow> session_loop I (sess_push s b) = session_loop I (sess_push s' b)"
proof (induction I s rule: session_loop.induct)
  case (1 I s)
  show ?case
  proof (cases "session_turn I s")
    case (Again t)
    then have "session_loop I t = (Inr None, s')" using "1.prems" by (simp add: loop_again)
    then show ?thesis using "1.IH" [OF Again] loop_again [OF turn_again_push [OF Again]] by simp
  next
    case (Stop q t)
    then show ?thesis using "1.prems" turn_wait [of I s t] by (simp add: loop_stop)
  qed
qed

lemma loop_waiting_again:
  "session_loop I s = (Inr None, s') \<Longrightarrow> session_loop I s' = (Inr None, s')"
proof (induction I s rule: session_loop.induct)
  case (1 I s)
  show ?case
  proof (cases "session_turn I s")
    case (Again t)
    then show ?thesis using "1.IH" [OF Again] "1.prems" by (simp add: loop_again)
  next
    case (Stop q t)
    then show ?thesis using "1.prems" turn_wait [of I s t] by (simp add: loop_stop)
  qed
qed

interpretation client_io: sans_io "sess_poll I" sess_push "\<lambda>_. True" for I
proof unfold_locales
  fix s r s' b
  show "sess_push s [] = s" by (simp add: sess_push_def)
  show "sess_push (sess_push s a) b = sess_push s (a @ b)" for a by (simp add: sess_push_def)
  assume p: "sess_poll I s = (Some r, s')"
  then have "session_loop I s = (r, s')" "r \<noteq> Inr None"
    by (auto simp: sess_poll_def split: prod.splits if_splits)
  from loop_decided [OF this, of b] this(2)
  show "sess_poll I (sess_push s b) = (Some r, sess_push s' b)" by (simp add: sess_poll_def)
next
  fix s s' b assume "sess_poll I s = (None, s')"
  then have l: "session_loop I s = (Inr None, s')"
    by (auto simp: sess_poll_def split: prod.splits if_splits)
  show "sess_poll I (sess_push s b) = sess_poll I (sess_push s' b)"
    using loop_waiting [OF l] by (simp add: sess_poll_def)
  show "sess_poll I s' = (None, s')" using loop_waiting_again [OF l] by (simp add: sess_poll_def)
qed simp_all

section \<open>From the contract to the feeding loop\<close>

lemma feed_poll:
  assumes "ss_state s \<noteq> SDone"
  shows "feed I s b = (case sess_poll I (sess_push s b) of
    (None, s') \<Rightarrow> (Inr None, s') | (Some r, s') \<Rightarrow> (r, s'))"
  using assms by (auto simp: feed_def sess_poll_def sess_push_def split: prod.splits)

lemma turn_progress:
  "session_turn I s = Again s' \<Longrightarrow> ss_state s' \<in> {SAuth, SReply}"
  by (auto simp: session_turn_def Let_def
      split: sess_phase.splits if_splits option.splits sum.splits)

lemma loop_waiting_open:
  "session_loop I s = (Inr None, s') \<Longrightarrow> ss_state s \<noteq> SDone \<Longrightarrow> ss_state s' \<noteq> SDone"
proof (induction I s rule: session_loop.induct)
  case (1 I s)
  show ?case
  proof (cases "session_turn I s")
    case (Again t)
    with turn_progress [OF Again] "1.IH" [OF Again] "1.prems"(1) show ?thesis
      by (auto simp: loop_again)
  next
    case (Stop q t)
    then show ?thesis using "1.prems" turn_wait [of I s t] by (simp add: loop_stop)
  qed
qed

lemma feed_all_drive:
  "ss_state s \<noteq> SDone \<Longrightarrow> feed_all I s cs =
     (case drive (sess_poll I) sess_push s cs of
        (None, s', rest) \<Rightarrow> (Inr None, s', rest) | (Some r, s', rest) \<Rightarrow> (r, s', rest))"
proof (induction cs arbitrary: s)
  case (Cons c cs)
  show ?case
  proof (cases "session_loop I (sess_push s c)")
    case (Pair r t)
    show ?thesis
    proof (cases "r = Inr None")
      case True
      with Pair Cons.prems have "ss_state t \<noteq> SDone" by (simp add: loop_waiting_open [of I "sess_push s c"])
      with Cons Pair True show ?thesis by (simp add: feed_poll sess_poll_def)
    next
      case False
      with Cons.prems Pair show ?thesis
        by (auto simp: feed_poll sess_poll_def split: sum.splits option.splits)
    qed
  qed
qed simp

section \<open>Single phases\<close>

lemma turn_method:
  assumes "ss_state s = SMethod" "ss_buf s = kVer # m # r"
    and "uint m = method_value (session_method s)"
  shows "session_turn I s =
    Again (s\<lparr>ss_buf := r, ss_state := (if ss_auth s then SAuth else SReply)\<rparr>)"
  using assms
  by (simp add: session_turn_def py_parse_method_selection_def parse_method_selection_def)

lemma turn_auth:
  assumes "ss_state s = SAuth" "ss_buf s = kAuthVer # 0 # r"
  shows "session_turn I s = Again (s\<lparr>ss_buf := r, ss_state := SReply\<rparr>)"
  using assms by (simp add: session_turn_def py_parse_auth_reply_def parse_auth_reply_def)

lemma turn_reply:
  assumes st: "ss_state s = SReply" and n: "message_len (ss_buf s) = Some n" "n \<le> length (ss_buf s)"
    and p: "py_parse_reply I (take n (ss_buf s)) = Inr (Some v)"
  shows "session_turn I s = Stop (Inr (Some (mk_reply v)))
    (s\<lparr>ss_buf := drop n (ss_buf s), ss_reply := Some (mk_reply v), ss_state := SDone\<rparr>)"
proof -
  have "ss_buf s ! 3 \<in> {0x01, 0x03, 0x04}"
    using n(1) by (auto simp: message_len_def addr_size_def split: if_splits)
  with assms show ?thesis by (auto simp: session_turn_def reply_size_len Let_def)
qed

text \<open>What a server of this protocol sends before its reply.\<close>

definition accept_bytes :: "bool \<Rightarrow> bytes" where
  "accept_bytes auth = (if auth then [kVer, 2, kAuthVer, 0] else [kVer, 0])"

lemma loop_accept:
  assumes st: "ss_state s = SMethod" and b: "ss_buf s = accept_bytes (ss_auth s) @ r"
  shows "session_loop I s = session_loop I (s\<lparr>ss_buf := r, ss_state := SReply\<rparr>)"
proof (cases "ss_auth s")
  case True
  let ?t = "s\<lparr>ss_buf := kAuthVer # 0 # r, ss_state := SAuth\<rparr>"
  have "session_turn I s = Again ?t"
    using True st b turn_method [of s 2 "kAuthVer # 0 # r" I]
    by (simp add: accept_bytes_def session_method_def)
  moreover have "session_turn I ?t = Again (s\<lparr>ss_buf := r, ss_state := SReply\<rparr>)"
    using turn_auth [of ?t r I] by simp
  ultimately show ?thesis by (simp only: loop_again)
next
  case False
  then show ?thesis
    using st b turn_method [of s 0 r I]
    by (intro loop_again) (simp add: accept_bytes_def session_method_def)
qed

lemma py_reply_built:
  assumes I: "posix_inet I" and b: "py_reply I rep host port = Inr w"
  shows "py_parse_reply I (w @ ys) = Inr (Some (rep, seen_host I host, port))"
    and "message_len (w @ ys) = Some (length w)"
proof -
  obtain h where h: "utf8_encode host = Some h" "0 \<notin> set h"
    and rng: "0 \<le> rep" "rep \<le> 255" "0 \<le> port" "port \<le> 65535"
    and r: "reply I (word_of_int rep) \<lparr>a_host = h, a_port = word_of_int port\<rparr> = Inr w"
    using b by (auto simp: py_reply_def result_simps)
  note u = uint_of_int_small [of rep, where 'a = 8] uint_of_int_small [of port, where 'a = 16]
  show "py_parse_reply I (w @ ys) = Inr (Some (rep, seen_host I host, port))"
    using parse_reply_built(1) [OF I r, of ys] seen_host_decodes [OF I h(1)] u rng
    by (simp add: py_parse_reply_def build_message_def py_str_result_def)
  show "message_len (w @ ys) = Some (length w)" by (rule parse_reply_built(2) [OF I r])
qed

section \<open>Bytes consumed, in order\<close>

text \<open>
  What one poll takes off the front of the buffer is exactly the messages it went through.
\<close>

definition sess_ok :: "session \<Rightarrow> bool" where
  "sess_ok s \<longleftrightarrow>
     (ss_state s = SDone \<longleftrightarrow> ss_reply s \<noteq> None) \<and>
     (ss_user s = None \<longleftrightarrow> ss_pass s = None) \<and>
     (ss_auth s \<longleftrightarrow> ss_user s \<noteq> None) \<and>
     (ss_state s = SAuth \<longrightarrow> ss_auth s)"

lemma session_init_ok: "session_init u p = Inr s \<Longrightarrow> sess_ok s"
  by (auto simp: session_init_def sess_ok_def split: if_splits)

lemma turn_ok:
  "sess_ok s \<Longrightarrow> session_turn I s = Again s' \<Longrightarrow> sess_ok s'"
  "sess_ok s \<Longrightarrow> session_turn I s = Stop r s' \<Longrightarrow> sess_ok s'"
  by (auto simp: session_turn_def sess_ok_def Let_def
      split: sess_phase.splits if_splits option.splits sum.splits)

lemma loop_ok: "sess_ok s \<Longrightarrow> session_loop I s = (r, s') \<Longrightarrow> sess_ok s'"
proof (induction I s rule: session_loop.induct)
  case (1 I s)
  show ?case
  proof (cases "session_turn I s")
    case (Again t)
    with 1 turn_ok(1) show ?thesis by (auto simp: loop_again)
  next
    case (Stop q t)
    with 1 turn_ok(2) show ?thesis by (auto simp: loop_stop)
  qed
qed

lemma feed_ok: "sess_ok s \<Longrightarrow> feed I s d = (r, s') \<Longrightarrow> sess_ok s'"
proof -
  assume ok: "sess_ok s" and f: "feed I s d = (r, s')"
  from ok have "sess_ok (s\<lparr>ss_buf := b\<rparr>)" for b
    by (cases "ss_user s"; cases "ss_pass s") (auto simp: sess_ok_def)
  with f ok show "sess_ok s'" by (auto simp: feed_def split: if_splits elim: loop_ok [rotated])
qed

lemma turn_again_inv:
  assumes "session_turn I s = Again s'"
  shows "ss_state s = SMethod \<and>
      (\<exists>m r. ss_buf s = kVer # m # r \<and> uint m = method_value (session_method s) \<and>
         s' = s\<lparr>ss_buf := r, ss_state := (if ss_auth s then SAuth else SReply)\<rparr>) \<or>
    ss_state s = SAuth \<and>
      (\<exists>r. ss_buf s = kAuthVer # 0 # r \<and> s' = s\<lparr>ss_buf := r, ss_state := SReply\<rparr>)"
proof (cases "ss_buf s")
  case Nil
  with assms show ?thesis
    by (auto simp: session_turn_def Let_def reply_size_def
        split: sess_phase.splits if_splits option.splits sum.splits)
next
  case (Cons a q)
  show ?thesis
  proof (cases q)
    case Nil
    with Cons assms show ?thesis
      by (auto simp: session_turn_def Let_def reply_size_def
          split: sess_phase.splits if_splits option.splits sum.splits)
  next
    case (Cons b r)
    with \<open>ss_buf s = a # q\<close> assms show ?thesis
      by (auto simp: session_turn_def Let_def py_parse_method_selection_def
          parse_method_selection_def py_parse_auth_reply_def parse_auth_reply_def uint_0_iff
          split: sess_phase.splits if_splits option.splits sum.splits)
  qed
qed

lemma turn_reply_inv:
  assumes "session_turn I s = Stop (Inr (Some v)) t" "ss_state s \<noteq> SDone"
  shows "ss_state s = SReply \<and> ss_state t = SDone \<and>
    (\<exists>n p. message_len (ss_buf s) = Some n \<and> n \<le> length (ss_buf s) \<and>
       py_parse_reply I (take n (ss_buf s)) = Inr (Some p) \<and> v = mk_reply p \<and>
       ss_buf t = drop n (ss_buf s))"
  using assms
  by (auto simp: session_turn_def Let_def reply_size_len
      split: sess_phase.splits if_splits option.splits sum.splits)

text \<open>The bytes a session still has to see before the reply.\<close>

fun awaited :: "sess_phase \<Rightarrow> bool \<Rightarrow> bytes" where
  "awaited SMethod auth = accept_bytes auth"
| "awaited SAuth auth = [kAuthVer, 0]"
| "awaited SReply auth = []"
| "awaited SDone auth = []"

lemma uint_method: "uint (m :: byte) = method_value (session_method s) \<Longrightarrow> m = (if ss_auth s then 2 else 0)"
proof -
  assume "uint m = method_value (session_method s)"
  then have "uint m = uint (if ss_auth s then 2 else 0 :: byte)" by (simp add: session_method_def)
  then show ?thesis by (simp only: word_uint_eq_iff)
qed

lemma loop_consumes:
  "session_loop I s = (Inr (Some v), t) \<Longrightarrow> ss_state s \<noteq> SDone \<Longrightarrow>
     ss_state t = SDone \<and>
     (\<exists>w p. ss_buf s = awaited (ss_state s) (ss_auth s) @ w @ ss_buf t \<and>
        message_len w = Some (length w) \<and> py_parse_reply I w = Inr (Some p) \<and> v = mk_reply p)"
proof (induction I s rule: session_loop.induct)
  case (1 I s)
  show ?case
  proof (cases "session_turn I s")
    case (Again s')
    have "ss_state s' \<noteq> SDone" using turn_progress [OF Again] by auto
    with "1.IH" [OF Again] "1.prems"(1) loop_again [OF Again]
    obtain w p where w: "ss_buf s' = awaited (ss_state s') (ss_auth s') @ w @ ss_buf t"
        "message_len w = Some (length w)" "py_parse_reply I w = Inr (Some p)" "v = mk_reply p"
      and d: "ss_state t = SDone"
      by auto
    have "ss_buf s = awaited (ss_state s) (ss_auth s) @ w @ ss_buf t"
      using turn_again_inv [OF Again] w(1)
      by (auto simp: accept_bytes_def split: if_splits dest!: uint_method)
    with w d show ?thesis by blast
  next
    case (Stop q s')
    with "1.prems" have "session_turn I s = Stop (Inr (Some v)) t" by (simp add: loop_stop)
    from turn_reply_inv [OF this "1.prems"(2)] obtain n p where
        *: "ss_state s = SReply" "ss_state t = SDone" "message_len (ss_buf s) = Some n"
          "n \<le> length (ss_buf s)" "py_parse_reply I (take n (ss_buf s)) = Inr (Some p)"
          "v = mk_reply p" "ss_buf t = drop n (ss_buf s)"
      by blast
    then have "ss_buf s = awaited (ss_state s) (ss_auth s) @ take n (ss_buf s) @ ss_buf t"
        "message_len (take n (ss_buf s)) = Some (length (take n (ss_buf s)))"
      by (simp_all add: message_len_take)
    with * show ?thesis by blast
  qed
qed

section \<open>Errors\<close>

lemma py_parse_reply_raises: "py_parse_reply I b = Inl e \<Longrightarrow> e = UnicodeDecodeErr"
  by (auto simp: py_parse_reply_def build_message_def bind_res_Inl py_str_result_def
      split: option.splits)

lemma turn_raises:
  "session_turn I s = Stop (Inl e) s' \<Longrightarrow> s' = s \<and> (is_socks5_error e \<or> e = UnicodeDecodeErr)"
  by (auto simp: session_turn_def Let_def dest: py_parse_reply_raises
      split: sess_phase.splits if_splits option.splits sum.splits)

lemma loop_raises:
  "session_loop I s = (Inl e, s') \<Longrightarrow>
     session_loop I s' = (Inl e, s') \<and> (is_socks5_error e \<or> e = UnicodeDecodeErr)"
proof (induction I s rule: session_loop.induct)
  case (1 I s)
  show ?case
  proof (cases "session_turn I s")
    case (Again t)
    with 1 show ?thesis by (auto simp: loop_again)
  next
    case (Stop q t)
    with 1 turn_raises [of I s e t] show ?thesis by (auto simp: loop_stop)
  qed
qed

section \<open>Waiting\<close>

text \<open>How many bytes a session can hold back before it must decide.\<close>

fun wait_bound :: "sess_phase \<Rightarrow> nat" where
  "wait_bound SMethod = 266"
| "wait_bound SAuth = 264"
| "wait_bound SReply = 262"
| "wait_bound SDone = 0"

lemma turn_wait_bound:
  assumes "session_turn I s = Stop (Inr None) s'" "ss_state s \<noteq> SDone"
  shows "length (ss_buf s) < wait_bound (ss_state s)"
proof (cases "ss_state s")
  case SReply
  have "False" if "262 \<le> length (ss_buf s)"
  proof -
    have k: "ss_buf s ! 3 \<in> {0x01, 0x03, 0x04} \<longleftrightarrow> message_len (ss_buf s) \<noteq> None"
      using that by (subst message_len_known) auto
    with SReply assms that message_len_max [of "ss_buf s"] show False
      by (fastforce simp: session_turn_def Let_def reply_size_len
          split: if_splits option.splits sum.splits)
  qed
  with SReply show ?thesis by fastforce
qed (use assms in \<open>auto simp: session_turn_def Let_def split: if_splits option.splits\<close>)

lemma loop_wait_bound:
  "session_loop I s = (Inr None, s') \<Longrightarrow> ss_state s \<noteq> SDone \<Longrightarrow>
     length (ss_buf s) < wait_bound (ss_state s)"
proof (induction I s rule: session_loop.induct)
  case (1 I s)
  show ?case
  proof (cases "session_turn I s")
    case (Again t)
    have "ss_state t \<noteq> SDone" using turn_progress [OF Again] by auto
    then have "length (ss_buf t) < wait_bound (ss_state t)"
      using "1.IH" [OF Again] "1.prems"(1) by (simp add: loop_again [OF Again])
    then show ?thesis using turn_again_inv [OF Again] by (auto split: if_splits)
  next
    case (Stop q t)
    with 1 turn_wait_bound [of I s t] show ?thesis by (auto simp: loop_stop)
  qed
qed

lemma session_init_state:
  "session_init u p = Inr s \<Longrightarrow>
     ss_state s = SMethod \<and> ss_buf s = [] \<and> ss_reply s = None \<and> ss_auth s = (u \<noteq> None) \<and>
     ss_user s = u \<and> ss_pass s = p"
  by (auto simp: session_init_def split: if_splits)

lemma loop_reply:
  "session_loop I s = (Inr (Some v), t) \<Longrightarrow> ss_state s \<noteq> SDone \<Longrightarrow> ss_reply t = Some v"
proof (induction I s rule: session_loop.induct)
  case (1 I s)
  show ?case
  proof (cases "session_turn I s")
    case (Again u)
    have "ss_state u \<noteq> SDone" using turn_progress [OF Again] by auto
    with 1 Again show ?thesis by (auto simp: loop_again)
  next
    case (Stop q u)
    with "1.prems"(1) have "session_turn I s = Stop (Inr (Some v)) t" by (simp add: loop_stop)
    with "1.prems"(2) show ?thesis
      by (auto simp: session_turn_def Let_def
          split: sess_phase.splits if_splits option.splits sum.splits)
  qed
qed

lemma drive_outcome:
  "drive (sess_poll I) sess_push s cs = (Some r, t, rest) \<Longrightarrow> r \<noteq> Inr None"
  by (induction cs arbitrary: s)
    (auto simp: sess_poll_def split: option.splits prod.splits if_splits)

section \<open>A complete handshake\<close>

lemma session_reads:
  assumes "posix_inet I" "session_init user pass = Inr s" "py_reply I rep host port = Inr w"
  shows "\<exists>t. feed I s (accept_bytes (user \<noteq> None) @ w @ tunnel) =
      (Inr (Some \<lparr>r_rep = rep, r_host = seen_host I host, r_port = port\<rparr>), t) \<and>
    leftover t = tunnel"
proof -
  note init = session_init_state [OF assms(2)]
  note built = py_reply_built [OF assms(1,3), of tunnel] py_reply_built(1) [OF assms(1,3), of "[]"]
  let ?d = "accept_bytes (user \<noteq> None) @ w @ tunnel"
  let ?s = "s\<lparr>ss_buf := ss_buf s @ ?d\<rparr>" and ?q = "s\<lparr>ss_buf := w @ tunnel, ss_state := SReply\<rparr>"
  have "feed I s ?d = session_loop I ?s" using init by (simp add: feed_def)
  also have "\<dots> = session_loop I ?q" using loop_accept [of ?s "w @ tunnel" I] init by simp
  also have "session_turn I ?q = Stop (Inr (Some (mk_reply (rep, seen_host I host, port))))
      (?q\<lparr>ss_buf := tunnel, ss_reply := Some (mk_reply (rep, seen_host I host, port)),
          ss_state := SDone\<rparr>)"
    using built turn_reply [of ?q "length w" I "(rep, seen_host I host, port)"] by simp
  note loop_stop [OF this]
  finally show ?thesis by (simp add: leftover_def)
qed

section \<open>Fresh sessions\<close>

lemma feed_all_concat:
  assumes "session_init user pass = Inr s" "cs \<noteq> []" and "feed_all I s cs = (r, s', rest)"
  shows "feed I s (concat cs) = (r, s'\<lparr>ss_buf := ss_buf s' @ concat rest\<rparr>)"
proof -
  have st: "ss_state s \<noteq> SDone" using session_init_state [OF assms(1)] by simp
  obtain q t z where d: "drive (sess_poll I) sess_push s cs = (q, t, z)" by (metis prod_cases3)
  have "s' = t" "rest = z" "r = (case q of None \<Rightarrow> Inr None | Some x \<Rightarrow> x)"
    using assms(3) d feed_all_drive [OF st, of I cs] by (auto split: option.splits)
  then show ?thesis
    using client_io.drive_concat [OF TrueI assms(2) d] st
    by (simp add: feed_poll sess_push_def split: option.splits)
qed

lemma fresh_feed_consumes:
  assumes "session_init user pass = Inr s" and "feed I s data = (Inr (Some v), t)"
  shows "\<exists>w p. data = accept_bytes (user \<noteq> None) @ w @ leftover t \<and>
    reply_size w = Some (length w) \<and> py_parse_reply I w = Inr (Some p) \<and> v = mk_reply p"
proof -
  note init = session_init_state [OF assms(1)]
  have l: "session_loop I (s\<lparr>ss_buf := data\<rparr>) = (Inr (Some v), t)"
    using assms(2) init by (simp add: feed_def)
  show ?thesis
    using loop_consumes [OF l] init by (auto simp: leftover_def reply_size_len)
qed

lemma fresh_feed_waits:
  assumes "session_init user pass = Inr s" and "feed I s data = (Inr None, t)"
  shows "length data < 266"
proof -
  note init = session_init_state [OF assms(1)]
  have "session_loop I (s\<lparr>ss_buf := data\<rparr>) = (Inr None, t)"
    using assms(2) init by (simp add: feed_def)
  from loop_wait_bound [OF this] init show ?thesis by simp
qed

end
