(* ===== verification/InetText.thy ===== *)
theory InetText
  imports Codec
begin

text \<open>
  A concrete pair of address conversions that keeps the contract \<open>posix_inet\<close>: dotted-decimal
  IPv4 text, and IPv6 text of eight hexadecimal groups, read with or without one \<open>::\<close> and
  printed without it. It is not the C library's code (which is not part of the repository): it
  interprets the contract and is the instance at which the witnesses evaluate the codec.
  Characters are handled as numbers; \<open>46\<close> is the dot and \<open>58\<close> the colon.
\<close>

section \<open>Separated text\<close>

fun split_on :: "nat \<Rightarrow> nat list \<Rightarrow> nat list list" where
  "split_on s [] = [[]]"
| "split_on s (c # cs) =
     (if c = s then [] # split_on s cs
      else case split_on s cs of [] \<Rightarrow> [[c]] | p # ps \<Rightarrow> (c # p) # ps)"

fun join_on :: "nat \<Rightarrow> nat list list \<Rightarrow> nat list" where
  "join_on s [] = []"
| "join_on s [p] = p"
| "join_on s (p # q # ps) = p @ s # join_on s (q # ps)"

lemma split_on_nonempty: "split_on s cs \<noteq> []"
  by (induction cs) (auto split: list.splits)

lemma split_on_append: "s \<notin> set p \<Longrightarrow> split_on s (p @ s # cs) = p # split_on s cs"
  by (induction p) auto

lemma split_on_plain: "s \<notin> set p \<Longrightarrow> split_on s p = [p]"
  by (induction p) auto

lemma split_join:
  "ps \<noteq> [] \<Longrightarrow> \<forall>p \<in> set ps. s \<notin> set p \<Longrightarrow> split_on s (join_on s ps) = ps"
  by (induction s ps rule: join_on.induct) (auto simp: split_on_append split_on_plain)

lemma set_join: "set (join_on s ps) \<subseteq> insert s (\<Union> (set ` set ps))"
  by (induction s ps rule: join_on.induct) auto

lemma in_split: "x \<in> set cs \<Longrightarrow> x = s \<or> (\<exists>p \<in> set (split_on s cs). x \<in> set p)"
proof (induction cs)
  case (Cons c cs)
  then show ?case using split_on_nonempty [of s cs] by (auto split: list.splits)
qed simp

lemma split_single: "s \<notin> set cs \<Longrightarrow> length (split_on s cs) = 1"
  by (simp add: split_on_plain)

section \<open>IPv4\<close>

definition octet_text :: "nat \<Rightarrow> nat list" where
  "octet_text n =
     (if n < 10 then [48 + n]
      else if n < 100 then [48 + n div 10, 48 + n mod 10]
      else [48 + n div 100, 48 + n div 10 mod 10, 48 + n mod 10])"

definition octet_val :: "nat list \<Rightarrow> nat option" where
  "octet_val ds =
     (if ds \<noteq> [] \<and> length ds \<le> 3 \<and> list_all (\<lambda>d. 48 \<le> d \<and> d < 58) ds
      then let v = foldl (\<lambda>a d. 10 * a + (d - 48)) 0 ds in if v < 256 then Some v else None
      else None)"

lemma octet_val_text: "n < 256 \<Longrightarrow> octet_val (octet_text n) = Some n"
proof -
  assume "n < 256"
  moreover have "n div 10 div 10 = n div 100" using div_mult2_eq [of n 10 10] by simp
  then have "100 * (n div 100) + (10 * (n div 10 mod 10) + n mod 10) = n"
    using div_mult_mod_eq [of n 10] div_mult_mod_eq [of "n div 10" 10] by linarith
  ultimately show ?thesis by (auto simp: octet_val_def octet_text_def Let_def)
qed

lemma octet_text_digits: "n < 256 \<Longrightarrow> c \<in> set (octet_text n) \<Longrightarrow> 48 \<le> c \<and> c < 58"
  by (auto simp: octet_text_def split: if_splits)

definition v4_read :: "nat list \<Rightarrow> nat list option" where
  "v4_read cs =
     (case map octet_val (split_on 46 cs) of
        [Some a, Some b, Some c, Some d] \<Rightarrow> Some [a, b, c, d]
      | _ \<Rightarrow> None)"

definition v4_show :: "nat list \<Rightarrow> nat list" where
  "v4_show bs = join_on 46 (map octet_text bs)"

lemma v4_read_show:
  assumes "length bs = 4" "\<forall>b \<in> set bs. b < 256"
  shows "v4_read (v4_show bs) = Some bs"
proof -
  have "split_on 46 (v4_show bs) = map octet_text bs"
    unfolding v4_show_def
    by (rule split_join) (use assms octet_text_digits in fastforce)+
  moreover obtain a b c d where "bs = [a, b, c, d]"
    using assms(1) by (auto simp: numeral_eq_Suc length_Suc_conv)
  ultimately show ?thesis using assms(2) by (simp add: v4_read_def octet_val_text)
qed

lemma v4_show_chars:
  assumes "\<forall>b \<in> set bs. b < 256" "c \<in> set (v4_show bs)"
  shows "46 \<le> c \<and> c < 58"
proof -
  have "c = 46 \<or> (\<exists>b \<in> set bs. c \<in> set (octet_text b))"
    using assms(2) set_join [of 46 "map octet_text bs"] by (auto simp: v4_show_def)
  with assms(1) octet_text_digits show ?thesis by fastforce
qed

lemma v4_read_bound: "v4_read cs = Some bs \<Longrightarrow> length bs = 4 \<and> (\<forall>b \<in> set bs. b < 256)"
  by (auto simp: v4_read_def octet_val_def Let_def split: list.splits option.splits if_splits)

lemma v4_read_no_colon: "v4_read cs = Some bs \<Longrightarrow> 58 \<notin> set cs"
proof -
  assume "v4_read cs = Some bs"
  then obtain p q r t where s: "split_on 46 cs = [p, q, r, t]"
    and "octet_val p \<noteq> None" "octet_val q \<noteq> None" "octet_val r \<noteq> None" "octet_val t \<noteq> None"
    by (auto simp: v4_read_def split: list.splits option.splits)
  then have "58 \<notin> set p \<union> set q \<union> set r \<union> set t"
    by (auto simp: octet_val_def list_all_iff Let_def split: if_splits)
  then show ?thesis using in_split [of 58 cs 46] s by auto
qed

section \<open>IPv6\<close>

definition hex_digit :: "nat \<Rightarrow> nat" where
  "hex_digit n = (if n < 10 then 48 + n else 87 + n)"

definition hex_val :: "nat \<Rightarrow> nat option" where
  "hex_val c =
     (if 48 \<le> c \<and> c < 58 then Some (c - 48)
      else if 97 \<le> c \<and> c < 103 then Some (c - 87)
      else if 65 \<le> c \<and> c < 71 then Some (c - 55) else None)"

definition group_text :: "nat \<Rightarrow> nat list" where
  "group_text n =
     map hex_digit
       (if n < 16 then [n]
        else if n < 256 then [n div 16, n mod 16]
        else if n < 4096 then [n div 256, n div 16 mod 16, n mod 16]
        else [n div 4096, n div 256 mod 16, n div 16 mod 16, n mod 16])"

fun hex_fold :: "nat \<Rightarrow> nat list \<Rightarrow> nat option" where
  "hex_fold a [] = Some a"
| "hex_fold a (c # cs) =
     (case hex_val c of None \<Rightarrow> None | Some d \<Rightarrow> hex_fold (16 * a + d) cs)"

definition group_val :: "nat list \<Rightarrow> nat option" where
  "group_val cs = (if cs = [] \<or> 4 < length cs then None else hex_fold 0 cs)"

lemma hex_val_digit: "n < 16 \<Longrightarrow> hex_val (hex_digit n) = Some n"
  by (auto simp: hex_val_def hex_digit_def)

lemma hex_val_lt: "hex_val c = Some d \<Longrightarrow> d < 16"
  by (auto simp: hex_val_def split: if_splits)

lemma group_val_text:
  assumes "n < 65536"
  shows "group_val (group_text n) = Some n"
proof -
  have e: "n div 16 div 16 = n div 256" "n div 256 div 16 = n div 4096"
    using div_mult2_eq [of n 16 16] div_mult2_eq [of n 256 16] by simp_all
  have "16 * (n div 16) + n mod 16 = n" "16 * (n div 256) + n div 16 mod 16 = n div 16"
    "16 * (n div 4096) + n div 256 mod 16 = n div 256"
    using div_mult_mod_eq [of n 16] div_mult_mod_eq [of "n div 16" 16]
      div_mult_mod_eq [of "n div 256" 16] by (simp_all add: e mult.commute)
  with assms show ?thesis by (simp add: group_val_def group_text_def hex_val_digit)
qed

lemma group_text_chars: "n < 65536 \<Longrightarrow> c \<in> set (group_text n) \<Longrightarrow> 48 \<le> c \<and> c < 128 \<and> c \<noteq> 58"
proof -
  assume n: "n < 65536" and c: "c \<in> set (group_text n)"
  have "48 \<le> hex_digit d \<and> hex_digit d < 128 \<and> hex_digit d \<noteq> 58" if "d < 16" for d
    using that by (auto simp: hex_digit_def)
  with n c show ?thesis by (auto simp: group_text_def split: if_splits)
qed

lemma hex_fold_lt: "hex_fold a cs = Some v \<Longrightarrow> a < 16 ^ k \<Longrightarrow> v < 16 ^ (k + length cs)"
proof (induction a cs arbitrary: k rule: hex_fold.induct)
  case (2 a c cs)
  then obtain d where d: "hex_val c = Some d" "hex_fold (16 * a + d) cs = Some v"
    by (auto split: option.splits)
  have "16 * a + d < 16 ^ Suc k" using 2(3) hex_val_lt [OF d(1)] by simp
  from "2.IH" [OF d(1) d(2) this] show ?case by simp
qed simp

lemma group_val_lt: "group_val cs = Some v \<Longrightarrow> v < 65536"
proof -
  assume g: "group_val cs = Some v"
  then have "v < 16 ^ length cs" and "length cs \<le> 4"
    using hex_fold_lt [of 0 cs v 0] by (auto simp: group_val_def split: if_splits)
  moreover have "(16 :: nat) ^ length cs \<le> 16 ^ 4" using \<open>length cs \<le> 4\<close> by (rule power_increasing) simp
  ultimately show ?thesis by simp
qed

fun all_some :: "'a option list \<Rightarrow> 'a list option" where
  "all_some [] = Some []"
| "all_some (x # xs) =
     (case x of None \<Rightarrow> None | Some v \<Rightarrow> map_option (\<lambda>r. v # r) (all_some xs))"

lemma all_some_map: "all_some (map f xs) = Some ys \<longleftrightarrow> map f xs = map Some ys"
  by (induction xs arbitrary: ys) (auto split: option.splits)

text \<open>The text before and after the first double colon.\<close>

fun cut_colons :: "nat list \<Rightarrow> (nat list \<times> nat list) option" where
  "cut_colons (a # b # r) =
     (if a = 58 \<and> b = 58 then Some ([], r)
      else map_option (\<lambda>(l, r'). (a # l, r')) (cut_colons (b # r)))"
| "cut_colons _ = None"

definition v6_groups :: "nat list \<Rightarrow> nat list option" where
  "v6_groups cs = (if cs = [] then Some [] else all_some (map group_val (split_on 58 cs)))"

definition v6_read_groups :: "nat list \<Rightarrow> nat list option" where
  "v6_read_groups cs =
     (case v6_groups cs of
        Some gs \<Rightarrow> if length gs = 8 then Some gs else None
      | None \<Rightarrow>
          (case cut_colons cs of
             None \<Rightarrow> None
           | Some (l, r) \<Rightarrow>
               (case (v6_groups l, v6_groups r) of
                  (Some gl, Some gr) \<Rightarrow>
                    (if length gl + length gr \<le> 7
                     then Some (gl @ replicate (8 - (length gl + length gr)) 0 @ gr)
                     else None)
                | _ \<Rightarrow> None)))"

fun bytes_of_groups :: "nat list \<Rightarrow> nat list" where
  "bytes_of_groups [] = []"
| "bytes_of_groups (g # gs) = g div 256 # g mod 256 # bytes_of_groups gs"

fun groups_of_bytes :: "nat list \<Rightarrow> nat list" where
  "groups_of_bytes (a # b # r) = (a * 256 + b) # groups_of_bytes r"
| "groups_of_bytes _ = []"

definition v6_read :: "nat list \<Rightarrow> nat list option" where
  "v6_read cs = map_option bytes_of_groups (v6_read_groups cs)"

definition v6_show :: "nat list \<Rightarrow> nat list" where
  "v6_show bs = join_on 58 (map group_text (groups_of_bytes bs))"

lemma groups_of_bytes_bytes:
  "even (length bs) \<Longrightarrow> \<forall>b \<in> set bs. b < 256 \<Longrightarrow> bytes_of_groups (groups_of_bytes bs) = bs"
  by (induction bs rule: groups_of_bytes.induct) auto

lemma length_groups: "length (groups_of_bytes bs) = length bs div 2"
  by (induction bs rule: groups_of_bytes.induct) auto

lemma groups_lt: "\<forall>b \<in> set bs. b < 256 \<Longrightarrow> g \<in> set (groups_of_bytes bs) \<Longrightarrow> g < 65536"
  by (induction bs rule: groups_of_bytes.induct) auto

lemma length_bytes_of_groups: "length (bytes_of_groups gs) = 2 * length gs"
  by (induction gs) auto

lemma v6_groups_lt: "v6_groups cs = Some gs \<Longrightarrow> g \<in> set gs \<Longrightarrow> g < 65536"
proof -
  assume "v6_groups cs = Some gs" "g \<in> set gs"
  then have "map group_val (split_on 58 cs) = map Some gs \<or> gs = []"
    by (auto simp: v6_groups_def all_some_map split: if_splits)
  with \<open>g \<in> set gs\<close> have "Some g \<in> set (map group_val (split_on 58 cs))"
    by (metis (no_types) empty_iff image_eqI list.set(1) list.set_map)
  then show ?thesis using group_val_lt by auto
qed

lemma bytes_of_groups_lt: "\<forall>g \<in> set gs. g < 65536 \<Longrightarrow> b \<in> set (bytes_of_groups gs) \<Longrightarrow> b < 256"
  by (induction gs) auto

lemma v6_read_bound:
  assumes "v6_read cs = Some bs"
  shows "length bs = 16 \<and> (\<forall>b \<in> set bs. b < 256)"
proof -
  obtain gs where gs: "v6_read_groups cs = Some gs" and bs: "bs = bytes_of_groups gs"
    using assms by (auto simp: v6_read_def)
  have "length gs = 8 \<and> (\<forall>g \<in> set gs. g < 65536)"
    using gs v6_groups_lt by (fastforce simp: v6_read_groups_def split: option.splits if_splits)
  then show ?thesis using bytes_of_groups_lt [of gs] by (auto simp: bs length_bytes_of_groups)
qed

lemma v6_read_show:
  assumes "length bs = 16" "\<forall>b \<in> set bs. b < 256"
  shows "v6_read (v6_show bs) = Some bs"
proof -
  let ?gs = "groups_of_bytes bs"
  have lt: "\<forall>g \<in> set ?gs. g < 65536" using groups_lt assms(2) by blast
  have l: "length ?gs = 8" using assms(1) by (simp add: length_groups)
  then have ne: "map group_text ?gs \<noteq> []" by auto
  have s: "split_on 58 (v6_show bs) = map group_text ?gs"
    unfolding v6_show_def
    by (rule split_join [OF ne]) (use group_text_chars lt in fastforce)
  have "v6_show bs \<noteq> []" using s l by auto
  moreover have "map (group_val \<circ> group_text) ?gs = map Some ?gs"
    using lt by (simp add: group_val_text)
  ultimately have "v6_groups (v6_show bs) = Some ?gs"
    by (simp add: v6_groups_def s all_some_map)
  then have "v6_read_groups (v6_show bs) = Some ?gs" using l by (simp add: v6_read_groups_def)
  then show ?thesis using assms by (simp add: v6_read_def groups_of_bytes_bytes)
qed

lemma v6_show_chars:
  assumes "\<forall>b \<in> set bs. b < 256" "c \<in> set (v6_show bs)"
  shows "48 \<le> c \<and> c < 128"
proof -
  have "c = 58 \<or> (\<exists>g \<in> set (groups_of_bytes bs). c \<in> set (group_text g))"
    using assms(2) set_join [of 58 "map group_text (groups_of_bytes bs)"]
    by (auto simp: v6_show_def)
  then show ?thesis
  proof
    assume "\<exists>g \<in> set (groups_of_bytes bs). c \<in> set (group_text g)"
    then show ?thesis using groups_lt [OF assms(1)] group_text_chars by blast
  qed simp
qed

lemma cut_colons_colon: "cut_colons cs = Some p \<Longrightarrow> 58 \<in> set cs"
  by (induction cs arbitrary: p rule: cut_colons.induct) (auto split: if_splits)

lemma v6_read_colon: "v6_read cs = Some bs \<Longrightarrow> 58 \<in> set cs"
proof (rule ccontr)
  assume r: "v6_read cs = Some bs" and n: "58 \<notin> set cs"
  then have "cut_colons cs = None" using cut_colons_colon by (cases "cut_colons cs") auto
  with r obtain gs where "v6_groups cs = Some gs" "length gs = 8"
    by (auto simp: v6_read_def v6_read_groups_def split: option.splits if_splits)
  moreover have "length gs \<le> 1" if "v6_groups cs = Some gs" for gs
    using that split_single [OF n]
    by (auto simp: v6_groups_def all_some_map split: if_splits dest: arg_cong [of _ _ length])
  ultimately show False by fastforce
qed

section \<open>The instance\<close>

definition text_inet :: inet_api where
  "text_inet =
     \<lparr>pton4 = (\<lambda>s. map_option (map word_of_nat) (v4_read (map unat s))),
      ntop4 = (\<lambda>b. if length b = 4 then Some (map word_of_nat (v4_show (map unat b))) else None),
      pton6 = (\<lambda>s. map_option (map word_of_nat) (v6_read (map unat s))),
      ntop6 = (\<lambda>b. if length b = 16 then Some (map word_of_nat (v6_show (map unat b))) else None)\<rparr>"

lemma map_unat_of_nat: "\<forall>c \<in> set cs. c < 256 \<Longrightarrow> map unat (map word_of_nat cs :: bytes) = cs"
  by (induction cs) (simp_all add: unat_of_nat_byte)

lemma c_text_of_nat:
  assumes "\<forall>c \<in> set cs. 0 < c \<and> c < 128"
  shows "c_text (map word_of_nat cs)"
proof -
  have u: "unat (word_of_nat c :: byte) = c" if "c \<in> set cs" for c
    using assms that by (intro unat_of_nat_byte) auto
  have "(word_of_nat c :: byte) \<noteq> 0" if "c \<in> set cs" for c
    using u [OF that] assms that by auto
  then show ?thesis
    using u assms by (auto simp: c_text_def ascii_bytes_def list_all_iff simp del: unat_of_nat)
qed

interpretation text_inet: posix_inet text_inet
proof unfold_locales
  fix s b assume "pton4 text_inet s = Some b"
  then show "length b = 4" by (auto simp: text_inet_def dest: v4_read_bound)
next
  fix s b assume "pton6 text_inet s = Some b"
  then show "length b = 16" by (auto simp: text_inet_def dest: v6_read_bound)
next
  fix b :: bytes and s assume b: "length b = 4" and s: "ntop4 text_inet b = Some s"
  have lt: "\<forall>c \<in> set (map unat b). c < 256" by auto
  have s': "s = map word_of_nat (v4_show (map unat b))" using b s by (simp add: text_inet_def)
  have ch: "\<forall>c \<in> set (v4_show (map unat b)). 46 \<le> c \<and> c < 58" using v4_show_chars [OF lt] by blast
  then have "map unat s = v4_show (map unat b)"
    unfolding s' by (intro map_unat_of_nat) auto
  then show "pton4 text_inet s = Some b"
    using b lt by (simp add: text_inet_def v4_read_show comp_def)
  show "c_text s" unfolding s' by (rule c_text_of_nat) (use ch in auto)
next
  fix b :: bytes and s assume b: "length b = 16" and s: "ntop6 text_inet b = Some s"
  have lt: "\<forall>c \<in> set (map unat b). c < 256" by auto
  have s': "s = map word_of_nat (v6_show (map unat b))" using b s by (simp add: text_inet_def)
  have ch: "\<forall>c \<in> set (v6_show (map unat b)). 48 \<le> c \<and> c < 128" using v6_show_chars [OF lt] by blast
  then have "map unat s = v6_show (map unat b)"
    unfolding s' by (intro map_unat_of_nat) auto
  then show "pton6 text_inet s = Some b"
    using b lt by (simp add: text_inet_def v6_read_show comp_def)
  show "c_text s" unfolding s' by (rule c_text_of_nat) (use ch in auto)
next
  fix s b assume "pton6 text_inet s = Some b"
  then have "58 \<in> set (map unat s)" by (auto simp: text_inet_def dest: v6_read_colon)
  then have "v4_read (map unat s) = None"
    using v4_read_no_colon [of "map unat s"] by (cases "v4_read (map unat s)") auto
  then show "pton4 text_inet s = None" by (simp add: text_inet_def)
next
  show "pton4 text_inet any_v4 = Some [0, 0, 0, 0]" by code_simp
  show "ntop4 text_inet [0, 0, 0, 0] = Some any_v4" by code_simp
qed (simp_all add: text_inet_def)

end
