(* ===== verification/ClientSessionProps.thy ===== *)
theory ClientSessionProps
  imports ClientSessionFacts InetText
begin

text \<open>
  The properties of the client session: what it returns, what it consumes, that chunk
  boundaries do not matter, how it fails and how long it can wait.
\<close>

section \<open>A complete handshake\<close>

text \<open>The optimistic session reads back what a server sent: fed the method selection, the
  auth reply where credentials were given, a reply the codec built and any tunnel bytes, it
  returns that reply's code, host and port, and keeps exactly the tunnel bytes as
  \<^verbatim>\<open>leftover\<close>.\<close>

theorem session_reads_reply:
  assumes "posix_inet I"
    and "session_init user pass = Inr s"
    and "py_reply I rep host port = Inr w"
  shows "\<exists>t. feed I s (accept_bytes (user \<noteq> None) @ w @ tunnel) =
      (Inr (Some \<lparr>r_rep = rep, r_host = seen_host I host, r_port = port\<rparr>), t) \<and>
    leftover t = tunnel"
  using assms by (rule session_reads)

theorem session_reads_reply_witness:
  "\<exists>s w t. session_init None None = Inr s \<and>
     py_reply text_inet 0 (py_lit ''9.9.9.9'') 53 = Inr w \<and>
     feed text_inet s (accept_bytes False @ w @ [1, 2, 3]) =
       (Inr (Some \<lparr>r_rep = 0, r_host = seen_host text_inet (py_lit ''9.9.9.9''), r_port = 53\<rparr>), t) \<and>
     leftover t = [1, 2, 3]"
proof -
  obtain s where s: "session_init None None = Inr s" by (simp add: session_init_def)
  have w: "py_reply text_inet 0 (py_lit ''9.9.9.9'') 53 = Inr [5, 0, 0, 1, 9, 9, 9, 9, 0, 53]"
    by code_simp
  show ?thesis
    using session_reads_reply [OF text_inet.posix_inet_axioms s w, of "[1, 2, 3]"] s w by auto
qed

section \<open>Chunk boundaries\<close>

text \<open>C9. Chunk boundaries do not matter: however a stream is cut into chunks, the feeding loop
  ends as one \<^verbatim>\<open>feed\<close> of the whole stream does, with the same reply, the same wish for more
  bytes or the same exception; and the bytes left over, followed by the unread chunks, are the
  leftover of the single feed.\<close>

theorem session_chunking:
  assumes "session_init user pass = Inr s" and "cs \<noteq> []"
    and "feed_all I s cs = (r, s', rest)"
  shows "feed I s (concat cs) = (r, s'\<lparr>ss_buf := ss_buf s' @ concat rest\<rparr>)"
  using assms by (rule feed_all_concat)

theorem session_chunking_witness:
  "\<exists>s r s' rest. session_init None None = Inr s \<and>
     feed_all text_inet s [[5], [0, 5, 0, 0], [1, 1, 2, 3, 4, 0, 80, 7], [8, 9]] = (r, s', rest) \<and>
     feed text_inet s [5, 0, 5, 0, 0, 1, 1, 2, 3, 4, 0, 80, 7, 8, 9] =
       (r, s'\<lparr>ss_buf := ss_buf s' @ concat rest\<rparr>)"
proof -
  obtain s where s: "session_init None None = Inr s" by (simp add: session_init_def)
  obtain r s' rest where
    f: "feed_all text_inet s [[5], [0, 5, 0, 0], [1, 1, 2, 3, 4, 0, 80, 7], [8, 9]] = (r, s', rest)"
    by (metis prod_cases3)
  show ?thesis using session_chunking [OF s _ f] s f by auto
qed

section \<open>What is consumed\<close>

text \<open>C20. No byte is lost, invented or read twice: when a fresh session returns a reply, the bytes
  it was fed are the expected method selection (and auth reply), then exactly one reply
  message, the one that was parsed, then the leftover.\<close>

theorem session_consumes_exactly:
  assumes "session_init user pass = Inr s" and "feed I s data = (Inr (Some v), t)"
  shows "\<exists>w p. data = accept_bytes (user \<noteq> None) @ w @ leftover t \<and>
    reply_size w = Some (length w) \<and> py_parse_reply I w = Inr (Some p) \<and> v = mk_reply p"
  using assms by (rule fresh_feed_consumes)

theorem session_consumes_exactly_witness:
  "\<exists>s v t w p. session_init None None = Inr s \<and>
     feed text_inet s [5, 0, 5, 0, 0, 1, 1, 2, 3, 4, 0, 80, 99] = (Inr (Some v), t) \<and>
     [5, 0, 5, 0, 0, 1, 1, 2, 3, 4, 0, 80, 99] = accept_bytes False @ w @ leftover t \<and>
     py_parse_reply text_inet w = Inr (Some p) \<and> v = mk_reply p"
proof -
  obtain s where s: "session_init None None = Inr s" by (simp add: session_init_def)
  have w: "py_reply text_inet 0 (py_lit ''1.2.3.4'') 80 = Inr [5, 0, 0, 1, 1, 2, 3, 4, 0, 80]"
    by code_simp
  have b: "py_parse_reply text_inet [5, 0, 0, 1, 1, 2, 3, 4, 0, 80] =
      Inr (Some (0, seen_host text_inet (py_lit ''1.2.3.4''), 80))"
    using py_reply_built(1) [OF text_inet.posix_inet_axioms w, of "[]"] by simp
  let ?q = "s\<lparr>ss_buf := [5, 0, 0, 1, 1, 2, 3, 4, 0, 80, 99], ss_state := SReply\<rparr>"
  have "message_len (ss_buf ?q) = Some 10" by (simp add: message_len_def addr_size_def)
  from turn_reply [OF _ this, of text_inet] b obtain v t where
    "session_loop text_inet ?q = (Inr (Some v), t)"
    by (fastforce dest: loop_stop)
  moreover have "feed text_inet s [5, 0, 5, 0, 0, 1, 1, 2, 3, 4, 0, 80, 99] = session_loop text_inet ?q"
    using loop_accept [of "s\<lparr>ss_buf := [5, 0, 5, 0, 0, 1, 1, 2, 3, 4, 0, 80, 99]\<rparr>"
        "[5, 0, 0, 1, 1, 2, 3, 4, 0, 80, 99]" text_inet] session_init_state [OF s]
    by (simp add: feed_def accept_bytes_def)
  ultimately have f: "feed text_inet s [5, 0, 5, 0, 0, 1, 1, 2, 3, 4, 0, 80, 99] = (Inr (Some v), t)"
    by simp
  from session_consumes_exactly [OF s f] s f show ?thesis by auto
qed

text \<open>\<^verbatim>\<open>reply_size\<close> is exact: where it gives a length and that many bytes with the right
  version are there, the reply parser accepts just that prefix and no shorter one.\<close>

theorem reply_size_exact:
  assumes "posix_inet I" "reply_size buf = Some n" "n \<le> length buf" "buf ! 0 = 5"
  shows "parse_reply I (take n buf) \<noteq> None \<and> (\<forall>k < n. parse_reply I (take k buf) = None)"
proof (intro conjI allI impI)
  have m: "message_len buf = Some n" using assms(2) by (simp add: reply_size_len)
  show "parse_reply I (take n buf) \<noteq> None"
    using parse_reply_total [OF assms(1), of "take n buf" n] assms m message_len_min [OF m]
    by (simp add: message_len_take)
  fix k assume k: "k < n"
  show "parse_reply I (take k buf) = None"
  proof (rule ccontr)
    assume "parse_reply I (take k buf) \<noteq> None"
    then obtain j where j: "message_len (take k buf) = Some j" "j \<le> k"
      using parse_reply_len [of I "take k buf"] by auto
    from message_len_extends [OF j(1), of "drop k buf"] m have "j = n" by simp
    with j k show False by simp
  qed
qed

theorem reply_size_exact_witness:
  "parse_reply text_inet (take 10 [5, 0, 0, 1, 1, 2, 3, 4, 0, 80, 99]) \<noteq> None \<and>
   parse_reply text_inet (take 9 [5, 0, 0, 1, 1, 2, 3, 4, 0, 80, 99]) = None"
proof -
  have r: "reply_size [5, 0, 0, 1, 1, 2, 3, 4, 0, 80, 99] = Some 10" by (simp add: reply_size_def)
  have n: "(10 :: nat) \<le> length [5, 0, 0, 1, 1, 2, 3, 4, 0, 80, 99 :: byte]"
    "[5, 0, 0, 1, 1, 2, 3, 4, 0, 80, 99 :: byte] ! 0 = 5"
    by simp_all
  note t = reply_size_exact [OF text_inet.posix_inet_axioms r n]
  show ?thesis by (rule conjI, rule t [THEN conjunct1], rule t [THEN conjunct2, rule_format]) simp
qed

section \<open>Completion\<close>

text \<open>Once a reply has been returned the session is inert: feeding it any further bytes
  returns the same reply and changes nothing, so tunnel bytes are never consumed.\<close>

theorem session_done_idempotent:
  assumes "session_init user pass = Inr s" and "feed I s data = (Inr (Some v), t)"
  shows "feed I t extra = (Inr (Some v), t)"
proof -
  have ok: "sess_ok t"
    using feed_ok [OF session_init_ok [OF assms(1)] assms(2)] .
  have l: "session_loop I (s\<lparr>ss_buf := data\<rparr>) = (Inr (Some v), t)"
    using assms session_init_state [OF assms(1)] by (simp add: feed_def)
  then have d: "ss_state t = SDone"
    using loop_consumes [OF l] session_init_state [OF assms(1)] by simp
  have "ss_reply t = Some v" using loop_reply [OF l] session_init_state [OF assms(1)] by simp
  then show ?thesis using d by (simp add: feed_def loop_stop session_turn_def)
qed

theorem session_done_idempotent_witness:
  "\<exists>s v t. session_init None None = Inr s \<and>
     feed text_inet s (accept_bytes False @ [5, 0, 0, 1, 9, 9, 9, 9, 0, 53]) = (Inr (Some v), t) \<and>
     feed text_inet t [84, 85, 78] = (Inr (Some v), t)"
proof -
  obtain s where s: "session_init None None = Inr s" by (simp add: session_init_def)
  have w: "py_reply text_inet 0 (py_lit ''9.9.9.9'') 53 = Inr [5, 0, 0, 1, 9, 9, 9, 9, 0, 53]"
    by code_simp
  let ?q = "s\<lparr>ss_buf := [5, 0, 0, 1, 9, 9, 9, 9, 0, 53], ss_state := SReply\<rparr>"
  have "message_len (ss_buf ?q) = Some 10" by (simp add: message_len_def addr_size_def)
  from turn_reply [OF _ this] py_reply_built(1) [OF text_inet.posix_inet_axioms w, of "[]"]
  obtain v t where "session_loop text_inet ?q = (Inr (Some v), t)" by (fastforce dest: loop_stop)
  then have f: "feed text_inet s (accept_bytes False @ [5, 0, 0, 1, 9, 9, 9, 9, 0, 53]) = (Inr (Some v), t)"
    using loop_accept [of "s\<lparr>ss_buf := accept_bytes False @ [5, 0, 0, 1, 9, 9, 9, 9, 0, 53]\<rparr>"]
      session_init_state [OF s] by (simp add: feed_def)
  from session_done_idempotent [OF s f] s f show ?thesis by blast
qed

section \<open>Errors\<close>

text \<open>The only exceptions out of \<^verbatim>\<open>feed\<close> are \<^verbatim>\<open>Socks5Error\<close> and, for a host that is not
  UTF-8, \<^verbatim>\<open>UnicodeDecodeError\<close>; and an error is final: whatever is fed afterwards, the same
  exception is raised again.\<close>

theorem session_errors_sticky:
  assumes "feed I s data = (Inl e, t)"
  shows "(is_socks5_error e \<or> e = UnicodeDecodeErr) \<and> (\<exists>t'. feed I t extra = (Inl e, t'))"
proof -
  let ?s = "if ss_state s \<noteq> SDone then s\<lparr>ss_buf := ss_buf s @ data\<rparr> else s"
  have "session_loop I ?s = (Inl e, t)" using assms by (simp add: feed_def)
  note r = loop_raises [OF this]
  have "session_loop I (sess_push t extra) = (Inl e, sess_push t extra)"
    using loop_decided r by blast
  with r show ?thesis by (auto simp: feed_def sess_push_def)
qed

theorem session_errors_sticky_witness:
  "\<exists>s t t'. session_init None None = Inr s \<and>
     feed text_inet s [5, 255] = (Inl (Socks5Err
       ''proxy rejected all offered methods (NO ACCEPTABLE METHODS)''), t) \<and>
     feed text_inet t [1, 2, 3] = (Inl (Socks5Err
       ''proxy rejected all offered methods (NO ACCEPTABLE METHODS)''), t')"
proof -
  obtain s where s: "session_init None None = Inr s" by (simp add: session_init_def)
  let ?t = "s\<lparr>ss_buf := [5, 255]\<rparr>"
  have f: "feed text_inet s [5, 255] = (Inl (Socks5Err
       ''proxy rejected all offered methods (NO ACCEPTABLE METHODS)''), ?t)"
    using session_init_state [OF s]
    by (simp add: feed_def session_loop.simps [of _ ?t] session_turn_def session_method_def
        py_parse_method_selection_def parse_method_selection_def)
  from session_errors_sticky [OF f, of "[1, 2, 3]"] s f show ?thesis by blast
qed

text \<open>A proxy whose reply carries a host that is not UTF-8 makes \<^verbatim>\<open>feed\<close> raise
  \<^verbatim>\<open>UnicodeDecodeError\<close>, neither a \<^verbatim>\<open>Socks5Error\<close> nor an \<^verbatim>\<open>OSError\<close>, although the reply is
  complete and well-formed on the wire: the C++ parser accepts it.\<close>

theorem session_unicode_raise:
  "\<exists>s t. session_init None None = Inr s \<and>
     feed I s [5, 0, 5, 0, 0, 3, 1, 255, 0, 80] = (Inl UnicodeDecodeErr, t) \<and>
     \<not> is_socks5_error UnicodeDecodeErr \<and> \<not> is_os_error UnicodeDecodeErr \<and>
     parse_reply I [5, 0, 0, 3, 1, 255, 0, 80] = Some (0, \<lparr>a_host = [255], a_port = 80\<rparr>)"
proof -
  obtain s where s: "session_init None None = Inr s" by (simp add: session_init_def)
  let ?q = "s\<lparr>ss_buf := [5, 0, 0, 3, 1, 255, 0, 80], ss_state := SReply\<rparr>"
  have p: "parse_reply I [5, 0, 0, 3, 1, 255, 0, 80] = Some (0, \<lparr>a_host = [255], a_port = 80\<rparr>)"
    by (simp add: parse_reply_def decode_address_def decode_port_def port_at_def)
  have u: "utf8_decode [255] = None" by code_simp
  have "session_turn I ?q = Stop (Inl UnicodeDecodeErr) ?q"
    by (simp add: session_turn_def reply_size_def py_parse_reply_def p build_message_def
        py_str_result_def u)
  then have "session_loop I ?q = (Inl UnicodeDecodeErr, ?q)" by (rule loop_stop)
  then have "feed I s [5, 0, 5, 0, 0, 3, 1, 255, 0, 80] = (Inl UnicodeDecodeErr, ?q)"
    using loop_accept [of "s\<lparr>ss_buf := [5, 0, 5, 0, 0, 3, 1, 255, 0, 80]\<rparr>"
        "[5, 0, 0, 3, 1, 255, 0, 80]" I] session_init_state [OF s]
    by (simp add: feed_def accept_bytes_def)
  with s p show ?thesis by auto
qed

section \<open>Waiting is bounded\<close>

text \<open>A session never waits for ever: after 266 bytes, in whatever chunks, the feeding loop has
  returned a reply or raised.\<close>

theorem session_decides:
  assumes "session_init user pass = Inr s" and "266 \<le> length (concat cs)"
  shows "fst (feed_all I s cs) \<noteq> Inr None"
proof
  assume "fst (feed_all I s cs) = Inr None"
  then obtain s' rest where f: "feed_all I s cs = (Inr None, s', rest)" by (metis fst_conv surj_pair)
  have "cs \<noteq> []" using assms(2) by auto
  from fresh_feed_waits [OF assms(1) feed_all_concat [OF assms(1) this f]] assms(2) show False by simp
qed

theorem session_decides_witness:
  "\<exists>s. session_init None None = Inr s \<and>
     fst (feed_all text_inet s [replicate 200 5, replicate 66 0]) \<noteq> Inr None"
proof -
  obtain s where s: "session_init None None = Inr s" by (simp add: session_init_def)
  then show ?thesis
    using session_decides [OF s, of "[replicate 200 5, replicate 66 0]"] by auto
qed

end
