(* ===== verification/ServerSession.thy ===== *)
theory ServerSession
  imports Binding Chunks
begin

text \<open>
  \<^verbatim>\<open>optisocks5/server/events.py\<close> and \<^verbatim>\<open>optisocks5/server/session.py\<close>: the sans-IO server
  state machine. \<open>next_event\<close> returns an event or the exception that a codec call raised, with
  the state as it is then; the decision methods that hooks and drivers call between two events
  are state updates. The type variables stand for the context and for the relay functions that
  user code hands to the session, which the session only stores.
\<close>

section \<open>Events\<close>

datatype event =
    Send bytes
  | NeedData
  | Authorize "pystr option" "pystr option"
  | Connect int pystr int
  | Relay pystr int
  | Close string

section \<open>State\<close>

datatype sv_phase = PGreeting | PAuth | PAuthWait | PRequest | PConnectWait | PRelay | PClosed

text \<open>The phases in the order in which a session goes through them.\<close>

fun phase_no :: "sv_phase \<Rightarrow> nat" where
  "phase_no PGreeting = 0"
| "phase_no PAuth = 1"
| "phase_no PAuthWait = 2"
| "phase_no PRequest = 3"
| "phase_no PConnectWait = 4"
| "phase_no PRelay = 5"
| "phase_no PClosed = 6"

lemma phase_no_inj: "phase_no p = phase_no q \<longleftrightarrow> p = q"
  by (cases p; cases q) simp_all

lemma phase_no_max: "phase_no p \<le> 6"
  by (cases p) simp_all

instantiation sv_phase :: linorder
begin

definition less_eq_sv_phase :: "sv_phase \<Rightarrow> sv_phase \<Rightarrow> bool" where
  "less_eq_sv_phase p q \<longleftrightarrow> phase_no p \<le> phase_no q"

definition less_sv_phase :: "sv_phase \<Rightarrow> sv_phase \<Rightarrow> bool" where
  "less_sv_phase p q \<longleftrightarrow> phase_no p < phase_no q"

instance
  by standard (auto simp: less_eq_sv_phase_def less_sv_phase_def phase_no_inj)

end

record ('c, 'p) server_session =
  sv_require_auth :: bool
  sv_buf :: bytes
  sv_state :: sv_phase
  sv_out :: "event list"
  sv_ctx :: "'c option"
  sv_cmd :: int
  sv_target :: "(pystr \<times> int) option"
  sv_custom_pipe :: "'p option"
  sv_intercept :: bool
  sv_rejected :: bool
  sv_rep :: int
  sv_connected_bnd :: "(pystr \<times> int) option"
  sv_connect_failed :: bool
  sv_relay_raw :: bool

definition server_init :: "bool \<Rightarrow> ('c, 'p) server_session" where
  "server_init require_auth =
     \<lparr>sv_require_auth = require_auth, sv_buf = [], sv_state = PGreeting, sv_out = [],
      sv_ctx = None, sv_cmd = 0, sv_target = None, sv_custom_pipe = None, sv_intercept = False,
      sv_rejected = False, sv_rep = rep_value GENERAL_FAILURE, sv_connected_bnd = None,
      sv_connect_failed = False, sv_relay_raw = False\<rparr>"

definition receive :: "('c, 'p) server_session \<Rightarrow> bytes \<Rightarrow> ('c, 'p) server_session" where
  "receive s data = s\<lparr>sv_buf := sv_buf s @ data\<rparr>"

section \<open>Decisions\<close>

definition sv_ok :: "'c option \<Rightarrow> ('c, 'p) server_session \<Rightarrow> ('c, 'p) server_session" where
  "sv_ok c s = s\<lparr>sv_ctx := c, sv_rejected := False\<rparr>"

definition sv_reject :: "int \<Rightarrow> ('c, 'p) server_session \<Rightarrow> ('c, 'p) server_session" where
  "sv_reject rep s = s\<lparr>sv_rejected := True, sv_rep := rep\<rparr>"

definition sv_set_target :: "pystr \<Rightarrow> int \<Rightarrow> ('c, 'p) server_session \<Rightarrow> ('c, 'p) server_session" where
  "sv_set_target host port s = s\<lparr>sv_target := Some (host, port)\<rparr>"

definition sv_pipe :: "'p option \<Rightarrow> ('c, 'p) server_session \<Rightarrow> ('c, 'p) server_session" where
  "sv_pipe fn s = s\<lparr>sv_custom_pipe := fn\<rparr>"

definition sv_set_relay_raw :: "('c, 'p) server_session \<Rightarrow> ('c, 'p) server_session" where
  "sv_set_relay_raw s = s\<lparr>sv_relay_raw := True\<rparr>"

definition sv_set_intercept :: "'p option \<Rightarrow> ('c, 'p) server_session \<Rightarrow> ('c, 'p) server_session" where
  "sv_set_intercept fn s = s\<lparr>sv_custom_pipe := fn, sv_intercept := True\<rparr>"

definition sv_connected :: "pystr \<Rightarrow> int \<Rightarrow> ('c, 'p) server_session \<Rightarrow> ('c, 'p) server_session" where
  "sv_connected bnd_host bnd_port s = s\<lparr>sv_connected_bnd := Some (bnd_host, bnd_port)\<rparr>"

definition sv_set_connect_failed :: "int \<Rightarrow> ('c, 'p) server_session \<Rightarrow> ('c, 'p) server_session" where
  "sv_set_connect_failed rep s = s\<lparr>sv_connect_failed := True, sv_rep := rep\<rparr>"

text \<open>One call of the decision API, as a value.\<close>

datatype ('c, 'p) decision =
    DOk "'c option"
  | DReject int
  | DSetTarget pystr int
  | DPipe "'p option"
  | DRelayRaw
  | DIntercept "'p option"
  | DConnected pystr int
  | DConnectFailed int

fun decide :: "('c, 'p) decision \<Rightarrow> ('c, 'p) server_session \<Rightarrow> ('c, 'p) server_session" where
  "decide (DOk c) = sv_ok c"
| "decide (DReject rep) = sv_reject rep"
| "decide (DSetTarget host port) = sv_set_target host port"
| "decide (DPipe fn) = sv_pipe fn"
| "decide DRelayRaw = sv_set_relay_raw"
| "decide (DIntercept fn) = sv_set_intercept fn"
| "decide (DConnected host port) = sv_connected host port"
| "decide (DConnectFailed rep) = sv_set_connect_failed rep"

section \<open>One step\<close>

definition request_len :: "bytes \<Rightarrow> nat option" where
  "request_len buf =
     (if length buf < 4 then None
      else let atyp = buf ! 3
           in if atyp = 0x01 then Some (4 + 4 + 2)
              else if atyp = 0x04 then Some (4 + 16 + 2)
              else if atyp = 0x03 then
                (if length buf < 5 then None else Some (4 + 1 + unat (buf ! 4) + 2))
              else None)"

type_synonym ('c, 'p) sv_result = "(py_exn + event) \<times> ('c, 'p) server_session"

text \<open>\<^verbatim>\<open>_emit\<close>: queue the events and return the first of the queue.\<close>

definition emit :: "event list \<Rightarrow> ('c, 'p) server_session \<Rightarrow> ('c, 'p) sv_result" where
  "emit evs s =
     (case sv_out s @ evs of
        [] \<Rightarrow> (Inl IndexErr, s\<lparr>sv_out := []\<rparr>)
      | e # es \<Rightarrow> (Inr e, s\<lparr>sv_out := es\<rparr>))"

text \<open>
  \<^verbatim>\<open>_emit(Send(built), ...)\<close>: the message is built before anything is queued, so a builder
  that raises leaves the queue alone.
\<close>

definition emit_send ::
  "py_exn + bytes \<Rightarrow> event list \<Rightarrow> ('c, 'p) server_session \<Rightarrow> ('c, 'p) sv_result" where
  "emit_send built evs s =
     (case built of
        Inl e \<Rightarrow> (Inl e, s)
      | Inr data \<Rightarrow> emit (Send data # evs) s)"

definition step_greeting :: "('c, 'p) server_session \<Rightarrow> ('c, 'p) sv_result" where
  "step_greeting s =
     (let buf = sv_buf s in
      if buf \<noteq> [] \<and> buf ! 0 \<noteq> 0x05
      then emit [Close ''not a SOCKS5 greeting (bad version)''] (s\<lparr>sv_state := PClosed\<rparr>)
      else (case py_parse_greeting buf of
              None \<Rightarrow>
                if length buf > 2 + 255
                then emit [Close ''greeting too large''] (s\<lparr>sv_state := PClosed\<rparr>)
                else (Inr NeedData, s)
            | Some methods \<Rightarrow>
                let s = s\<lparr>sv_buf := drop (2 + unat (buf ! 1)) buf\<rparr> in
                if \<not> sv_require_auth s
                then emit_send (py_method_selection (method_value NO_AUTH)) []
                       (s\<lparr>sv_state := PRequest\<rparr>)
                else if \<exists>m \<in> set methods. uint m = method_value USERPASS
                then emit_send (py_method_selection (method_value USERPASS)) []
                       (s\<lparr>sv_state := PAuth\<rparr>)
                else emit_send (py_method_selection (method_value NO_ACCEPTABLE))
                       [Close ''no acceptable auth method''] (s\<lparr>sv_state := PClosed\<rparr>)))"

definition step_auth :: "('c, 'p) server_session \<Rightarrow> ('c, 'p) sv_result" where
  "step_auth s =
     (let buf = sv_buf s in
      case py_parse_userpass buf of
        Inl e \<Rightarrow> (Inl e, s)
      | Inr None \<Rightarrow>
          if length buf > 3 + 255 + 255
          then emit [Close ''auth message too large''] (s\<lparr>sv_state := PClosed\<rparr>)
          else (Inr NeedData, s)
      | Inr (Some (user, pass)) \<Rightarrow>
          let ulen = unat (buf ! 1); plen = unat (buf ! (2 + ulen))
          in (Inr (Authorize (Some user) (Some pass)),
              s\<lparr>sv_buf := drop (3 + ulen + plen) buf, sv_rejected := False,
                sv_state := PAuthWait\<rparr>))"

definition step_auth_wait :: "('c, 'p) server_session \<Rightarrow> ('c, 'p) sv_result" where
  "step_auth_wait s =
     (if sv_rejected s
      then emit_send (py_auth_reply 1) [Close ''auth rejected''] (s\<lparr>sv_state := PClosed\<rparr>)
      else emit_send (py_auth_reply 0) [] (s\<lparr>sv_state := PRequest\<rparr>))"

definition step_request :: "inet_api \<Rightarrow> ('c, 'p) server_session \<Rightarrow> ('c, 'p) sv_result" where
  "step_request I s =
     (let buf = sv_buf s in
      case request_len buf of
        None \<Rightarrow>
          if length buf \<ge> 5
          then emit_send (py_reply I (rep_value ATYP_NOT_SUPPORTED) (py_lit ''0.0.0.0'') 0)
                 [Close ''unsupported address type''] (s\<lparr>sv_state := PClosed\<rparr>)
          else (Inr NeedData, s)
      | Some n \<Rightarrow>
          if length buf < n then
            (if length buf > 4 + 1 + 255 + 2
             then emit [Close ''request too large''] (s\<lparr>sv_state := PClosed\<rparr>)
             else (Inr NeedData, s))
          else (case py_parse_request I (take n buf) of
                  Inl e \<Rightarrow> (Inl e, s)
                | Inr None \<Rightarrow>
                    emit_send (py_reply I (rep_value GENERAL_FAILURE) (py_lit ''0.0.0.0'') 0)
                      [Close ''malformed request''] (s\<lparr>sv_state := PClosed\<rparr>)
                | Inr (Some (cmd, host, port)) \<Rightarrow>
                    let s = s\<lparr>sv_buf := drop n buf, sv_cmd := cmd\<rparr> in
                    if cmd \<noteq> cmd_value CONNECT
                    then emit_send (py_reply I (rep_value CMD_NOT_SUPPORTED) (py_lit ''0.0.0.0'') 0)
                           [Close ''command not supported (only CONNECT)''] (s\<lparr>sv_state := PClosed\<rparr>)
                    else (Inr (Connect cmd host port),
                          s\<lparr>sv_target := Some (host, port), sv_rejected := False,
                            sv_connected_bnd := None, sv_connect_failed := False,
                            sv_state := PConnectWait\<rparr>)))"

definition step_connect_wait :: "inet_api \<Rightarrow> ('c, 'p) server_session \<Rightarrow> ('c, 'p) sv_result" where
  "step_connect_wait I s =
     (if sv_relay_raw s then
        (let tg = (case sv_target s of None \<Rightarrow> (py_lit ''0.0.0.0'', 0) | Some t \<Rightarrow> t)
         in (Inr (Relay (fst tg) (snd tg)), s\<lparr>sv_state := PRelay\<rparr>))
      else if sv_rejected s then
        emit_send (py_reply I (sv_rep s) (py_lit ''0.0.0.0'') 0) [Close ''request rejected'']
          (s\<lparr>sv_state := PClosed\<rparr>)
      else if sv_connect_failed s then
        emit_send (py_reply I (sv_rep s) (py_lit ''0.0.0.0'') 0) [Close ''upstream failed'']
          (s\<lparr>sv_state := PClosed\<rparr>)
      else (case sv_connected_bnd s of
              Some (bh, bp) \<Rightarrow>
                let tg = (case sv_target s of None \<Rightarrow> (bh, bp) | Some t \<Rightarrow> t)
                in emit_send (py_reply I (rep_value SUCCEEDED) bh bp) [Relay (fst tg) (snd tg)]
                     (s\<lparr>sv_state := PRelay\<rparr>)
            | None \<Rightarrow>
                (Inl (RuntimeErr ''connect_wait: no upstream decision was made''), s)))"

definition server_step :: "inet_api \<Rightarrow> ('c, 'p) server_session \<Rightarrow> ('c, 'p) sv_result" where
  "server_step I s =
     (case sv_state s of
        PGreeting \<Rightarrow> step_greeting s
      | PAuth \<Rightarrow> step_auth s
      | PAuthWait \<Rightarrow> step_auth_wait s
      | PRequest \<Rightarrow> step_request I s
      | PConnectWait \<Rightarrow> step_connect_wait I s
      | PRelay \<Rightarrow> (Inr (Close ''relay finished''), s\<lparr>sv_state := PClosed\<rparr>)
      | PClosed \<Rightarrow> (Inr (Close ''closed''), s))"

definition next_event :: "inet_api \<Rightarrow> ('c, 'p) server_session \<Rightarrow> ('c, 'p) sv_result" where
  "next_event I s =
     (case sv_out s of
        e # es \<Rightarrow> (Inr e, s\<lparr>sv_out := es\<rparr>)
      | [] \<Rightarrow> server_step I s)"

end
