(* ===== verification/ServerSessionFacts.thy ===== *)
theory ServerSessionFacts
  imports ServerSession
begin

text \<open>
  Facts about the server session: its parsers keep the contract \<open>incremental\<close>, the session
  itself the contracts \<open>sans_io\<close> and \<open>sans_io_driven\<close>, and what each phase can do.
\<close>

section \<open>Parsers of the control channel\<close>

text \<open>Rewrites that would hide the positions \<open>1\<close> and \<open>2 + n\<close>, off where positions matter.\<close>

lemmas positions = One_nat_def add_2_eq_Suc add_2_eq_Suc'

definition greeting_len :: "bytes \<Rightarrow> nat" where
  "greeting_len xs = 2 + unat (xs ! 1)"

definition userpass_len :: "bytes \<Rightarrow> nat" where
  "userpass_len xs = 3 + unat (xs ! 1) + unat (xs ! (2 + unat (xs ! 1)))"

lemma parse_greeting_Some:
  "parse_greeting xs = Some m \<longleftrightarrow>
     2 \<le> length xs \<and> xs ! 0 = kVer \<and> greeting_len xs \<le> length xs \<and>
     m = take (unat (xs ! 1)) (drop 2 xs)"
  by (auto simp: parse_greeting_def greeting_len_def Let_def simp del: positions)

lemma parse_userpass_Some:
  "parse_userpass xs = Some (u, p) \<longleftrightarrow>
     2 \<le> length xs \<and> xs ! 0 = kAuthVer \<and> 3 + unat (xs ! 1) \<le> length xs \<and>
     userpass_len xs \<le> length xs \<and>
     u = take (unat (xs ! 1)) (drop 2 xs) \<and>
     p = take (unat (xs ! (2 + unat (xs ! 1)))) (drop (3 + unat (xs ! 1)) xs)"
  by (auto simp: parse_userpass_def userpass_len_def Let_def eval_nat_numeral)

lemma parse_greeting_total:
  "257 \<le> length xs \<Longrightarrow> xs ! 0 = kVer \<Longrightarrow> parse_greeting xs \<noteq> None"
  using unat_byte_le [of "xs ! 1"]
  by (auto simp: parse_greeting_def Let_def simp del: positions unat_byte_le)

lemma parse_userpass_total:
  assumes "513 \<le> length xs" "xs ! 0 = kAuthVer"
  shows "parse_userpass xs \<noteq> None"
  using assms unat_byte_le [of "xs ! 1"] unat_byte_le [of "xs ! (2 + unat (xs ! 1))"]
  by (auto simp: parse_userpass_def Let_def simp del: positions unat_byte_le)

interpretation greeting_parser: incremental parse_greeting greeting_len
proof unfold_locales
  fix xs ys v assume p: "parse_greeting xs = Some v"
  then show "parse_greeting (xs @ ys) = Some v"
    and "greeting_len (xs @ ys) = greeting_len xs" and "greeting_len xs \<le> length xs"
    and "parse_greeting (take (greeting_len xs) xs) = Some v"
    by (auto simp: parse_greeting_Some nth_append greeting_len_def drop_take simp del: positions)
qed

interpretation userpass_parser: incremental parse_userpass userpass_len
proof unfold_locales
  fix xs ys v assume p: "parse_userpass xs = Some v"
  obtain u w where v: "v = (u, w)" by (cases v)
  note s = p [unfolded v parse_userpass_Some]
  have n: "2 + unat (xs ! 1) < length xs" using s by simp
  then have a: "(xs @ ys) ! 1 = xs ! 1" "(xs @ ys) ! (2 + unat (xs ! 1)) = xs ! (2 + unat (xs ! 1))"
    "(xs @ ys) ! 0 = xs ! 0"
    by (simp_all only: nth_append) auto
  show "userpass_len (xs @ ys) = userpass_len xs" using a by (simp add: userpass_len_def)
  show "parse_userpass (xs @ ys) = Some v"
    using s a by (simp add: v parse_userpass_Some userpass_len_def del: positions)
  show "userpass_len xs \<le> length xs" using s by simp
  show "parse_userpass (take (userpass_len xs) xs) = Some v"
    using s by (auto simp: v parse_userpass_Some userpass_len_def drop_take simp del: positions)
qed

lemma request_len_len: "request_len buf = message_len buf"
  by (auto simp: request_len_def message_len_def addr_size_def Let_def)

section \<open>Results of the binding\<close>

lemma py_parse_userpass_extends:
  assumes "py_parse_userpass xs = r" "r \<noteq> Inr None"
  shows "py_parse_userpass (xs @ ys) = r"
proof -
  obtain v where "parse_userpass xs = Some v"
    using assms by (auto simp: py_parse_userpass_def split: option.splits)
  then show ?thesis
    using assms userpass_parser.parse_extends [of xs v ys] by (simp add: py_parse_userpass_def)
qed

lemma py_parse_userpass_Some:
  "py_parse_userpass xs = Inr (Some (u, p)) \<Longrightarrow> \<exists>v. parse_userpass xs = Some v"
  by (auto simp: py_parse_userpass_def split: option.splits)

lemma py_parse_userpass_None: "py_parse_userpass xs = Inr None \<longleftrightarrow> parse_userpass xs = None"
  by (auto simp: py_parse_userpass_def bind_res_Inr split: option.splits)

lemma py_parse_userpass_Inl: "py_parse_userpass xs = Inl e \<Longrightarrow> e = UnicodeDecodeErr"
  by (auto simp: py_parse_userpass_def py_str_result_def bind_res_Inl
      split: option.splits if_splits)

lemma py_parse_request_Inl: "py_parse_request I xs = Inl e \<Longrightarrow> e = UnicodeDecodeErr"
  by (auto simp: py_parse_request_def build_message_def py_str_result_def bind_res_Inl
      split: option.splits if_splits)

text \<open>The messages without an address are always built.\<close>

lemma py_method_selection_built:
  "py_method_selection 0 = Inr [kVer, 0]" "py_method_selection 2 = Inr [kVer, 2]"
  "py_method_selection 255 = Inr [kVer, 255]"
  by (simp_all add: py_method_selection_def c_int_arg_def in_range_def method_selection_def)

lemma py_auth_reply_built:
  "py_auth_reply 0 = Inr [kAuthVer, 0]" "py_auth_reply 1 = Inr [kAuthVer, 1]"
  by (simp_all add: py_auth_reply_def c_int_arg_def in_range_def auth_reply_def)

section \<open>Queue\<close>

lemma emit_out: "sv_out s = [] \<Longrightarrow> emit (e # es) s = (Inr e, s\<lparr>sv_out := es\<rparr>)"
  by (simp add: emit_def)

lemma emit_send_out:
  "sv_out s = [] \<Longrightarrow> emit_send built es s =
     (case built of Inl e \<Rightarrow> (Inl e, s) | Inr d \<Rightarrow> (Inr (Send d), s\<lparr>sv_out := es\<rparr>))"
  by (cases built) (simp_all add: emit_send_def emit_def)

lemmas queue_simps = emit_out emit_send_out py_method_selection_built py_auth_reply_built

section \<open>The sans-IO contract\<close>

definition sv_invar :: "('c, 'p) server_session \<Rightarrow> bool" where
  "sv_invar s \<longleftrightarrow> NeedData \<notin> set (sv_out s)"

definition sv_poll ::
  "inet_api \<Rightarrow> ('c, 'p) server_session \<Rightarrow> (py_exn + event) option \<times> ('c, 'p) server_session" where
  "sv_poll I s =
     (case next_event I s of (r, s') \<Rightarrow> (if r = Inr NeedData then None else Some r, s'))"

lemma receive_simps [simp]:
  "sv_require_auth (receive s b) = sv_require_auth s" "sv_buf (receive s b) = sv_buf s @ b"
  "sv_state (receive s b) = sv_state s" "sv_out (receive s b) = sv_out s"
  "sv_ctx (receive s b) = sv_ctx s" "sv_cmd (receive s b) = sv_cmd s"
  "sv_target (receive s b) = sv_target s" "sv_custom_pipe (receive s b) = sv_custom_pipe s"
  "sv_intercept (receive s b) = sv_intercept s" "sv_rejected (receive s b) = sv_rejected s"
  "sv_rep (receive s b) = sv_rep s" "sv_connected_bnd (receive s b) = sv_connected_bnd s"
  "sv_connect_failed (receive s b) = sv_connect_failed s"
  "sv_relay_raw (receive s b) = sv_relay_raw s"
  by (simp_all add: receive_def)

lemma receive_upd:
  "(receive s b)\<lparr>sv_state := p\<rparr> = receive (s\<lparr>sv_state := p\<rparr>) b"
  "(receive s b)\<lparr>sv_out := o'\<rparr> = receive (s\<lparr>sv_out := o'\<rparr>) b"
  by (simp_all add: receive_def)

lemma step_greeting_push:
  assumes "sv_out s = []" "step_greeting s = (r, s')" "r \<noteq> Inr NeedData"
  shows "step_greeting (receive s b) = (r, receive s' b)"
proof (cases "sv_buf s \<noteq> [] \<and> sv_buf s ! 0 \<noteq> 5")
  case True
  then show ?thesis
    using assms by (auto simp: step_greeting_def queue_simps nth_append receive_def)
next
  case False
  show ?thesis
  proof (cases "parse_greeting (sv_buf s)")
    case None
    then have "length (sv_buf s) \<le> 257"
      using False parse_greeting_total [of "sv_buf s"] by (cases "sv_buf s = []") (simp, force)
    then show ?thesis
      using None False assms by (auto simp: step_greeting_def py_parse_greeting_def)
  next
    case (Some m)
    from Some have l: "2 \<le> length (sv_buf s)" "sv_buf s ! 0 = 5"
      by (auto simp: parse_greeting_Some)
    note d = greeting_parser.rest_extends [OF Some, of b, unfolded greeting_len_def]
    show ?thesis
      using assms d l Some greeting_parser.parse_extends [OF Some, of b]
      by (auto simp: step_greeting_def py_parse_greeting_def queue_simps nth_append receive_def Let_def
          split: if_splits)
  qed
qed

lemma step_auth_push:
  assumes "sv_out s = []" "step_auth s = (r, s')" "r \<noteq> Inr NeedData"
  shows "step_auth (receive s b) = (r, receive s' b)"
proof (cases "py_parse_userpass (sv_buf s)")
  case (Inl e)
  then show ?thesis
    using assms py_parse_userpass_extends [OF Inl, of b] by (simp add: step_auth_def)
next
  case (Inr q)
  show ?thesis
  proof (cases q)
    case None
    with Inr have n: "parse_userpass (sv_buf s) = None" by (simp add: py_parse_userpass_None)
    with assms Inr None have l: "513 < length (sv_buf s)"
      by (auto simp: step_auth_def Let_def split: if_splits)
    with n have "sv_buf s ! 0 \<noteq> kAuthVer" using parse_userpass_total [of "sv_buf s"] by auto
    moreover have "(sv_buf s @ b) ! 0 = sv_buf s ! 0"
      using l by (cases "sv_buf s") simp_all
    ultimately have "parse_userpass (sv_buf s @ b) = None" by (simp add: parse_userpass_def)
    then have "py_parse_userpass (sv_buf s @ b) = Inr None" by (simp add: py_parse_userpass_None)
    then show ?thesis
      using assms l Inr None by (auto simp: step_auth_def Let_def queue_simps receive_def)
  next
    case (Some up)
    obtain u p where up: "up = (u, p)" by (cases up)
    with Inr Some have i: "py_parse_userpass (sv_buf s) = Inr (Some (u, p))" by simp
    then obtain v where v: "parse_userpass (sv_buf s) = Some v" using py_parse_userpass_Some by blast
    then have n: "2 + unat (sv_buf s ! 1) < length (sv_buf s)"
      by (cases v) (auto simp: parse_userpass_Some)
    then have a: "(sv_buf s @ b) ! 1 = sv_buf s ! 1"
      "(sv_buf s @ b) ! (2 + unat (sv_buf s ! 1)) = sv_buf s ! (2 + unat (sv_buf s ! 1))"
      by (simp_all add: nth_append)
    note d = userpass_parser.rest_extends [OF v, of b, unfolded userpass_len_def a]
    show ?thesis
      using assms i a d py_parse_userpass_extends [OF i, of b]
      by (auto simp: step_auth_def Let_def receive_def)
  qed
qed

lemma step_request_push:
  assumes "sv_out s = []" "step_request I s = (r, s')" "r \<noteq> Inr NeedData"
  shows "step_request I (receive s b) = (r, receive s' b)"
proof (cases "request_len (sv_buf s)")
  case None
  then have l: "5 \<le> length (sv_buf s)"
    using assms by (auto simp: step_request_def Let_def split: if_splits)
  then have "(sv_buf s @ b) ! 3 = sv_buf s ! 3" by (simp add: nth_append)
  then have "request_len (sv_buf s @ b) = None"
    using None l message_len_known [of "sv_buf s"] message_len_known [of "sv_buf s @ b"]
    by (simp add: request_len_len)
  then show ?thesis
    using None l assms by (auto simp: step_request_def Let_def queue_simps receive_def split: sum.splits)
next
  case (Some n)
  then have m: "message_len (sv_buf s) = Some n" by (simp add: request_len_len)
  have l: "n \<le> length (sv_buf s)"
    using Some assms message_len_max [OF m]
    by (auto simp: step_request_def Let_def split: if_splits)
  have "request_len (sv_buf s @ b) = Some n"
    using message_len_extends [OF m] by (simp add: request_len_len)
  then show ?thesis
    using Some l assms
    by (auto simp: step_request_def Let_def queue_simps receive_def
        split: sum.splits option.splits)
qed

lemma emit_send_push:
  "emit_send built es (receive s b) =
     (case emit_send built es s of (r, s') \<Rightarrow> (r, receive s' b))"
  by (auto simp: emit_send_def emit_def receive_upd split: sum.splits list.splits)

lemma step_other_push:
  assumes "sv_state s \<in> {PAuthWait, PConnectWait, PRelay, PClosed}"
  shows "server_step I (receive s b) = (case server_step I s of (r, s') \<Rightarrow> (r, receive s' b))"
  using assms
  by (auto simp: server_step_def step_auth_wait_def step_connect_wait_def Let_def receive_upd
      emit_send_push simp del: cmd_value.simps rep_value.simps split: option.split)

lemma server_step_push:
  assumes "sv_out s = []" "server_step I s = (r, s')" "r \<noteq> Inr NeedData"
  shows "server_step I (receive s b) = (r, receive s' b)"
proof (cases "sv_state s \<in> {PAuthWait, PConnectWait, PRelay, PClosed}")
  case True
  then show ?thesis using step_other_push [OF True, of I b] assms(2) by simp
next
  case False
  then show ?thesis
    using assms step_greeting_push step_auth_push step_request_push
    by (cases "sv_state s") (simp_all add: server_step_def)
qed

lemma step_emit_NeedData:
  "NeedData \<notin> set es \<Longrightarrow> sv_out s = [] \<Longrightarrow> emit_send built es s \<noteq> (Inr NeedData, s')"
  by (cases built) (auto simp: queue_simps)

lemma server_step_waits:
  assumes "sv_out s = []" "server_step I s = (Inr NeedData, s')"
  shows "s' = s"
  using assms
  by (auto simp: server_step_def step_greeting_def step_auth_def step_auth_wait_def
      step_request_def step_connect_wait_def Let_def queue_simps
      split: sv_phase.splits if_splits option.splits sum.splits prod.splits)

lemma server_step_out:
  assumes "sv_out s = []" "server_step I s = (r, s')"
  shows "sv_out s' = [] \<or> (\<exists>r. sv_out s' = [Close r]) \<or>
    sv_state s' = PRelay \<and> (\<exists>h p. sv_out s' = [Relay h p])"
  using assms
  by (auto simp: server_step_def step_greeting_def step_auth_def step_auth_wait_def
      step_request_def step_connect_wait_def Let_def queue_simps
      split: sv_phase.splits if_splits option.splits sum.splits prod.splits)

lemma next_event_push:
  assumes "next_event I s = (r, s')" "r \<noteq> Inr NeedData"
  shows "next_event I (receive s b) = (r, receive s' b)"
  using assms server_step_push [of s I r s' b]
  by (auto simp: next_event_def receive_upd split: list.splits)

lemma next_event_waits:
  assumes "sv_invar s" "next_event I s = (Inr NeedData, s')"
  shows "s' = s \<and> sv_out s = []"
  using assms server_step_waits [of s I s']
  by (auto simp: next_event_def sv_invar_def split: list.splits)

lemma next_event_invar:
  assumes "sv_invar s" "next_event I s = (r, s')"
  shows "sv_invar s'"
  using assms server_step_out [of s I r s']
  by (auto simp: next_event_def sv_invar_def split: list.splits)

lemma decide_keeps [simp]:
  "sv_require_auth (decide d s) = sv_require_auth s" "sv_buf (decide d s) = sv_buf s"
  "sv_state (decide d s) = sv_state s" "sv_out (decide d s) = sv_out s"
  "sv_cmd (decide d s) = sv_cmd s"
  by (cases d; simp add: sv_ok_def sv_reject_def sv_set_target_def sv_pipe_def sv_set_relay_raw_def
      sv_set_intercept_def sv_connected_def sv_set_connect_failed_def)+

lemma fold_decide_keeps [simp]:
  "sv_require_auth (fold decide ds s) = sv_require_auth s"
  "sv_buf (fold decide ds s) = sv_buf s" "sv_state (fold decide ds s) = sv_state s"
  "sv_out (fold decide ds s) = sv_out s" "sv_cmd (fold decide ds s) = sv_cmd s"
  by (induction ds arbitrary: s) auto

lemma decide_receive: "decide d (receive s b) = receive (decide d s) b"
  by (cases d) (simp_all add: receive_def sv_ok_def sv_reject_def sv_set_target_def sv_pipe_def
      sv_set_relay_raw_def sv_set_intercept_def sv_connected_def sv_set_connect_failed_def)

lemma fold_decide_receive: "fold decide ds (receive s b) = receive (fold decide ds s) b"
  by (induction ds arbitrary: s) (auto simp: decide_receive)

text \<open>
  What hooks and driver do after an event: a list of decisions, chosen from the event and from
  everything in the session but the unread bytes.
\<close>

definition react ::
  "(py_exn + event \<Rightarrow> ('c, 'p) server_session \<Rightarrow> ('c, 'p) decision list) \<Rightarrow>
     py_exn + event \<Rightarrow> ('c, 'p) server_session \<Rightarrow> ('c, 'p) server_session" where
  "react policy r s = fold decide (policy r (s\<lparr>sv_buf := []\<rparr>)) s"

lemma react_keeps [simp]:
  "sv_require_auth (react policy r s) = sv_require_auth s" "sv_buf (react policy r s) = sv_buf s"
  "sv_state (react policy r s) = sv_state s" "sv_out (react policy r s) = sv_out s"
  "sv_cmd (react policy r s) = sv_cmd s"
  by (simp_all add: react_def)

lemma react_receive: "react policy r (receive s b) = receive (react policy r s) b"
proof -
  have "(receive s b)\<lparr>sv_buf := []\<rparr> = s\<lparr>sv_buf := []\<rparr>" by (simp add: receive_def)
  then show ?thesis unfolding react_def fold_decide_receive by (rule arg_cong)
qed

interpretation server_io: sans_io "sv_poll I" receive sv_invar for I
proof unfold_locales
  fix s :: "('c, 'p) server_session" and s' and b c :: bytes and q and r
  show "receive s [] = s" by (simp add: receive_def)
  show "receive (receive s b) c = receive s (b @ c)" by (simp add: receive_def)
  show "sv_invar s \<Longrightarrow> sv_invar (receive s b)" by (simp add: sv_invar_def)
  show "sv_invar s \<Longrightarrow> sv_poll I s = (q, s') \<Longrightarrow> sv_invar s'"
    by (auto simp: sv_poll_def next_event_invar split: prod.splits)
  show "sv_invar s \<Longrightarrow> sv_poll I s = (Some r, s') \<Longrightarrow> sv_poll I (receive s b) = (Some r, receive s' b)"
    by (auto simp: sv_poll_def next_event_push split: prod.splits if_splits)
  assume i: "sv_invar s" and p: "sv_poll I s = (None, s')"
  then have "next_event I s = (Inr NeedData, s')"
    by (auto simp: sv_poll_def split: prod.splits if_splits)
  with next_event_waits [OF i this] p
  show "sv_poll I (receive s b) = sv_poll I (receive s' b)" "sv_poll I s' = (None, s')" by simp_all
qed

interpretation server_run: sans_io_driven "sv_poll I" receive sv_invar "react policy" for I policy
  by unfold_locales (simp_all add: react_receive sv_invar_def)

end
