(* ===== verification/ServerTrace.thy ===== *)
theory ServerTrace
  imports ServerSessionFacts
begin

text \<open>
  What a server session can do under any driver: the traces of received bytes, decisions,
  events and exceptions, in any order, and the protocol automaton that every trace refines.
\<close>

section \<open>Traces\<close>

datatype ('c, 'p) action =
    ARecv bytes
  | ADecide "('c, 'p) decision"
  | AEvent event
  | ARaise py_exn

inductive sv_act ::
  "inet_api \<Rightarrow> ('c, 'p) action \<Rightarrow> ('c, 'p) server_session \<Rightarrow> ('c, 'p) server_session \<Rightarrow> bool"
  for I where
  act_recv: "sv_act I (ARecv b) s (receive s b)"
| act_decide: "sv_act I (ADecide d) s (decide d s)"
| act_event: "next_event I s = (Inr e, s') \<Longrightarrow> sv_act I (AEvent e) s s'"
| act_raise: "next_event I s = (Inl x, s') \<Longrightarrow> sv_act I (ARaise x) s s'"

inductive_simps sv_act_simps [simp]:
  "sv_act I (ARecv b) s s'" "sv_act I (ADecide d) s s'" "sv_act I (AEvent e) s s'"
  "sv_act I (ARaise x) s s'"

inductive sv_trace ::
  "inet_api \<Rightarrow> bool \<Rightarrow> ('c, 'p) action list \<Rightarrow> ('c, 'p) server_session \<Rightarrow> bool"
  for I ra where
  trace_start: "sv_trace I ra [] (server_init ra)"
| trace_act: "sv_trace I ra tr s \<Longrightarrow> sv_act I a s s' \<Longrightarrow> sv_trace I ra (tr @ [a]) s'"

inductive_cases trace_snocE: "sv_trace I ra (tr @ [a]) s"

lemma trace_split:
  assumes "sv_trace I ra (pre @ a # post) s"
  shows "\<exists>s1 s2. sv_trace I ra pre s1 \<and> sv_act I a s1 s2 \<and> sv_trace I ra (pre @ [a]) s2"
  using assms
proof (induction post arbitrary: s rule: rev_induct)
  case Nil
  then show ?case by (metis trace_snocE trace_act append1_eq_conv snoc_eq_iff_butlast)
next
  case (snoc b post)
  from snoc.prems obtain t where "sv_trace I ra (pre @ a # post) t"
    using trace_snocE [of I ra "pre @ a # post" b s] by auto
  then show ?case by (rule snoc.IH)
qed

fun events_of :: "('c, 'p) action list \<Rightarrow> event list" where
  "events_of [] = []"
| "events_of (AEvent e # tr) = e # events_of tr"
| "events_of (_ # tr) = events_of tr"

lemma events_of_append [simp]: "events_of (xs @ ys) = events_of xs @ events_of ys"
  by (induction xs rule: events_of.induct) auto

lemma events_of_mem: "e \<in> set (events_of tr) \<longleftrightarrow> AEvent e \<in> set tr"
  by (induction tr rule: events_of.induct) auto

section \<open>The protocol automaton\<close>

text \<open>
  What a SOCKS5 server may emit, without buffers, hooks or parsing: which message is sent in
  which phase, and what may follow it.
\<close>

datatype spec_phase =
    QGreeting | QAuth | QAuthWait | QRequest | QDenied | QConnect | QGranted | QRelay | QClosed

text \<open>The code of a message that is exactly one reply.\<close>

definition reply_code :: "inet_api \<Rightarrow> bytes \<Rightarrow> byte option" where
  "reply_code I d =
     (case parse_reply I d of
        Some (c, a) \<Rightarrow> if message_len d = Some (length d) then Some c else None
      | None \<Rightarrow> None)"

fun spec_next :: "inet_api \<Rightarrow> bool \<Rightarrow> spec_phase \<Rightarrow> event \<Rightarrow> spec_phase option" where
  "spec_next I ra q NeedData =
     (if q \<in> {QGreeting, QAuth, QRequest} then Some q else None)"
| "spec_next I ra QGreeting (Send d) =
     (if \<not> ra \<and> d = [5, 0] then Some QRequest
      else if ra \<and> d = [5, 2] then Some QAuth
      else if ra \<and> d = [5, 255] then Some QDenied
      else None)"
| "spec_next I ra QGreeting (Close r) =
     (if r = ''not a SOCKS5 greeting (bad version)'' then Some QClosed else None)"
| "spec_next I ra QAuth (Authorize (Some u) (Some p)) = Some QAuthWait"
| "spec_next I ra QAuth (Close r) = Some QClosed"
| "spec_next I ra QAuthWait (Send d) =
     (if d = [1, 0] then Some QRequest else if d = [1, 1] then Some QDenied else None)"
| "spec_next I ra QRequest (Send d) =
     (if reply_code I d \<in> {Some 1, Some 7, Some 8} then Some QDenied else None)"
| "spec_next I ra QRequest (Connect c h p) = (if c = 1 then Some QConnect else None)"
| "spec_next I ra QConnect (Send d) =
     (case reply_code I d of
        None \<Rightarrow> None
      | Some c \<Rightarrow> Some (if c = 0 then QGranted else QDenied))"
| "spec_next I ra QConnect (Relay h p) = Some QRelay"
| "spec_next I ra QConnect (Close r) = Some QClosed"
| "spec_next I ra QGranted (Relay h p) = Some QRelay"
| "spec_next I ra QGranted (Close r) = Some QClosed"
| "spec_next I ra QDenied (Close r) = Some QClosed"
| "spec_next I ra QRelay (Close r) = Some QClosed"
| "spec_next I ra QClosed (Close r) = Some QClosed"
| "spec_next I ra q e = None"

fun spec_run :: "inet_api \<Rightarrow> bool \<Rightarrow> spec_phase \<Rightarrow> event list \<Rightarrow> spec_phase option" where
  "spec_run I ra q [] = Some q"
| "spec_run I ra q (e # es) =
     (case spec_next I ra q e of None \<Rightarrow> None | Some q' \<Rightarrow> spec_run I ra q' es)"

lemma spec_run_append:
  "spec_run I ra q (xs @ ys) =
     (case spec_run I ra q xs of None \<Rightarrow> None | Some q' \<Rightarrow> spec_run I ra q' ys)"
  by (induction xs arbitrary: q) (auto split: option.splits)

section \<open>Refinement\<close>

text \<open>Which concrete states stand for a phase of the automaton.\<close>

fun phase_sim :: "spec_phase \<Rightarrow> sv_phase \<Rightarrow> event list \<Rightarrow> bool" where
  "phase_sim QGreeting p es \<longleftrightarrow> p = PGreeting \<and> es = []"
| "phase_sim QAuth p es \<longleftrightarrow> p = PAuth \<and> es = []"
| "phase_sim QAuthWait p es \<longleftrightarrow> p = PAuthWait \<and> es = []"
| "phase_sim QRequest p es \<longleftrightarrow> p = PRequest \<and> es = []"
| "phase_sim QDenied p es \<longleftrightarrow> p = PClosed \<and> (\<exists>r. es = [Close r])"
| "phase_sim QConnect p es \<longleftrightarrow> p \<in> {PConnectWait, PRelay, PClosed} \<and> es = []"
| "phase_sim QGranted p es \<longleftrightarrow>
     p = PRelay \<and> (\<exists>h q. es = [Relay h q]) \<or> p = PClosed \<and> (\<exists>r. es = [Close r])"
| "phase_sim QRelay p es \<longleftrightarrow> p = PRelay \<and> es = []"
| "phase_sim QClosed p es \<longleftrightarrow> p = PClosed \<and> es = []"

definition sv_sim :: "bool \<Rightarrow> spec_phase \<Rightarrow> ('c, 'p) server_session \<Rightarrow> bool" where
  "sv_sim ra q s \<longleftrightarrow> sv_require_auth s = ra \<and> phase_sim q (sv_state s) (sv_out s)"

lemma py_reply_code:
  assumes "posix_inet I" "py_reply I rep h p = Inr w"
  shows "reply_code I w = Some (word_of_int rep)"
proof -
  from assms(2) obtain b where "reply I (word_of_int rep) \<lparr>a_host = b, a_port = word_of_int p\<rparr> = Inr w"
    by (auto simp: py_reply_def result_simps)
  from parse_reply_built [OF assms(1) this, of "[]"] show ?thesis by (simp add: reply_code_def)
qed

text \<open>The replies with a fixed code and address are always built.\<close>

lemma py_reply_fixed:
  assumes "0 \<le> rep" "rep \<le> 255"
  shows "\<exists>w. py_reply I rep (py_lit ''0.0.0.0'') 0 = Inr w"
proof -
  have u: "utf8_encode (py_lit ''0.0.0.0'') = Some [48, 46, 48, 46, 48, 46, 48]" by code_simp
  have "\<exists>w. reply I (word_of_int rep) \<lparr>a_host = [48, 46, 48, 46, 48, 46, 48], a_port = 0\<rparr> = Inr w"
    by (auto simp: reply_def encode_address_def classify_host_def Let_def split: option.splits)
  then show ?thesis
    using assms u
    by (auto simp: py_reply_def c_int_arg_def c_str_arg_def c_str_len_arg_def in_range_def)
qed

lemma emit_reply_fixed:
  assumes "0 \<le> rep" "rep \<le> 255" "sv_out s = []"
  shows "\<exists>w. py_reply I rep (py_lit ''0.0.0.0'') 0 = Inr w \<and>
    emit_send (py_reply I rep (py_lit ''0.0.0.0'') 0) es s = (Inr (Send w), s\<lparr>sv_out := es\<rparr>)"
  using py_reply_fixed [OF assms(1,2), of I] assms(3) by (auto simp: queue_simps)

section \<open>What each phase does\<close>

lemma step_greeting_cases:
  assumes "sv_out s = []" "step_greeting s = (r, s')"
  obtains (wait) "r = Inr NeedData" "s' = s" "length (sv_buf s) \<le> 256"
  | (version) "r = Inr (Close ''not a SOCKS5 greeting (bad version)'')"
      "s' = s\<lparr>sv_state := PClosed\<rparr>" "sv_buf s \<noteq> []" "sv_buf s ! 0 \<noteq> 5"
  | (no_auth) m where "parse_greeting (sv_buf s) = Some m" "\<not> sv_require_auth s"
      "r = Inr (Send [5, 0])"
      "s' = s\<lparr>sv_buf := drop (greeting_len (sv_buf s)) (sv_buf s), sv_state := PRequest\<rparr>"
  | (userpass) m where "parse_greeting (sv_buf s) = Some m" "sv_require_auth s" "2 \<in> set m"
      "r = Inr (Send [5, 2])"
      "s' = s\<lparr>sv_buf := drop (greeting_len (sv_buf s)) (sv_buf s), sv_state := PAuth\<rparr>"
  | (none) m where "parse_greeting (sv_buf s) = Some m" "sv_require_auth s" "2 \<notin> set m"
      "r = Inr (Send [5, 255])"
      "s' = s\<lparr>sv_buf := drop (greeting_len (sv_buf s)) (sv_buf s), sv_state := PClosed,
              sv_out := [Close ''no acceptable auth method'']\<rparr>"
proof -
  have u: "(\<exists>m \<in> set xs. uint m = 2) \<longleftrightarrow> 2 \<in> set xs" for xs :: bytes
  proof -
    have "uint m = 2 \<longleftrightarrow> m = 2" for m :: byte
      using word_uint_eq_iff [of m 2] by simp
    then show ?thesis by auto
  qed
  show ?thesis
  proof (cases "sv_buf s \<noteq> [] \<and> sv_buf s ! 0 \<noteq> 5")
    case True
    then show ?thesis using assms version by (auto simp: step_greeting_def queue_simps)
  next
    case False
    show ?thesis
    proof (cases "parse_greeting (sv_buf s)")
      case None
      then have "length (sv_buf s) \<le> 256"
        using False parse_greeting_total [of "sv_buf s"] by (cases "sv_buf s = []") (simp, force)
      then show ?thesis
        using None False assms wait by (auto simp: step_greeting_def py_parse_greeting_def)
    next
      case (Some m)
      have o': "s\<lparr>sv_buf := b, sv_state := p, sv_out := []\<rparr> = s\<lparr>sv_buf := b, sv_state := p\<rparr>" for b p
        using assms(1) by simp
      show ?thesis
        using assms False Some no_auth userpass none
        by (auto simp: step_greeting_def py_parse_greeting_def queue_simps Let_def u o'
            greeting_len_def split: if_splits)
    qed
  qed
qed

lemma step_auth_cases:
  assumes "sv_out s = []" "step_auth s = (r, s')"
  obtains (wait) "r = Inr NeedData" "s' = s" "length (sv_buf s) \<le> 513"
  | (large) "r = Inr (Close ''auth message too large'')" "s' = s\<lparr>sv_state := PClosed\<rparr>"
      "513 < length (sv_buf s)" "sv_buf s ! 0 \<noteq> 1"
  | (undecodable) "r = Inl UnicodeDecodeErr" "s' = s" "py_parse_userpass (sv_buf s) = Inl UnicodeDecodeErr"
  | (authorize) u p where "py_parse_userpass (sv_buf s) = Inr (Some (u, p))"
      "r = Inr (Authorize (Some u) (Some p))"
      "s' = s\<lparr>sv_buf := drop (userpass_len (sv_buf s)) (sv_buf s), sv_rejected := False,
              sv_state := PAuthWait\<rparr>"
proof (cases "py_parse_userpass (sv_buf s)")
  case (Inl e)
  then show ?thesis
    using assms undecodable py_parse_userpass_Inl [OF Inl] by (auto simp: step_auth_def)
next
  case (Inr q)
  show ?thesis
  proof (cases q)
    case None
    with Inr have n: "parse_userpass (sv_buf s) = None" by (simp add: py_parse_userpass_None)
    then have "513 < length (sv_buf s) \<Longrightarrow> sv_buf s ! 0 \<noteq> 1"
      using parse_userpass_total [of "sv_buf s"] by auto
    then show ?thesis
      using assms Inr None wait large
      by (auto simp: step_auth_def queue_simps Let_def split: if_splits)
  next
    case (Some up)
    then show ?thesis
      using assms Inr authorize
      by (cases up) (auto simp: step_auth_def Let_def userpass_len_def simp del: positions)
  qed
qed

lemma step_request_cases:
  assumes "sv_out s = []" "step_request I s = (r, s')"
  obtains (wait) "r = Inr NeedData" "s' = s" "length (sv_buf s) \<le> 261"
  | (undecodable) n where "message_len (sv_buf s) = Some n" "n \<le> length (sv_buf s)"
      "r = Inl UnicodeDecodeErr" "s' = s"
      "py_parse_request I (take n (sv_buf s)) = Inl UnicodeDecodeErr"
  | (atyp) w where "message_len (sv_buf s) = None" "5 \<le> length (sv_buf s)"
      "py_reply I 8 (py_lit ''0.0.0.0'') 0 = Inr w" "r = Inr (Send w)"
      "s' = s\<lparr>sv_state := PClosed, sv_out := [Close ''unsupported address type'']\<rparr>"
  | (malformed) n w where "message_len (sv_buf s) = Some n" "n \<le> length (sv_buf s)"
      "py_parse_request I (take n (sv_buf s)) = Inr None"
      "py_reply I 1 (py_lit ''0.0.0.0'') 0 = Inr w" "r = Inr (Send w)"
      "s' = s\<lparr>sv_state := PClosed, sv_out := [Close ''malformed request'']\<rparr>"
  | (command) n c h p w where "message_len (sv_buf s) = Some n" "n \<le> length (sv_buf s)"
      "py_parse_request I (take n (sv_buf s)) = Inr (Some (c, h, p))" "c \<noteq> 1"
      "py_reply I 7 (py_lit ''0.0.0.0'') 0 = Inr w" "r = Inr (Send w)"
      "s' = s\<lparr>sv_buf := drop n (sv_buf s), sv_cmd := c, sv_state := PClosed,
              sv_out := [Close ''command not supported (only CONNECT)'']\<rparr>"
  | (connect) n h p where "message_len (sv_buf s) = Some n" "n \<le> length (sv_buf s)"
      "py_parse_request I (take n (sv_buf s)) = Inr (Some (1, h, p))"
      "r = Inr (Connect 1 h p)"
      "s' = s\<lparr>sv_buf := drop n (sv_buf s), sv_cmd := 1, sv_target := Some (h, p),
              sv_rejected := False, sv_connected_bnd := None, sv_connect_failed := False,
              sv_state := PConnectWait\<rparr>"
proof (cases "message_len (sv_buf s)")
  case None
  obtain w where w: "py_reply I 8 (py_lit ''0.0.0.0'') 0 = Inr w" using py_reply_fixed [of 8 I] by auto
  show ?thesis
    using assms None w wait atyp
    by (auto simp: step_request_def request_len_len queue_simps Let_def split: if_splits)
next
  case (Some n)
  obtain w where w: "py_reply I 1 (py_lit ''0.0.0.0'') 0 = Inr w" using py_reply_fixed [of 1 I] by auto
  obtain v where v: "py_reply I 7 (py_lit ''0.0.0.0'') 0 = Inr v" using py_reply_fixed [of 7 I] by auto
  note short = message_len_max [OF Some]
  show ?thesis
  proof (cases "length (sv_buf s) < n")
    case True
    then show ?thesis
      using assms Some short wait by (auto simp: step_request_def request_len_len Let_def)
  next
    case False
    then have l: "n \<le> length (sv_buf s)" by simp
    show ?thesis
    proof (cases "py_parse_request I (take n (sv_buf s))")
      case (Inl e)
      then have "r = Inl UnicodeDecodeErr" "s' = s" "e = UnicodeDecodeErr"
        using assms Some False py_parse_request_Inl [OF Inl]
        by (auto simp: step_request_def request_len_len Let_def)
      then show ?thesis using undecodable [OF Some l] Inl by simp
    next
      case (Inr q)
      show ?thesis
      proof (cases q)
        case None
        with Inr have q: "py_parse_request I (take n (sv_buf s)) = Inr None" by simp
        have "r = Inr (Send w)"
          "s' = s\<lparr>sv_state := PClosed, sv_out := [Close ''malformed request'']\<rparr>"
          using assms Some False q w
          by (simp_all add: step_request_def request_len_len Let_def queue_simps)
        then show ?thesis using malformed [OF Some l q w] by simp
      next
        case (Some chp)
        obtain c h p where chp: "chp = (c, h, p)" by (cases chp)
        note m = \<open>message_len (sv_buf s) = Some n\<close>
        have q: "py_parse_request I (take n (sv_buf s)) = Inr (Some (c, h, p))"
          using Inr Some chp by simp
        note d = assms(2) [unfolded step_request_def request_len_len Let_def m option.case if_not_P [OF False] q
            sum.case prod.case]
        show ?thesis
        proof (cases "c = 1")
          case True
          with d have "r = Inr (Connect 1 h p)" "s' = s\<lparr>sv_buf := drop n (sv_buf s), sv_cmd := 1,
              sv_target := Some (h, p), sv_rejected := False, sv_connected_bnd := None,
              sv_connect_failed := False, sv_state := PConnectWait\<rparr>"
            by simp_all
          then show ?thesis using connect [OF m l] q True by simp
        next
          case False
          with d v assms(1) have "r = Inr (Send v)" "s' = s\<lparr>sv_buf := drop n (sv_buf s), sv_cmd := c,
              sv_state := PClosed, sv_out := [Close ''command not supported (only CONNECT)'']\<rparr>"
            by (simp_all add: queue_simps)
          then show ?thesis using command [OF m l q False v] by simp
        qed
      qed
    qed
  qed
qed

lemma step_auth_wait_cases:
  assumes "sv_out s = []"
  shows "step_auth_wait s =
    (if sv_rejected s
     then (Inr (Send [1, 1]), s\<lparr>sv_state := PClosed, sv_out := [Close ''auth rejected'']\<rparr>)
     else (Inr (Send [1, 0]), s\<lparr>sv_state := PRequest\<rparr>))"
  using assms by (simp add: step_auth_wait_def queue_simps)

lemma step_connect_wait_cases:
  assumes "sv_out s = []" "step_connect_wait I s = (r, s')"
  obtains (raw) h p where "r = Inr (Relay h p)" "s' = s\<lparr>sv_state := PRelay\<rparr>"
  | (deny) rep reason w where "py_reply I rep (py_lit ''0.0.0.0'') 0 = Inr w" "r = Inr (Send w)"
      "s' = s\<lparr>sv_state := PClosed, sv_out := [Close reason]\<rparr>"
  | (grant) bh bp h p w where "py_reply I 0 bh bp = Inr w" "r = Inr (Send w)"
      "s' = s\<lparr>sv_state := PRelay, sv_out := [Relay h p]\<rparr>"
  | (raise) x ph where "r = Inl x" "s' = s\<lparr>sv_state := ph\<rparr>" "ph \<in> {PClosed, PRelay}"
  | (undecided) "r = Inl (RuntimeErr ''connect_wait: no upstream decision was made'')" "s' = s"
proof (cases "sv_relay_raw s")
  case True
  then show ?thesis using assms raw by (auto simp: step_connect_wait_def Let_def)
next
  case raw: False
  define cause where "cause = (if sv_rejected s then ''request rejected'' else ''upstream failed'')"
  show ?thesis
  proof (cases "sv_rejected s \<or> sv_connect_failed s")
    case True
    then have d: "(r, s') = emit_send (py_reply I (sv_rep s) (py_lit ''0.0.0.0'') 0) [Close cause]
        (s\<lparr>sv_state := PClosed\<rparr>)"
      using assms raw by (simp add: step_connect_wait_def cause_def split: if_splits)
    show ?thesis
    proof (cases "py_reply I (sv_rep s) (py_lit ''0.0.0.0'') 0")
      case (Inl x)
      then have "r = Inl x" "s' = s\<lparr>sv_state := PClosed\<rparr>" using d assms(1) by (simp_all add: queue_simps)
      then show ?thesis by (rule raise) simp
    next
      case (Inr w)
      then have "r = Inr (Send w)" "s' = s\<lparr>sv_state := PClosed, sv_out := [Close cause]\<rparr>"
        using d assms(1) by (simp_all add: queue_simps)
      then show ?thesis by (rule deny [OF Inr])
    qed
  next
    case False
    show ?thesis
    proof (cases "sv_connected_bnd s")
      case None
      then have "r = Inl (RuntimeErr ''connect_wait: no upstream decision was made'')" "s' = s"
        using assms raw False by (simp_all add: step_connect_wait_def)
      then show ?thesis by (rule undecided)
    next
      case (Some b)
      obtain bh bp where b: "b = (bh, bp)" by (cases b)
      define tg where "tg = (case sv_target s of None \<Rightarrow> (bh, bp) | Some t \<Rightarrow> t)"
      have d: "(r, s') = emit_send (py_reply I 0 bh bp) [Relay (fst tg) (snd tg)]
          (s\<lparr>sv_state := PRelay\<rparr>)"
        using assms(2) raw False Some b by (simp add: step_connect_wait_def tg_def Let_def)
      show ?thesis
      proof (cases "py_reply I 0 bh bp")
        case (Inl x)
        then have "r = Inl x" "s' = s\<lparr>sv_state := PRelay\<rparr>" using d assms(1) by (simp_all add: queue_simps)
        then show ?thesis by (rule raise) simp
      next
        case (Inr w)
        then have "r = Inr (Send w)" "s' = s\<lparr>sv_state := PRelay, sv_out := [Relay (fst tg) (snd tg)]\<rparr>"
          using d assms(1) by (simp_all add: queue_simps)
        then show ?thesis by (rule grant [OF Inr])
      qed
    qed
  qed
qed

section \<open>Every trace refines the automaton\<close>

lemma phase_sim_queue:
  "phase_sim q p es \<Longrightarrow> es \<noteq> [] \<Longrightarrow>
     \<exists>e. es = [e] \<and> (\<exists>q'. spec_next I ra q e = Some q' \<and> phase_sim q' p [])"
  by (cases q) auto

lemma step_sim:
  assumes I: "posix_inet I" and "phase_sim q (sv_state s) []" "sv_out s = []"
    and "server_step I s = (Inr e, s')"
  shows "\<exists>q'. spec_next I (sv_require_auth s) q e = Some q' \<and> phase_sim q' (sv_state s') (sv_out s')"
proof (cases "sv_state s")
  case PGreeting
  then have q: "q = QGreeting" using assms(2) by (cases q) auto
  have "step_greeting s = (Inr e, s')" using assms(4) PGreeting by (simp add: server_step_def)
  then show ?thesis
    using assms(3) PGreeting
    by (cases rule: step_greeting_cases [OF assms(3), consumes 1]) (auto simp: q)
next
  case PAuth
  then have q: "q = QAuth" using assms(2) by (cases q) auto
  have "step_auth s = (Inr e, s')" using assms(4) PAuth by (simp add: server_step_def)
  then show ?thesis
    using assms(3) PAuth by (cases rule: step_auth_cases [OF assms(3), consumes 1]) (auto simp: q)
next
  case PAuthWait
  then have q: "q = QAuthWait" using assms(2) by (cases q) auto
  then show ?thesis
    using assms(3,4) PAuthWait
    by (auto simp: server_step_def step_auth_wait_cases split: if_splits)
next
  case PRequest
  then have q: "q = QRequest" using assms(2) by (cases q) auto
  have "step_request I s = (Inr e, s')" using assms(4) PRequest by (simp add: server_step_def)
  then show ?thesis
    using assms(3) PRequest
    by (cases rule: step_request_cases [OF assms(3), consumes 1])
       (auto simp: q dest!: py_reply_code [OF I])
next
  case PConnectWait
  then have q: "q = QConnect" using assms(2) by (cases q) auto
  have "step_connect_wait I s = (Inr e, s')" using assms(4) PConnectWait by (simp add: server_step_def)
  then show ?thesis
    using assms(3) PConnectWait
    by (cases rule: step_connect_wait_cases [OF assms(3), consumes 1])
       (auto simp: q dest!: py_reply_code [OF I])
next
  case PRelay
  then show ?thesis using assms(2-4) by (cases q) (auto simp: server_step_def)
next
  case PClosed
  then show ?thesis using assms(2-4) by (cases q) (auto simp: server_step_def)
qed

lemma step_raise_sim:
  assumes "phase_sim q (sv_state s) []" "sv_out s = []" "server_step I s = (Inl x, s')"
  shows "phase_sim q (sv_state s') (sv_out s')"
proof (cases "sv_state s")
  case PConnectWait
  then have q: "q = QConnect" using assms(1) by (cases q) auto
  from PConnectWait have "step_connect_wait I s = (Inl x, s')" using assms(3) by (simp add: server_step_def)
  then show ?thesis
    by (cases rule: step_connect_wait_cases [OF assms(2), consumes 1]) (use assms PConnectWait q in auto)
next
  case PGreeting
  then have "step_greeting s = (Inl x, s')" using assms(3) by (simp add: server_step_def)
  then show ?thesis by (cases rule: step_greeting_cases [OF assms(2), consumes 1]) auto
next
  case PAuth
  then have "step_auth s = (Inl x, s')" using assms(3) by (simp add: server_step_def)
  then show ?thesis by (cases rule: step_auth_cases [OF assms(2), consumes 1]) (use assms in auto)
next
  case PRequest
  then have "step_request I s = (Inl x, s')" using assms(3) by (simp add: server_step_def)
  then show ?thesis by (cases rule: step_request_cases [OF assms(2), consumes 1]) (use assms in auto)
qed (use assms in \<open>auto simp: server_step_def step_auth_wait_cases split: if_splits\<close>)

lemma server_step_require_auth:
  "server_step I s = (r, s') \<Longrightarrow> sv_require_auth s' = sv_require_auth s"
  by (auto simp: server_step_def step_greeting_def step_auth_def step_auth_wait_def
      step_request_def step_connect_wait_def emit_send_def emit_def Let_def
      split: sv_phase.splits if_splits option.splits sum.splits prod.splits list.splits)

lemma next_event_sim:
  assumes I: "posix_inet I" and sim: "sv_sim ra q s" and n: "next_event I s = (Inr e, s')"
  shows "\<exists>q'. spec_next I ra q e = Some q' \<and> sv_sim ra q' s'"
proof (cases "sv_out s = []")
  case False
  from sim have p: "phase_sim q (sv_state s) (sv_out s)" "sv_require_auth s = ra"
    by (simp_all add: sv_sim_def)
  from phase_sim_queue [OF p(1) False, of I ra] n p(2) show ?thesis
    by (auto simp: sv_sim_def next_event_def)
next
  case True
  with n have "server_step I s = (Inr e, s')" by (simp add: next_event_def)
  from step_sim [OF I _ True this] server_step_require_auth [OF this] sim True show ?thesis
    by (simp add: sv_sim_def)
qed

lemma next_raise_sim:
  assumes sim: "sv_sim ra q s" and n: "next_event I s = (Inl x, s')"
  shows "sv_sim ra q s'"
proof -
  have o': "sv_out s = []" and st: "server_step I s = (Inl x, s')"
    using n by (auto simp: next_event_def split: list.splits)
  from step_raise_sim [OF _ o' st] server_step_require_auth [OF st] sim o' show ?thesis
    by (simp add: sv_sim_def)
qed

lemma act_sim:
  assumes I: "posix_inet I" and sim: "sv_sim ra q s" and act: "sv_act I a s s'"
  shows "\<exists>q'. spec_run I ra q (events_of [a]) = Some q' \<and> sv_sim ra q' s'"
proof (cases a)
  case (AEvent e)
  with act next_event_sim [OF I sim, of e s'] show ?thesis by auto
next
  case (ARaise x)
  with act next_raise_sim [OF sim, of I x s'] show ?thesis by auto
qed (use act sim in \<open>auto simp: sv_sim_def\<close>)

lemma trace_sim:
  assumes "posix_inet I" "sv_trace I ra tr s"
  shows "\<exists>q. spec_run I ra QGreeting (events_of tr) = Some q \<and> sv_sim ra q s"
  using assms(2)
proof (induction rule: sv_trace.induct)
  case trace_start
  then show ?case by (simp add: sv_sim_def server_init_def)
next
  case (trace_act tr s a s')
  then obtain q where "spec_run I ra QGreeting (events_of tr) = Some q" "sv_sim ra q s" by blast
  then show ?case
    using act_sim [OF assms(1) _ trace_act.hyps(2)] by (fastforce simp: spec_run_append)
qed

end
