(* ===== verification/ServerInvariants.thy ===== *)
theory ServerInvariants
  imports ServerTrace
begin

text \<open>
  Invariants of the server session along its traces: the authentication gate, the phases, the
  bytes it keeps while it waits, and what it can raise.
\<close>

section \<open>The authentication gate\<close>

text \<open>The verdict of the decisions of a trace, from an initial verdict.\<close>

fun rejected_by :: "('c, 'p) action list \<Rightarrow> bool \<Rightarrow> bool" where
  "rejected_by [] v = v"
| "rejected_by (ADecide (DOk _) # tr) v = rejected_by tr False"
| "rejected_by (ADecide (DReject _) # tr) v = rejected_by tr True"
| "rejected_by (_ # tr) v = rejected_by tr v"

text \<open>
  The trace holds an \<open>Authorize\<close> with a user name and a password, then decisions whose verdict
  is not a rejection, then the success reply.
\<close>

definition authorized :: "('c, 'p) action list \<Rightarrow> bool" where
  "authorized tr \<longleftrightarrow>
     (\<exists>t1 u p t2 t3. tr = t1 @ AEvent (Authorize (Some u) (Some p)) # t2 @ AEvent (Send [1, 0]) # t3
        \<and> \<not> rejected_by t2 False)"

lemma authorized_append:
  assumes "authorized tr"
  shows "authorized (tr @ xs)"
proof -
  obtain t1 u p t2 t3 where
    t: "tr = t1 @ AEvent (Authorize (Some u) (Some p)) # t2 @ AEvent (Send [1, 0]) # t3"
    and r: "\<not> rejected_by t2 False"
    using assms unfolding authorized_def by auto
  have "tr @ xs =
      t1 @ AEvent (Authorize (Some u) (Some p)) # t2 @ AEvent (Send [1, 0]) # (t3 @ xs)"
    by (simp add: t)
  then show ?thesis using r unfolding authorized_def by blast
qed

lemma rejected_by_append: "rejected_by (xs @ ys) v = rejected_by ys (rejected_by xs v)"
  by (induction xs v rule: rejected_by.induct) auto

lemma rejected_by_plain:
  "rejected_by [ARecv b] v = v" "rejected_by [AEvent e] v = v" "rejected_by [ARaise x] v = v"
  by simp_all

lemma decide_rejected: "sv_rejected (decide d s) = rejected_by [ADecide d] (sv_rejected s)"
  by (cases d) (simp_all add: sv_ok_def sv_reject_def sv_set_target_def sv_pipe_def
      sv_set_relay_raw_def sv_set_intercept_def sv_connected_def sv_set_connect_failed_def)

definition pending :: "('c, 'p) action list \<Rightarrow> bool \<Rightarrow> bool" where
  "pending tr v \<longleftrightarrow>
     (\<exists>t1 u p t2. tr = t1 @ AEvent (Authorize (Some u) (Some p)) # t2 \<and> v = rejected_by t2 False)"

lemma pending_append:
  assumes "pending tr v"
  shows "pending (tr @ xs) (rejected_by xs v)"
proof -
  obtain t1 u p t2 where t: "tr = t1 @ AEvent (Authorize (Some u) (Some p)) # t2"
    and v: "v = rejected_by t2 False"
    using assms unfolding pending_def by auto
  have "tr @ xs = t1 @ AEvent (Authorize (Some u) (Some p)) # (t2 @ xs)" by (simp add: t)
  moreover have "rejected_by xs v = rejected_by (t2 @ xs) False" by (simp add: v rejected_by_append)
  ultimately show ?thesis unfolding pending_def by blast
qed

lemma pending_start: "pending (tr @ [AEvent (Authorize (Some u) (Some p))]) False"
  unfolding pending_def by (rule exI [of _ tr]) auto

lemma pending_authorized:
  assumes "pending tr False"
  shows "authorized (tr @ [AEvent (Send [1, 0])])"
proof -
  obtain t1 u p t2 where t: "tr = t1 @ AEvent (Authorize (Some u) (Some p)) # t2"
    and r: "\<not> rejected_by t2 False"
    using assms unfolding pending_def by auto
  have "tr @ [AEvent (Send [1, 0])] =
      t1 @ AEvent (Authorize (Some u) (Some p)) # t2 @ AEvent (Send [1, 0]) # []"
    by (simp add: t)
  then show ?thesis using r unfolding authorized_def by blast
qed

definition queue_ok :: "('c, 'p) server_session \<Rightarrow> bool" where
  "queue_ok s \<longleftrightarrow> sv_out s = [] \<or> (\<exists>r. sv_out s = [Close r]) \<or>
     sv_state s = PRelay \<and> (\<exists>h p. sv_out s = [Relay h p])"

definition gate_inv :: "('c, 'p) action list \<Rightarrow> ('c, 'p) server_session \<Rightarrow> bool" where
  "gate_inv tr s \<longleftrightarrow>
     sv_require_auth s \<and> queue_ok s \<and>
     (sv_state s \<in> {PRequest, PConnectWait, PRelay} \<longrightarrow> authorized tr) \<and>
     (sv_state s = PAuthWait \<longrightarrow> pending tr (sv_rejected s))"

lemma queue_event:
  assumes "queue_ok s" "sv_out s \<noteq> []" "next_event I s = (r, s')"
  shows "\<exists>e. r = Inr e \<and> s' = s\<lparr>sv_out := []\<rparr> \<and>
    ((\<exists>c. e = Close c) \<or> sv_state s = PRelay \<and> (\<exists>h p. e = Relay h p))"
  using assms by (auto simp: queue_ok_def next_event_def)

lemma step_gate:
  assumes inv: "gate_inv tr s" and o': "sv_out s = []" and st: "server_step I s = (r, s')"
  shows "gate_inv (tr @ [case r of Inr e \<Rightarrow> AEvent e | Inl x \<Rightarrow> ARaise x]) s'"
proof -
  have ra: "sv_require_auth s" and q: "queue_ok s'" and ra': "sv_require_auth s'"
    using inv server_step_require_auth [OF st] server_step_out [OF o' st]
    by (auto simp: gate_inv_def queue_ok_def)
  note ok = ra' q authorized_append pending_append
  show ?thesis
  proof (cases "sv_state s")
    case PGreeting
    then have "step_greeting s = (r, s')" using st by (simp add: server_step_def)
    then show ?thesis
      by (cases rule: step_greeting_cases [OF o', consumes 1])
         (use ok ra PGreeting in \<open>auto simp: gate_inv_def\<close>)
  next
    case PAuth
    then have "step_auth s = (r, s')" using st by (simp add: server_step_def)
    then show ?thesis
      by (cases rule: step_auth_cases [OF o', consumes 1])
         (use ok PAuth pending_start in \<open>auto simp: gate_inv_def\<close>)
  next
    case PAuthWait
    then show ?thesis
      using st inv ok pending_authorized [of tr]
      by (auto simp: server_step_def step_auth_wait_cases [OF o'] gate_inv_def split: if_splits)
  next
    case PRequest
    then have "step_request I s = (r, s')" using st by (simp add: server_step_def)
    then show ?thesis
      by (cases rule: step_request_cases [OF o', consumes 1])
         (use ok PRequest inv in \<open>auto simp: gate_inv_def\<close>)
  next
    case PConnectWait
    then have "step_connect_wait I s = (r, s')" using st by (simp add: server_step_def)
    then show ?thesis
      by (cases rule: step_connect_wait_cases [OF o', consumes 1])
         (use ok PConnectWait inv in \<open>auto simp: gate_inv_def\<close>)
  qed (use st ok in \<open>auto simp: server_step_def gate_inv_def\<close>)
qed

lemma event_gate:
  assumes inv: "gate_inv tr s" and n: "next_event I s = (r, s')"
  shows "gate_inv (tr @ [case r of Inr e \<Rightarrow> AEvent e | Inl x \<Rightarrow> ARaise x]) s'"
proof (cases "sv_out s = []")
  case True
  with n have "server_step I s = (r, s')" by (simp add: next_event_def)
  then show ?thesis by (rule step_gate [OF inv True])
next
  case False
  have "queue_ok s" using inv by (simp add: gate_inv_def)
  from queue_event [OF this False n] obtain e where "r = Inr e" "s' = s\<lparr>sv_out := []\<rparr>" by blast
  then show ?thesis
    using inv authorized_append [of tr "[AEvent e]"] pending_append [of tr "sv_rejected s" "[AEvent e]"]
    by (auto simp: gate_inv_def queue_ok_def)
qed

lemma trace_gate: "sv_trace I True tr s \<Longrightarrow> gate_inv tr s"
proof (induction rule: sv_trace.induct)
  case trace_start
  then show ?case by (simp add: gate_inv_def server_init_def queue_ok_def)
next
  case (trace_act tr s a s')
  show ?case
  proof (cases a)
    case (ADecide d)
    then show ?thesis
      using trace_act authorized_append [of tr "[a]"] pending_append [of tr "sv_rejected s" "[a]"]
      by (auto simp: gate_inv_def queue_ok_def decide_rejected)
  next
    case (ARecv b)
    then show ?thesis
      using trace_act authorized_append [of tr "[a]"] pending_append [of tr "sv_rejected s" "[a]"]
      by (auto simp: gate_inv_def queue_ok_def)
  next
    case (AEvent e)
    then show ?thesis using trace_act event_gate [of tr s I "Inr e" s'] by simp
  next
    case (ARaise x)
    then show ?thesis using trace_act event_gate [of tr s I "Inl x" s'] by simp
  qed
qed

text \<open>Events by which the session lets a client through.\<close>

fun forwards :: "event \<Rightarrow> bool" where
  "forwards (Connect c h p) = True"
| "forwards (Relay h p) = True"
| "forwards _ = False"

lemma forwards_phase:
  assumes q: "queue_ok s" and n: "next_event I s = (Inr e, s')" and f: "forwards e"
  shows "sv_state s \<in> {PRequest, PConnectWait, PRelay}"
proof (cases "sv_out s = []")
  case False
  from queue_event [OF q False n] f show ?thesis by auto
next
  case o': True
  with n have st: "server_step I s = (Inr e, s')" by (simp add: next_event_def)
  show ?thesis
  proof (cases "sv_state s")
    case PGreeting
    then have "step_greeting s = (Inr e, s')" using st by (simp add: server_step_def)
    then show ?thesis by (cases rule: step_greeting_cases [OF o', consumes 1]) (use f in auto)
  next
    case PAuth
    then have "step_auth s = (Inr e, s')" using st by (simp add: server_step_def)
    then show ?thesis by (cases rule: step_auth_cases [OF o', consumes 1]) (use f in auto)
  qed (use st f o' in \<open>auto simp: server_step_def step_auth_wait_cases split: if_splits\<close>)
qed

section \<open>Phases and exceptions\<close>

lemma step_phase:
  assumes o': "sv_out s = []" and st: "server_step I s = (r, s')"
  shows "sv_state s \<le> sv_state s'"
proof (cases "sv_state s")
  case PGreeting
  then show ?thesis by (simp add: less_eq_sv_phase_def)
next
  case PAuth
  then have "step_auth s = (r, s')" using st by (simp add: server_step_def)
  then show ?thesis
    by (cases rule: step_auth_cases [OF o', consumes 1])
       (use PAuth in \<open>auto simp: less_eq_sv_phase_def\<close>)
next
  case PRequest
  then have "step_request I s = (r, s')" using st by (simp add: server_step_def)
  then show ?thesis
    by (cases rule: step_request_cases [OF o', consumes 1])
       (use PRequest in \<open>auto simp: less_eq_sv_phase_def\<close>)
next
  case PConnectWait
  then have "step_connect_wait I s = (r, s')" using st by (simp add: server_step_def)
  then show ?thesis
    by (cases rule: step_connect_wait_cases [OF o', consumes 1])
       (use PConnectWait in \<open>auto simp: less_eq_sv_phase_def\<close>)
qed (use st in \<open>auto simp: server_step_def step_auth_wait_cases [OF o'] less_eq_sv_phase_def split: if_splits\<close>)

lemma next_event_phase: "next_event I s = (r, s') \<Longrightarrow> sv_state s \<le> sv_state s'"
  using step_phase [of s I r s'] by (auto simp: next_event_def split: list.splits)

text \<open>The bytes that can be waiting in each phase while the session asks for more.\<close>

fun wait_limit :: "sv_phase \<Rightarrow> nat" where
  "wait_limit PGreeting = 256"
| "wait_limit PAuth = 513"
| "wait_limit PRequest = 261"
| "wait_limit _ = 0"

lemma waits_within:
  assumes i: "sv_invar s" and n: "next_event I s = (Inr NeedData, s')"
  shows "s' = s \<and> sv_state s \<in> {PGreeting, PAuth, PRequest} \<and> length (sv_buf s) \<le> wait_limit (sv_state s)"
proof -
  have s': "s' = s" and o': "sv_out s = []" using next_event_waits [OF i n] by simp_all
  then have st: "server_step I s = (Inr NeedData, s)" using n by (simp add: next_event_def)
  show ?thesis
  proof (cases "sv_state s")
    case PGreeting
    then have "step_greeting s = (Inr NeedData, s)" using st by (simp add: server_step_def)
    then show ?thesis by (cases rule: step_greeting_cases [OF o', consumes 1]) (use PGreeting s' in auto)
  next
    case PAuth
    then have "step_auth s = (Inr NeedData, s)" using st by (simp add: server_step_def)
    then show ?thesis by (cases rule: step_auth_cases [OF o', consumes 1]) (use PAuth s' in auto)
  next
    case PRequest
    then have "step_request I s = (Inr NeedData, s)" using st by (simp add: server_step_def)
    then show ?thesis by (cases rule: step_request_cases [OF o', consumes 1]) (use PRequest s' in auto)
  next
    case PConnectWait
    then have "step_connect_wait I s = (Inr NeedData, s)" using st by (simp add: server_step_def)
    then show ?thesis by (cases rule: step_connect_wait_cases [OF o', consumes 1]) auto
  qed (use st o' in \<open>auto simp: server_step_def step_auth_wait_cases split: if_splits\<close>)
qed

lemma trace_invar: "sv_trace I ra tr s \<Longrightarrow> sv_invar s"
proof (induction rule: sv_trace.induct)
  case trace_start
  then show ?case by (simp add: sv_invar_def server_init_def)
next
  case (trace_act tr s a s')
  then show ?case
    using next_event_invar [of s I _ s'] by (cases a) (auto simp: sv_invar_def)
qed

text \<open>Exceptions of the reply builder.\<close>

lemma py_reply_Inl:
  assumes "py_reply I rep h p = Inl x"
  shows "x = OverflowErr \<or> x = UnicodeEncodeErr \<or> (\<exists>m. x = ValueErr m)"
proof -
  have v: "value_error r = Inl y \<Longrightarrow> \<exists>m. y = ValueErr m" for r y by (cases r) auto
  show ?thesis
    using assms
    by (auto simp: py_reply_def bind_res_Inl c_int_arg_def c_str_arg_def c_str_len_arg_def
        in_range_def dest!: v split: if_splits option.splits)
qed

lemma connect_wait_Inl:
  assumes "step_connect_wait I s = (Inl x, s')"
  shows "x = RuntimeErr ''connect_wait: no upstream decision was made'' \<or>
    x = OverflowErr \<or> x = UnicodeEncodeErr \<or> (\<exists>m. x = ValueErr m)"
  using assms
  by (auto simp: step_connect_wait_def emit_send_def emit_def Let_def dest!: py_reply_Inl
      split: if_splits option.splits sum.splits list.splits)

lemma next_event_raises:
  assumes n: "next_event I s = (Inl x, s')"
  shows "x = UnicodeDecodeErr \<and> s' = s \<and> sv_state s \<in> {PAuth, PRequest} \<or>
    sv_state s = PConnectWait \<and>
      (x = RuntimeErr ''connect_wait: no upstream decision was made'' \<or>
       x = OverflowErr \<or> x = UnicodeEncodeErr \<or> (\<exists>m. x = ValueErr m))"
proof -
  have o': "sv_out s = []" and st: "server_step I s = (Inl x, s')"
    using n by (auto simp: next_event_def split: list.splits)
  show ?thesis
  proof (cases "sv_state s")
    case PGreeting
    then have "step_greeting s = (Inl x, s')" using st by (simp add: server_step_def)
    then show ?thesis by (cases rule: step_greeting_cases [OF o', consumes 1]) auto
  next
    case PAuth
    then have "step_auth s = (Inl x, s')" using st by (simp add: server_step_def)
    then show ?thesis by (cases rule: step_auth_cases [OF o', consumes 1]) (use PAuth in auto)
  next
    case PRequest
    then have "step_request I s = (Inl x, s')" using st by (simp add: server_step_def)
    then show ?thesis by (cases rule: step_request_cases [OF o', consumes 1]) (use PRequest in auto)
  next
    case PConnectWait
    then show ?thesis using st connect_wait_Inl [of I s x s'] by (simp add: server_step_def)
  qed (use st o' in \<open>auto simp: server_step_def step_auth_wait_cases split: if_splits\<close>)
qed

section \<open>Consequences of the automaton\<close>

text \<open>Positions of the phases on the way to the relay.\<close>

fun spec_rank :: "spec_phase \<Rightarrow> nat" where
  "spec_rank QGreeting = 0"
| "spec_rank QAuth = 0"
| "spec_rank QAuthWait = 0"
| "spec_rank QRequest = 0"
| "spec_rank QConnect = 1"
| "spec_rank QGranted = 1"
| "spec_rank QDenied = 2"
| "spec_rank QRelay = 2"
| "spec_rank QClosed = 3"

lemma spec_next_rank: "spec_next I ra q e = Some q' \<Longrightarrow> spec_rank q \<le> spec_rank q'"
  by (cases "(I, ra, q, e)" rule: spec_next.cases) (auto split: if_splits option.splits)

lemma spec_run_rank: "spec_run I ra q es = Some q' \<Longrightarrow> spec_rank q \<le> spec_rank q'"
proof (induction es arbitrary: q)
  case (Cons e es)
  then obtain t where "spec_next I ra q e = Some t" "spec_run I ra t es = Some q'"
    by (auto split: option.splits)
  then show ?case using spec_next_rank [of I ra q e t] Cons.IH [of t] by simp
qed simp

lemma spec_connect: "spec_next I ra q (Connect c h p) = Some q' \<Longrightarrow> q = QRequest \<and> q' = QConnect \<and> c = 1"
  by (cases q) (auto split: if_splits)

lemma spec_relay: "spec_next I ra q (Relay h p) = Some q' \<Longrightarrow> (q = QConnect \<or> q = QGranted) \<and> q' = QRelay"
  by (cases q) auto

lemma spec_closed: "spec_run I ra QClosed es = Some q \<Longrightarrow> \<forall>e \<in> set es. \<exists>r. e = Close r"
proof (induction es)
  case (Cons e es)
  then show ?case by (cases e) auto
qed simp

lemma spec_close: "spec_next I ra q (Close r) = Some q' \<Longrightarrow> q' = QClosed"
  by (cases q) (auto split: if_splits)

text \<open>A run that goes round an event passes through the phases before and behind it.\<close>

lemma spec_run_at:
  assumes "spec_run I ra q (xs @ e # ys) = Some q'"
  obtains a b where "spec_run I ra q xs = Some a" "spec_next I ra a e = Some b"
    "spec_run I ra b ys = Some q'"
  using assms by (auto simp: spec_run_append split: option.splits)

end
