(* ===== verification/Messages.thy ===== *)
theory Messages
  imports ClientSessionFacts ServerInvariants
begin

text \<open>
  What the parsers read in a message that a builder of the binding made, and what the server
  session does with such a message at the front of its buffer.
\<close>

section \<open>Built messages\<close>

lemma py_request_reply: "py_request I c h p = Inr w \<longleftrightarrow> py_reply I c h p = Inr w"
  by (auto simp: py_request_def py_reply_def result_simps request_eq)

lemma py_parse_request_reply: "py_parse_request = py_parse_reply"
  by (rule ext)+ (simp add: py_parse_request_def py_parse_reply_def parse_request_eq)

lemma py_request_built:
  assumes "posix_inet I" "py_request I cmd host port = Inr w"
  shows "py_parse_request I (w @ ys) = Inr (Some (cmd, seen_host I host, port))"
    and "message_len (w @ ys) = Some (length w)"
  using py_reply_built [OF assms(1), of cmd host port w ys] assms(2)
  by (simp_all add: py_request_reply py_parse_request_reply)

lemma userpass_built:
  assumes "userpass_auth u p = Inr w"
  shows "parse_userpass (w @ ys) = Some (u, p)" "userpass_len (w @ ys) = length w"
proof -
  have l: "length u \<le> 255" "length p \<le> 255"
    and w: "w = [kAuthVer, size8 u] @ u @ [size8 p] @ p"
    using assms by (auto simp: userpass_auth_def split: if_splits)
  have n: "(w @ ys) ! 1 = size8 u" "(w @ ys) ! (2 + length u) = size8 p"
    by (simp_all add: w nth_append)
  show "userpass_len (w @ ys) = length w"
    using n l by (simp add: userpass_len_def unat_size8 del: positions) (simp add: w)
  then show "parse_userpass (w @ ys) = Some (u, p)"
    using n l by (simp add: parse_userpass_Some unat_size8 del: positions) (simp add: w eval_nat_numeral)
qed

lemma py_userpass_built:
  assumes "py_userpass_auth user pass = Inr w"
  shows "py_parse_userpass (w @ ys) = Inr (Some (user, pass))" "userpass_len (w @ ys) = length w"
proof -
  obtain u p where e: "utf8_encode user = Some u" "utf8_encode pass = Some p"
    and w: "userpass_auth u p = Inr w"
    using assms by (auto simp: py_userpass_auth_def result_simps)
  show "userpass_len (w @ ys) = length w" by (rule userpass_built(2) [OF w])
  show "py_parse_userpass (w @ ys) = Inr (Some (user, pass))"
    using userpass_built(1) [OF w, of ys] utf8_decode_encode [OF e(1)] utf8_decode_encode [OF e(2)]
    by (simp add: py_parse_userpass_def py_str_result_def)
qed

lemma client_greeting_built:
  assumes "client_greeting ms = Inr w"
  shows "parse_greeting (w @ ys) = Some ms" "greeting_len (w @ ys) = length w"
  using assms
  by (auto simp: client_greeting_def parse_greeting_Some greeting_len_def unat_size8 split: if_splits)

lemma udp_built:
  assumes I: "posix_inet I" and b: "udp_encapsulate I dst payload frag = Inr w"
  shows "udp_decapsulate I w =
    Some (frag, \<lparr>a_host = canon_host I (a_host dst), a_port = a_port dst\<rparr>, payload)"
proof -
  obtain v t where e: "encode_address I [0, 0, frag] dst = Inr (v, t)" and w: "w = v @ payload"
    using b by (auto simp: udp_encapsulate_def split: sum.splits)
  then have v: "v = [0, 0, frag] @ addr_wire I dst" by (simp add: encode_address_wire)
  have "addr_wire I dst \<noteq> []" by (auto simp: addr_wire_def split: prod.splits)
  then show ?thesis
    using decode_address_wire [OF I e, of payload] v w
    by (cases "addr_wire I dst") (auto simp: udp_decapsulate_def numeral_3_eq_3)
qed

lemma seen_host_built:
  assumes I: "posix_inet I" and h: "utf8_encode host = Some h" "0 \<notin> set h"
  shows "utf8_encode (seen_host I host) = Some (canon_host I h)" "0 \<notin> set (canon_host I h)"
proof -
  show "utf8_encode (seen_host I host) = Some (canon_host I h)"
    by (rule utf8_encode_decode [OF seen_host_decodes [OF I h(1)]])
  show "0 \<notin> set (canon_host I h)"
    using canon_host_cases [OF I, of h] h(2) by (auto simp: c_text_def)
qed

lemma addr_wire_canon:
  assumes "posix_inet I"
  shows "encode_address I out \<lparr>a_host = canon_host I h, a_port = p\<rparr> =
    encode_address I out \<lparr>a_host = h, a_port = p\<rparr>"
  using canon_host_idem [OF assms, of h] by (auto simp: encode_address_def split: prod.split)

section \<open>The server session on built messages\<close>

lemma poll_some: "next_event I s = (r, s') \<Longrightarrow> r \<noteq> Inr NeedData \<Longrightarrow> sv_poll I s = (Some r, s')"
  by (simp add: sv_poll_def)

lemma poll_queue:
  "sv_out s = e # es \<Longrightarrow> e \<noteq> NeedData \<Longrightarrow> sv_poll I s = (Some (Inr e), s\<lparr>sv_out := es\<rparr>)"
  by (rule poll_some) (simp_all add: next_event_def)

lemma poll_greeting:
  assumes "sv_out s = []" "sv_state s = PGreeting" "sv_buf s = [5, 1, m] @ rest"
    and "m = 0 \<and> \<not> sv_require_auth s \<or> m = 2 \<and> sv_require_auth s"
  shows "sv_poll I s = (Some (Inr (Send [5, m])),
    s\<lparr>sv_buf := rest, sv_state := (if sv_require_auth s then PAuth else PRequest)\<rparr>)"
proof (rule poll_some)
  have p: "parse_greeting (5 # 1 # m # rest) = Some [m]" by (simp add: parse_greeting_def)
  show "next_event I s = (Inr (Send [5, m]),
      s\<lparr>sv_buf := rest, sv_state := (if sv_require_auth s then PAuth else PRequest)\<rparr>)"
    using assms p
    by (auto simp: next_event_def server_step_def step_greeting_def py_parse_greeting_def
        queue_simps Let_def)
qed simp

lemma poll_auth:
  assumes "sv_out s = []" "sv_state s = PAuth" "sv_buf s = a @ rest"
    and a: "py_userpass_auth u p = Inr a"
  shows "sv_poll I s = (Some (Inr (Authorize (Some u) (Some p))),
    s\<lparr>sv_buf := rest, sv_rejected := False, sv_state := PAuthWait\<rparr>)"
proof (rule poll_some)
  note b = py_userpass_built [OF a, of rest]
  have "3 + unat ((a @ rest) ! 1) + unat ((a @ rest) ! (2 + unat ((a @ rest) ! 1))) = length a"
    using b(2) by (simp only: userpass_len_def)
  then show "next_event I s = (Inr (Authorize (Some u) (Some p)),
      s\<lparr>sv_buf := rest, sv_rejected := False, sv_state := PAuthWait\<rparr>)"
    using assms(1-3) b(1)
    by (simp add: next_event_def server_step_def step_auth_def Let_def del: positions)
qed simp

lemma poll_auth_wait:
  assumes "sv_out s = []" "sv_state s = PAuthWait" "\<not> sv_rejected s"
  shows "sv_poll I s = (Some (Inr (Send [1, 0])), s\<lparr>sv_state := PRequest\<rparr>)"
  using assms by (intro poll_some) (simp_all add: next_event_def server_step_def step_auth_wait_cases)

lemma poll_request:
  assumes "posix_inet I" "sv_out s = []" "sv_state s = PRequest" "sv_buf s = r @ rest"
    and r: "py_request I 1 h p = Inr r"
  shows "sv_poll I s = (Some (Inr (Connect 1 (seen_host I h) p)),
    s\<lparr>sv_buf := rest, sv_cmd := 1, sv_target := Some (seen_host I h, p), sv_rejected := False,
      sv_connected_bnd := None, sv_connect_failed := False, sv_state := PConnectWait\<rparr>)"
proof (rule poll_some)
  note b = py_request_built(1) [OF assms(1) r, of "[]"] py_request_built(2) [OF assms(1) r, of rest]
  show "next_event I s = (Inr (Connect 1 (seen_host I h) p),
      s\<lparr>sv_buf := rest, sv_cmd := 1, sv_target := Some (seen_host I h, p), sv_rejected := False,
        sv_connected_bnd := None, sv_connect_failed := False, sv_state := PConnectWait\<rparr>)"
    using assms(2-4) b
    by (simp add: next_event_def server_step_def step_request_def request_len_len Let_def)
qed simp

lemma poll_grant:
  assumes "sv_out s = []" "sv_state s = PConnectWait"
    and "\<not> sv_relay_raw s" "\<not> sv_rejected s" "\<not> sv_connect_failed s"
    and "sv_connected_bnd s = Some (bh, bp)" "sv_target s = Some (h, p)"
    and "py_reply I 0 bh bp = Inr w"
  shows "sv_poll I s = (Some (Inr (Send w)), s\<lparr>sv_state := PRelay, sv_out := [Relay h p]\<rparr>)"
  using assms
  by (intro poll_some)
     (simp_all add: next_event_def server_step_def step_connect_wait_def queue_simps)

end
