(* ===== verification/SampleTraces.thy ===== *)
theory SampleTraces
  imports Messages InetText
begin

text \<open>
  Traces of complete sessions, built from the rules of the theory \<open>Messages\<close>: concrete instances
  for the properties of all traces.
\<close>

lemma trace_recv_close:
  "sv_trace I False [ARecv [4], AEvent (Close ''not a SOCKS5 greeting (bad version)'')]
     (server_init False \<lparr>sv_buf := [4], sv_state := PClosed\<rparr> :: ('c, 'p) server_session)"
proof -
  let ?s = "server_init False :: ('c, 'p) server_session"
  have n: "next_event I (receive ?s [4]) =
      (Inr (Close ''not a SOCKS5 greeting (bad version)''), ?s\<lparr>sv_buf := [4], sv_state := PClosed\<rparr>)"
    by (simp add: next_event_def server_step_def step_greeting_def emit_def server_init_def receive_def)
  have "sv_trace I False ([] @ [ARecv [4]]) (receive ?s [4])"
    by (rule trace_act [OF trace_start]) simp
  from trace_act [OF this act_event [OF n]] show ?thesis by simp
qed

text \<open>A complete trace with a login, for any built messages.\<close>

lemma trace_poll:
  assumes "sv_trace I ra tr s" "sv_poll I s = (Some (Inr e), s')"
  shows "sv_trace I ra (tr @ [AEvent e]) s'"
proof (rule trace_act [OF assms(1)])
  show "sv_act I (AEvent e) s s'"
    using assms(2) by (auto simp: sv_poll_def split: prod.splits if_splits)
qed

definition login_trace ::
  "bytes \<Rightarrow> pystr \<Rightarrow> pystr \<Rightarrow> pystr \<Rightarrow> int \<Rightarrow> pystr \<Rightarrow> int \<Rightarrow> bytes \<Rightarrow> ('c, 'p) action list" where
  "login_trace data u p h port bh bp w =
     [ARecv data, AEvent (Send [5, 2]), AEvent (Authorize (Some u) (Some p)), ADecide (DOk None),
      AEvent (Send [1, 0]), AEvent (Connect 1 h port), ADecide (DConnected bh bp),
      AEvent (Send w), AEvent (Relay h port)]"

lemma login_trace_run:
  assumes I: "posix_inet I" and a: "py_userpass_auth u p = Inr a"
    and r: "py_request I 1 host port = Inr r" and w: "py_reply I 0 bh bp = Inr w"
  shows "\<exists>s :: ('c, 'p) server_session.
    sv_trace I True (login_trace ([5, 1, 2] @ a @ r @ rest) u p (seen_host I host) port bh bp w) s"
proof -
  let ?s0 = "receive (server_init True) ([5, 1, 2] @ a @ r @ rest) :: ('c, 'p) server_session"
  have t0: "sv_trace I True ([] @ [ARecv ([5, 1, 2] @ a @ r @ rest)]) ?s0"
    by (rule trace_act [OF trace_start]) simp
  note t1 = trace_poll [OF t0 poll_greeting [of ?s0 2 "a @ r @ rest" I]]
  let ?s1 = "?s0\<lparr>sv_buf := a @ r @ rest, sv_state := PAuth\<rparr>"
  have t1: "sv_trace I True [ARecv ([5, 1, 2] @ a @ r @ rest), AEvent (Send [5, 2])] ?s1"
    using t1 by (simp add: server_init_def)
  note t2 = trace_poll [OF t1 poll_auth [OF _ _ _ a]]
  let ?s2 = "?s1\<lparr>sv_buf := r @ rest, sv_rejected := False, sv_state := PAuthWait\<rparr>"
  have t2: "sv_trace I True [ARecv ([5, 1, 2] @ a @ r @ rest), AEvent (Send [5, 2]),
      AEvent (Authorize (Some u) (Some p))] ?s2"
    using t2 [of "r @ rest"] by (simp add: server_init_def)
  let ?s3 = "sv_ok None ?s2"
  have t3: "sv_trace I True ([ARecv ([5, 1, 2] @ a @ r @ rest), AEvent (Send [5, 2]),
      AEvent (Authorize (Some u) (Some p))] @ [ADecide (DOk None)]) ?s3"
    by (rule trace_act [OF t2]) simp
  have o3: "sv_out ?s3 = []" "sv_state ?s3 = PAuthWait" "\<not> sv_rejected ?s3" "sv_buf ?s3 = r @ rest"
    "\<not> sv_relay_raw ?s3"
    by (simp_all add: sv_ok_def server_init_def)
  note t4 = trace_poll [OF t3 poll_auth_wait [OF o3(1-3)]]
  let ?s4 = "?s3\<lparr>sv_state := PRequest\<rparr>"
  have o4: "sv_out ?s4 = []" "sv_state ?s4 = PRequest" "sv_buf ?s4 = r @ rest" using o3 by simp_all
  note t5 = trace_poll [OF t4 poll_request [OF I o4 r]]
  let ?s5 = "?s4\<lparr>sv_buf := rest, sv_cmd := 1, sv_target := Some (seen_host I host, port),
      sv_rejected := False, sv_connected_bnd := None, sv_connect_failed := False,
      sv_state := PConnectWait\<rparr>"
  let ?s6 = "sv_connected bh bp ?s5"
  note t6 = trace_act [OF t5 act_decide [of I "DConnected bh bp" ?s5]]
  have o6: "sv_out ?s6 = []" "sv_state ?s6 = PConnectWait" "\<not> sv_relay_raw ?s6" "\<not> sv_rejected ?s6"
    "\<not> sv_connect_failed ?s6" "sv_connected_bnd ?s6 = Some (bh, bp)"
    "sv_target ?s6 = Some (seen_host I host, port)"
    using o3 by (simp_all add: sv_connected_def)
  note t7 = trace_poll [OF t6 [unfolded decide.simps] poll_grant [OF o6 w]]
  let ?s7 = "?s6\<lparr>sv_state := PRelay, sv_out := [Relay (seen_host I host) port]\<rparr>"
  have p8: "sv_poll I ?s7 = (Some (Inr (Relay (seen_host I host) port)), ?s7\<lparr>sv_out := []\<rparr>)"
    by (rule poll_queue) simp_all
  have "sv_trace I True
      (login_trace ([5, 1, 2] @ a @ r @ rest) u p (seen_host I host) port bh bp w) (?s7\<lparr>sv_out := []\<rparr>)"
    using trace_poll [OF t7 p8] by (simp only: login_trace_def append.simps)
  then show ?thesis by (rule exI)
qed

lemma login_trace_example:
  "\<exists>s :: (unit, unit) server_session. sv_trace text_inet True
     (login_trace [5, 1, 2, 1, 1, 97, 1, 98, 5, 1, 0, 3, 1, 97, 0, 80] [97] [98] (seen_host text_inet [97]) 80
        [97] 1 [5, 0, 0, 3, 1, 97, 0, 1]) s"
proof -
  have q: "py_request text_inet 1 [97] 80 = Inr [5, 1, 0, 3, 1, 97, 0, 80]" by code_simp
  have a: "py_userpass_auth [97] [98] = Inr [1, 1, 97, 1, 98]" by code_simp
  have r: "py_reply text_inet 0 [97] 1 = Inr [5, 0, 0, 3, 1, 97, 0, 1]" by code_simp
  from login_trace_run [OF text_inet.posix_inet_axioms a q r, of "[]"] show ?thesis by simp
qed

text \<open>A request without login, up to its \<open>Connect\<close>.\<close>

lemma connect_trace_example:
  "\<exists>s :: (unit, unit) server_session.
     sv_trace text_inet False
       ([ARecv [5, 1, 0, 5, 1, 0, 3, 1, 97, 0, 80], AEvent (Send [5, 0])] @
        [AEvent (Connect 1 (seen_host text_inet [97]) 80)]) s \<and> \<not> sv_relay_raw s"
proof -
  let ?s0 = "receive (server_init False) [5, 1, 0, 5, 1, 0, 3, 1, 97, 0, 80] :: (unit, unit) server_session"
  let ?s1 = "?s0\<lparr>sv_buf := [5, 1, 0, 3, 1, 97, 0, 80], sv_state := PRequest\<rparr>"
  have q: "py_request text_inet 1 [97] 80 = Inr [5, 1, 0, 3, 1, 97, 0, 80]" by code_simp
  have t0: "sv_trace text_inet False ([] @ [ARecv [5, 1, 0, 5, 1, 0, 3, 1, 97, 0, 80]]) ?s0"
    by (rule trace_act [OF trace_start]) simp
  have p0: "sv_poll text_inet ?s0 = (Some (Inr (Send [5, 0])), ?s1)"
    using poll_greeting [of ?s0 0 "[5, 1, 0, 3, 1, 97, 0, 80]" text_inet] by (simp add: server_init_def)
  have o1: "sv_out ?s1 = []" "sv_state ?s1 = PRequest" "sv_buf ?s1 = [5, 1, 0, 3, 1, 97, 0, 80] @ []"
    by (simp_all add: server_init_def)
  note t = trace_poll [OF trace_poll [OF t0 p0] poll_request [OF text_inet.posix_inet_axioms o1 q]]
  show ?thesis
    unfolding append.append_Nil append.append_Cons
    by (intro exI conjI, rule t [unfolded append.append_Nil append.append_Cons])
       (simp add: server_init_def)
qed

end
