(* ===== verification/ServerProps.thy ===== *)
theory ServerProps
  imports SampleTraces
begin

text \<open>
  The properties of the server session: its traces refine the protocol automaton, nobody is
  let through without a login where one is required, chunk boundaries do not matter, closing is
  final, waiting is bounded, and how decisions become replies.
\<close>

section \<open>Chunk boundaries\<close>

text \<open>C6. Chunk boundaries do not matter to the server: under any policy of hooks and driver
  (which may look at everything in the session but its unread bytes), two ways of cutting one
  byte stream produce the same sequence of events and exceptions.\<close>

theorem server_chunking:
  assumes "concat cs = concat ds"
  shows "outcomes (sv_poll I) receive (react policy) n (server_init ra :: ('c, 'p) server_session) cs =
    outcomes (sv_poll I) receive (react policy) n (server_init ra) ds"
proof -
  have i: "sv_invar (server_init ra :: ('c, 'p) server_session)"
    by (simp add: sv_invar_def server_init_def)
  show ?thesis
    using server_run.outcomes_concat [OF i, of I policy n cs]
      server_run.outcomes_concat [OF i, of I policy n ds] assms by simp
qed

theorem server_chunking_witness:
  "outcomes (sv_poll text_inet) receive (react (\<lambda>r s. [DConnected (py_lit ''1.2.3.4'') 5])) 4
     (server_init False :: (unit, unit) server_session) [[5], [1, 0, 5, 1], [0, 1, 9, 9, 9, 9, 0, 80]] =
   outcomes (sv_poll text_inet) receive (react (\<lambda>r s. [DConnected (py_lit ''1.2.3.4'') 5])) 4
     (server_init False :: (unit, unit) server_session) [[5, 1, 0, 5, 1, 0, 1, 9, 9, 9, 9, 0, 80]]"
  by (rule server_chunking) simp

section \<open>The protocol\<close>

text \<open>C4. Every trace of a server session, whatever bytes arrive and whatever decisions are made
  between any two events, is a run of the protocol automaton: method selection, login, one
  request, its reply and the relay, in this order, each message well-formed, each refusal
  followed by \<^verbatim>\<open>Close\<close> and nothing else.\<close>

theorem server_refines_protocol:
  assumes "posix_inet I" "sv_trace I ra tr s"
  shows "\<exists>q. spec_run I ra QGreeting (events_of tr) = Some q \<and> phase_sim q (sv_state s) (sv_out s)"
  using trace_sim [OF assms] by (auto simp: sv_sim_def)

theorem server_refines_protocol_witness:
  "\<exists>q. spec_run text_inet False QGreeting
       (events_of [ARecv [4], AEvent (Close ''not a SOCKS5 greeting (bad version)'') :: (unit, unit) action])
     = Some q"
  using server_refines_protocol [OF text_inet.posix_inet_axioms trace_recv_close] by blast

section \<open>The authentication gate\<close>

text \<open>C3. No bypass of the login: with authentication required, before any \<^verbatim>\<open>Connect\<close> or
  \<^verbatim>\<open>Relay\<close> the session has asked for an authorization with a user name and a password, the
  decisions up to its answer did not reject it, and the success reply was emitted.\<close>

theorem server_auth_gate:
  assumes "sv_trace I True (pre @ AEvent e # post) s" and "forwards e"
  shows "authorized pre"
proof -
  obtain s1 s2 where t: "sv_trace I True pre s1" and n: "next_event I s1 = (Inr e, s2)"
    using trace_split [OF assms(1)] by auto
  from trace_gate [OF t] have g: "gate_inv pre s1" .
  then have "queue_ok s1" by (simp add: gate_inv_def)
  from forwards_phase [OF this n assms(2)] g show ?thesis by (simp add: gate_inv_def)
qed

theorem server_auth_gate_witness:
  "authorized (take 5 (login_trace [5, 1, 2, 1, 1, 97, 1, 98, 5, 1, 0, 3, 1, 97, 0, 80] [97] [98]
     (seen_host text_inet [97]) 80 [97] 1 [5, 0, 0, 3, 1, 97, 0, 1] :: (unit, unit) action list))"
proof -
  obtain s where t: "sv_trace text_inet True
     (login_trace [5, 1, 2, 1, 1, 97, 1, 98, 5, 1, 0, 3, 1, 97, 0, 80] [97] [98] (seen_host text_inet [97]) 80
        [97] 1 [5, 0, 0, 3, 1, 97, 0, 1] :: (unit, unit) action list) s"
    using login_trace_example by blast
  show ?thesis
    by (rule server_auth_gate [of text_inet _ "Connect 1 (seen_host text_inet [97]) 80" _ s])
       (use t in \<open>simp_all add: login_trace_def\<close>)
qed

section \<open>One connection per session\<close>

lemma spec_reach_connect:
  "spec_run I ra q es = Some q' \<Longrightarrow> q' \<in> {QConnect, QGranted, QRelay} \<Longrightarrow>
     q \<in> {QConnect, QGranted, QRelay} \<or> (\<exists>h p. Connect 1 h p \<in> set es)"
proof (induction es arbitrary: q)
  case (Cons e es)
  then obtain t where t: "spec_next I ra q e = Some t" "spec_run I ra t es = Some q'"
    by (auto split: option.splits)
  from t(1) have "t \<in> {QConnect, QGranted, QRelay} \<Longrightarrow>
      q \<in> {QConnect, QGranted, QRelay} \<or> (\<exists>h p. e = Connect 1 h p)"
    by (cases "(I, ra, q, e)" rule: spec_next.cases) (auto split: if_splits option.splits)
  with Cons.IH [OF t(2) Cons.prems(2)] show ?case by auto
qed auto

lemma spec_forward_rank:
  "spec_next I ra q e = Some q' \<Longrightarrow> forwards e \<Longrightarrow> spec_rank q \<le> 1 \<and> 1 \<le> spec_rank q'"
  by (cases "(I, ra, q, e)" rule: spec_next.cases) (auto split: if_splits option.splits)

lemma spec_no_forward:
  assumes "spec_run I ra q es = Some q'" "2 \<le> spec_rank q \<or> spec_rank q' = 0" "e \<in> set es"
  shows "\<not> forwards e"
proof
  assume f: "forwards e"
  obtain xs ys where "es = xs @ e # ys" using split_list [OF assms(3)] by blast
  then obtain a b where "spec_run I ra q xs = Some a" "spec_next I ra a e = Some b"
    "spec_run I ra b ys = Some q'"
    using assms(1) spec_run_at [of I ra q xs e ys q'] by blast
  then show False
    using spec_run_rank [of I ra q xs a] spec_run_rank [of I ra b ys q'] spec_forward_rank [of I ra a e b]
      assms(2) f by auto
qed

lemma trace_at:
  assumes "posix_inet I" "sv_trace I ra (pre @ AEvent e # post) s"
  obtains a b q where "spec_run I ra QGreeting (events_of pre) = Some a"
    "spec_next I ra a e = Some b" "spec_run I ra b (events_of post) = Some q" "sv_sim ra q s"
proof -
  obtain q where "spec_run I ra QGreeting (events_of pre @ e # events_of post) = Some q" "sv_sim ra q s"
    using trace_sim [OF assms] by auto
  then show ?thesis using that by (auto elim: spec_run_at)
qed

text \<open>A session connects at most once, for the CONNECT command only: nothing is let through
  before the \<^verbatim>\<open>Connect\<close> event and no second one comes after it.\<close>

theorem server_connects_once:
  assumes "posix_inet I" "sv_trace I ra (pre @ AEvent (Connect c h p) # post) s"
  shows "c = cmd_value CONNECT \<and> (\<forall>e. AEvent e \<in> set pre \<longrightarrow> \<not> forwards e) \<and>
    (\<forall>c' h' p'. AEvent (Connect c' h' p') \<notin> set post)"
proof -
  obtain a b q where r: "spec_run I ra QGreeting (events_of pre) = Some a"
    "spec_next I ra a (Connect c h p) = Some b" "spec_run I ra b (events_of post) = Some q"
    using trace_at [OF assms] by blast
  from spec_connect [OF r(2)] have s: "a = QRequest" "b = QConnect" "c = 1" by simp_all
  have "\<not> forwards e" if "AEvent e \<in> set pre" for e
    using spec_no_forward [OF r(1), of e] that s by (simp add: events_of_mem)
  moreover have "AEvent (Connect c' h' p') \<notin> set post" for c' h' p'
  proof
    assume "AEvent (Connect c' h' p') \<in> set post"
    then obtain xs ys where e: "events_of post = xs @ Connect c' h' p' # ys"
      using split_list by (metis events_of_mem)
    from spec_run_at [OF r(3) [unfolded e]] obtain a' b' where
      n: "spec_run I ra b xs = Some a'" "spec_next I ra a' (Connect c' h' p') = Some b'" by blast
    with spec_connect [OF n(2)] spec_run_rank [OF n(1)] s show False by simp
  qed
  ultimately show ?thesis using s by simp
qed

theorem server_connects_once_witness:
  "(1 :: int) = cmd_value CONNECT \<and>
   (\<forall>c' h' p'. AEvent (Connect c' h' p') \<notin>
      set ([ADecide (DConnected [97] 1), AEvent (Send [5, 0, 0, 3, 1, 97, 0, 1]),
            AEvent (Relay (seen_host text_inet [97]) 80)] :: (unit, unit) action list))"
proof -
  obtain s where t: "sv_trace text_inet True
     (login_trace [5, 1, 2, 1, 1, 97, 1, 98, 5, 1, 0, 3, 1, 97, 0, 80] [97] [98] (seen_host text_inet [97]) 80
        [97] 1 [5, 0, 0, 3, 1, 97, 0, 1] :: (unit, unit) action list) s"
    using login_trace_example by blast
  have "sv_trace text_inet True
      (take 5 (login_trace [5, 1, 2, 1, 1, 97, 1, 98, 5, 1, 0, 3, 1, 97, 0, 80] [97] [98]
        (seen_host text_inet [97]) 80 [97] 1 [5, 0, 0, 3, 1, 97, 0, 1]) @
       AEvent (Connect 1 (seen_host text_inet [97]) 80) #
       [ADecide (DConnected [97] 1), AEvent (Send [5, 0, 0, 3, 1, 97, 0, 1]),
        AEvent (Relay (seen_host text_inet [97]) 80)]) s"
    using t by (simp add: login_trace_def)
  from server_connects_once [OF text_inet.posix_inet_axioms this] show ?thesis by blast
qed

text \<open>The relay starts only after a \<^verbatim>\<open>Connect\<close> for a parsed request, and it is the last thing
  let through: no \<^verbatim>\<open>Connect\<close> and no \<^verbatim>\<open>Relay\<close> follows it.\<close>

theorem server_relay_once:
  assumes "posix_inet I" "sv_trace I ra (pre @ AEvent (Relay h p) # post) s"
  shows "(\<exists>h' p'. AEvent (Connect (cmd_value CONNECT) h' p') \<in> set pre) \<and>
    (\<forall>e. AEvent e \<in> set post \<longrightarrow> \<not> forwards e)"
proof -
  obtain a b q where r: "spec_run I ra QGreeting (events_of pre) = Some a"
    "spec_next I ra a (Relay h p) = Some b" "spec_run I ra b (events_of post) = Some q"
    using trace_at [OF assms] by blast
  from spec_relay [OF r(2)] have s: "a \<in> {QConnect, QGranted, QRelay}" "b = QRelay" by auto
  have "\<not> forwards e" if "AEvent e \<in> set post" for e
    using spec_no_forward [OF r(3), of e] that s by (simp add: events_of_mem)
  then show ?thesis using spec_reach_connect [OF r(1) s(1)] by (auto simp: events_of_mem)
qed

theorem server_relay_once_witness:
  "\<exists>h' p'. AEvent (Connect (cmd_value CONNECT) h' p') \<in>
     set (take 8 (login_trace [5, 1, 2, 1, 1, 97, 1, 98, 5, 1, 0, 3, 1, 97, 0, 80] [97] [98]
        (seen_host text_inet [97]) 80 [97] 1 [5, 0, 0, 3, 1, 97, 0, 1] :: (unit, unit) action list))"
proof -
  obtain s where t: "sv_trace text_inet True
     (login_trace [5, 1, 2, 1, 1, 97, 1, 98, 5, 1, 0, 3, 1, 97, 0, 80] [97] [98] (seen_host text_inet [97]) 80
        [97] 1 [5, 0, 0, 3, 1, 97, 0, 1] :: (unit, unit) action list) s"
    using login_trace_example by blast
  have "sv_trace text_inet True
      (take 8 (login_trace [5, 1, 2, 1, 1, 97, 1, 98, 5, 1, 0, 3, 1, 97, 0, 80] [97] [98]
        (seen_host text_inet [97]) 80 [97] 1 [5, 0, 0, 3, 1, 97, 0, 1]) @
       AEvent (Relay (seen_host text_inet [97]) 80) # []) s"
    using t by (simp add: login_trace_def)
  from server_relay_once [OF text_inet.posix_inet_axioms this] show ?thesis by blast
qed

section \<open>Closing\<close>

text \<open>Closing is final: after a \<^verbatim>\<open>Close\<close> event, whatever bytes arrive and whatever is decided,
  every further event is a \<^verbatim>\<open>Close\<close> and nothing is raised.\<close>

theorem server_close_final:
  assumes "posix_inet I" "sv_trace I ra (pre @ AEvent (Close r) # post) s"
  shows "(\<forall>e. AEvent e \<in> set post \<longrightarrow> (\<exists>r'. e = Close r')) \<and> (\<forall>x. ARaise x \<notin> set post)"
proof -
  obtain a b q where r: "spec_run I ra QGreeting (events_of pre) = Some a"
    "spec_next I ra a (Close r) = Some b" "spec_run I ra b (events_of post) = Some q"
    using trace_at [OF assms] by blast
  note b = spec_close [OF r(2)]
  have "ARaise x \<notin> set post" for x
  proof
    assume "ARaise x \<in> set post"
    then obtain xs ys where p: "post = xs @ ARaise x # ys" using split_list by metis
    with assms(2) have "sv_trace I ra ((pre @ AEvent (Close r) # xs) @ ARaise x # ys) s" by simp
    from trace_split [OF this] obtain s1 s2 where
      t: "sv_trace I ra (pre @ AEvent (Close r) # xs) s1" and n: "next_event I s1 = (Inl x, s2)" by auto
    obtain a' b' q' where z: "spec_next I ra a' (Close r) = Some b'"
      "spec_run I ra b' (events_of xs) = Some q'" "sv_sim ra q' s1"
      using trace_at [OF assms(1) t] by metis
    have "q' = QClosed"
      using z(2) spec_run_rank [OF z(2)] spec_close [OF z(1)] by (cases q') auto
    then show False using z(3) n by (simp add: sv_sim_def next_event_def server_step_def)
  qed
  then show ?thesis using spec_closed [OF r(3) [unfolded b]] by (auto simp: events_of_mem)
qed

theorem server_close_final_witness:
  "\<exists>s :: (unit, unit) server_session.
     sv_trace text_inet False ([ARecv [4]] @ AEvent (Close ''not a SOCKS5 greeting (bad version)'') #
       [AEvent (Close ''closed'')]) s \<and>
     (\<exists>r. Close ''closed'' = Close r) \<and> ARaise IndexErr \<notin> set [AEvent (Close ''closed'') :: (unit, unit) action]"
proof -
  let ?s = "server_init False \<lparr>sv_buf := [4], sv_state := PClosed\<rparr> :: (unit, unit) server_session"
  have "next_event text_inet ?s = (Inr (Close ''closed''), ?s)"
    by (simp add: next_event_def server_step_def server_init_def)
  from trace_act [OF trace_recv_close act_event [OF this]]
  have t: "sv_trace text_inet False ([ARecv [4]] @ AEvent (Close ''not a SOCKS5 greeting (bad version)'') #
       [AEvent (Close ''closed'')]) ?s"
    by simp
  have m: "AEvent (Close ''closed'') \<in> set [AEvent (Close ''closed'') :: (unit, unit) action]" by simp
  note c = server_close_final [OF text_inet.posix_inet_axioms t]
  show ?thesis
    by (intro exI [of _ ?s] conjI, rule t, rule c [THEN conjunct1, rule_format, OF m],
        rule c [THEN conjunct2, rule_format])
qed

text \<open>The phases only move forward: no received byte, decision, event or exception takes a
  session back to an earlier phase.\<close>

theorem server_phase_forward:
  assumes "sv_act I a s s'"
  shows "sv_state s \<le> sv_state s'"
  using assms by (cases a) (auto dest: next_event_phase)

theorem server_phase_forward_witness:
  "sv_state (server_init True :: (unit, unit) server_session) \<le> sv_state (receive (server_init True :: (unit, unit) server_session) [5])"
  by (rule server_phase_forward [of text_inet "ARecv [5]"]) simp

end
