(* ===== verification/ServerVerdicts.thy ===== *)
theory ServerVerdicts
  imports SampleTraces
begin

text \<open>
  How the decisions between two events become the server's answer, how much a client can make
  the server keep, what the session raises, and what it does with malformed input.
\<close>

section \<open>Decisions after a Connect\<close>

text \<open>The last setting of each kind in a list of decisions.\<close>

fun last_rep :: "('c, 'p) decision list \<Rightarrow> int \<Rightarrow> int" where
  "last_rep [] r = r"
| "last_rep (DReject rep # ds) r = last_rep ds rep"
| "last_rep (DConnectFailed rep # ds) r = last_rep ds rep"
| "last_rep (_ # ds) r = last_rep ds r"

fun last_bound :: "('c, 'p) decision list \<Rightarrow> (pystr \<times> int) option \<Rightarrow> (pystr \<times> int) option" where
  "last_bound [] b = b"
| "last_bound (DConnected h p # ds) b = last_bound ds (Some (h, p))"
| "last_bound (_ # ds) b = last_bound ds b"

fun last_target :: "('c, 'p) decision list \<Rightarrow> pystr \<times> int \<Rightarrow> pystr \<times> int" where
  "last_target [] t = t"
| "last_target (DSetTarget h p # ds) t = last_target ds (h, p)"
| "last_target (_ # ds) t = last_target ds t"

definition refusal :: "inet_api \<Rightarrow> int \<Rightarrow> string \<Rightarrow> py_exn + event list" where
  "refusal I rep why =
     bind_res (py_reply I rep (py_lit ''0.0.0.0'') 0) (\<lambda>w. Inr [Send w, Close why])"

text \<open>
  What the session says after a \<open>Connect\<close> to \<open>t\<close> and the decisions \<open>ds\<close>; \<open>raw\<close> tells whether
  \<^verbatim>\<open>relay_raw\<close> has ever been called.
\<close>

definition verdict ::
  "inet_api \<Rightarrow> bool \<Rightarrow> ('c, 'p) decision list \<Rightarrow> pystr \<times> int \<Rightarrow> py_exn + event list" where
  "verdict I raw ds t =
     (let (h, p) = last_target ds t in
      if raw then Inr [Relay h p]
      else if rejected_by (map ADecide ds) False then refusal I (last_rep ds 0) ''request rejected''
      else if \<exists>rep. DConnectFailed rep \<in> set ds then refusal I (last_rep ds 0) ''upstream failed''
      else case last_bound ds None of
             Some (bh, bp) \<Rightarrow> bind_res (py_reply I 0 bh bp) (\<lambda>w. Inr [Send w, Relay h p])
           | None \<Rightarrow> Inl (RuntimeErr ''connect_wait: no upstream decision was made''))"

text \<open>The session emits these events, one call after the other.\<close>

fun emits :: "inet_api \<Rightarrow> ('c, 'p) server_session \<Rightarrow> event list \<Rightarrow> bool" where
  "emits I s [] = True"
| "emits I s (e # es) =
     (case next_event I s of
        (Inr e', s') \<Rightarrow> e' = e \<and> emits I s' es
      | _ \<Rightarrow> False)"

lemma decide_relay_raw: "sv_relay_raw (decide d s) \<longleftrightarrow> d = DRelayRaw \<or> sv_relay_raw s"
  by (cases d) (simp_all add: sv_ok_def sv_reject_def sv_set_target_def sv_pipe_def
      sv_set_relay_raw_def sv_set_intercept_def sv_connected_def sv_set_connect_failed_def)

lemma decide_failed:
  "sv_connect_failed (decide d s) \<longleftrightarrow> (\<exists>rep. d = DConnectFailed rep) \<or> sv_connect_failed s"
  by (cases d) (simp_all add: sv_ok_def sv_reject_def sv_set_target_def sv_pipe_def
      sv_set_relay_raw_def sv_set_intercept_def sv_connected_def sv_set_connect_failed_def)

lemma decide_last:
  "sv_rep (decide d s) = last_rep [d] (sv_rep s)"
  "sv_connected_bnd (decide d s) = last_bound [d] (sv_connected_bnd s)"
  "sv_target s = Some t \<Longrightarrow> sv_target (decide d s) = Some (last_target [d] t)"
  by (cases d; simp add: sv_ok_def sv_reject_def sv_set_target_def sv_pipe_def sv_set_relay_raw_def
      sv_set_intercept_def sv_connected_def sv_set_connect_failed_def)+

lemma last_append:
  "last_rep (ds @ es) r = last_rep es (last_rep ds r)"
  "last_bound (ds @ es) b = last_bound es (last_bound ds b)"
  "last_target (ds @ es) t = last_target es (last_target ds t)"
proof -
  show "last_rep (ds @ es) r = last_rep es (last_rep ds r)"
    by (induction ds r rule: last_rep.induct) auto
  show "last_bound (ds @ es) b = last_bound es (last_bound ds b)"
    by (induction ds b rule: last_bound.induct) auto
  show "last_target (ds @ es) t = last_target es (last_target ds t)"
    by (induction ds t rule: last_target.induct) auto
qed

lemmas decide_effects = decide_relay_raw decide_failed decide_last decide_rejected

lemma fold_decide_last:
  "sv_relay_raw (fold decide ds s) \<longleftrightarrow> DRelayRaw \<in> set ds \<or> sv_relay_raw s"
  "sv_connect_failed (fold decide ds s) \<longleftrightarrow> (\<exists>rep. DConnectFailed rep \<in> set ds) \<or> sv_connect_failed s"
  "sv_rep (fold decide ds s) = last_rep ds (sv_rep s)"
  "sv_connected_bnd (fold decide ds s) = last_bound ds (sv_connected_bnd s)"
  "sv_rejected (fold decide ds s) = rejected_by (map ADecide ds) (sv_rejected s)"
  by (induction ds rule: rev_induct)
     (auto simp: decide_effects last_append rejected_by_append)

lemma fold_decide_target:
  "sv_target s = Some t \<Longrightarrow> sv_target (fold decide ds s) = Some (last_target ds t)"
  by (induction ds rule: rev_induct) (simp_all add: decide_last last_append)

lemma last_rep_set:
  "rejected_by (map ADecide ds) False \<or> (\<exists>rep. DConnectFailed rep \<in> set ds) \<Longrightarrow>
     last_rep ds r = last_rep ds r'"
proof (induction ds r arbitrary: r' rule: last_rep.induct)
qed auto

lemma trace_queue: "sv_trace I ra tr s \<Longrightarrow> queue_ok s"
proof (induction rule: sv_trace.induct)
  case trace_start
  then show ?case by (simp add: queue_ok_def server_init_def)
next
  case (trace_act tr s a s')
  have "queue_ok s'" if n: "next_event I s = (r, s')" for r
  proof (cases "sv_out s = []")
    case True
    then show ?thesis using n server_step_out [OF True, of I r s'] by (simp add: next_event_def queue_ok_def)
  next
    case False
    from queue_event [OF trace_act.IH False n] show ?thesis by (auto simp: queue_ok_def)
  qed
  then show ?case using trace_act by (cases a) (auto simp: queue_ok_def)
qed

lemma connect_fresh:
  assumes q: "queue_ok s" and n: "next_event I s = (Inr (Connect c h p), s')"
  shows "sv_out s' = [] \<and> sv_state s' = PConnectWait \<and> sv_target s' = Some (h, p) \<and>
    \<not> sv_rejected s' \<and> sv_connected_bnd s' = None \<and> \<not> sv_connect_failed s'"
proof -
  have o': "sv_out s = []" using queue_event [OF q _ n] by auto
  then have st: "server_step I s = (Inr (Connect c h p), s')" using n by (simp add: next_event_def)
  show ?thesis
  proof (cases "sv_state s")
    case PGreeting
    then have "step_greeting s = (Inr (Connect c h p), s')" using st by (simp add: server_step_def)
    then show ?thesis by (cases rule: step_greeting_cases [OF o', consumes 1]) auto
  next
    case PAuth
    then have "step_auth s = (Inr (Connect c h p), s')" using st by (simp add: server_step_def)
    then show ?thesis by (cases rule: step_auth_cases [OF o', consumes 1]) auto
  next
    case PRequest
    then have "step_request I s = (Inr (Connect c h p), s')" using st by (simp add: server_step_def)
    then show ?thesis by (cases rule: step_request_cases [OF o', consumes 1]) (use o' in auto)
  next
    case PConnectWait
    then have "step_connect_wait I s = (Inr (Connect c h p), s')" using st by (simp add: server_step_def)
    then show ?thesis by (cases rule: step_connect_wait_cases [OF o', consumes 1]) auto
  qed (use st o' in \<open>auto simp: server_step_def step_auth_wait_cases split: if_splits\<close>)
qed

text \<open>\<^verbatim>\<open>relay_raw\<close> is never taken back.\<close>

lemma next_event_relay_raw: "next_event I s = (r, s') \<Longrightarrow> sv_relay_raw s' = sv_relay_raw s"
  by (auto simp: next_event_def server_step_def step_greeting_def step_auth_def step_auth_wait_def
      step_request_def step_connect_wait_def emit_send_def emit_def Let_def
      split: list.splits sv_phase.splits if_splits option.splits sum.splits prod.splits)

lemma trace_relay_raw: "sv_trace I ra tr s \<Longrightarrow> sv_relay_raw s \<longleftrightarrow> ADecide DRelayRaw \<in> set tr"
proof (induction rule: sv_trace.induct)
  case trace_start
  then show ?case by (simp add: server_init_def)
next
  case (trace_act tr s a s')
  then show ?case by (cases a) (auto simp: decide_relay_raw dest: next_event_relay_raw)
qed

text \<open>C21. The answer to a request depends only on the decisions made after its \<^verbatim>\<open>Connect\<close>, and on
  whether \<^verbatim>\<open>relay_raw\<close> was ever called, also before it, for instance by the authorize hook: that call
  is never taken back and wins, with a relay and no reply. Otherwise the answer is a refusal if the
  last of \<^verbatim>\<open>ok\<close> and \<^verbatim>\<open>reject\<close> was a \<^verbatim>\<open>reject\<close>, or if a connection failed; otherwise the last bound
  address, relayed to the last target. A refusal carries the code given last. The verdicts, failures, bound addresses and targets
  of before the \<^verbatim>\<open>Connect\<close> have no effect.\<close>

theorem server_verdict:
  assumes "sv_trace I ra (tr @ [AEvent (Connect c h p)]) s"
  shows "case verdict I (ADecide DRelayRaw \<in> set tr \<or> DRelayRaw \<in> set ds) ds (h, p) of
      Inl x \<Rightarrow> fst (next_event I (fold decide ds s)) = Inl x
    | Inr es \<Rightarrow> emits I (fold decide ds s) es"
proof -
  obtain s0 where "sv_trace I ra tr s0" and n: "next_event I s0 = (Inr (Connect c h p), s)"
    using trace_snocE [OF assms(1)] by (metis append1_eq_conv sv_act_simps(3))
  then have f: "sv_out s = []" "sv_state s = PConnectWait" "sv_target s = Some (h, p)"
    "\<not> sv_rejected s" "sv_connected_bnd s = None" "\<not> sv_connect_failed s"
    using connect_fresh [OF trace_queue n] by simp_all
  let ?s = "fold decide ds s" and ?raw = "ADecide DRelayRaw \<in> set tr \<or> DRelayRaw \<in> set ds"
  have st: "next_event I ?s = step_connect_wait I ?s"
    using f by (simp add: next_event_def server_step_def)
  have fields: "sv_out ?s = []" "sv_target ?s = Some (last_target ds (h, p))"
    "sv_rejected ?s = rejected_by (map ADecide ds) False"
    "sv_connected_bnd ?s = last_bound ds None"
    "sv_connect_failed ?s \<longleftrightarrow> (\<exists>rep. DConnectFailed rep \<in> set ds)"
    "sv_relay_raw ?s \<longleftrightarrow> ?raw"
    using f trace_relay_raw [OF assms] fold_decide_target [OF f(3), of ds]
    by (auto simp: fold_decide_last)
  have rep: "sv_rep ?s = last_rep ds 0"
    if "rejected_by (map ADecide ds) False \<or> (\<exists>rep. DConnectFailed rep \<in> set ds)"
    using last_rep_set [OF that] by (simp add: fold_decide_last)
  show ?thesis
    using rep f(1)
    by (cases ?raw) (auto simp: verdict_def refusal_def st step_connect_wait_def fields queue_simps Let_def
        next_event_def [of _ "_ \<lparr>sv_out := _\<rparr>"] split: sum.split option.split prod.split)
qed

theorem server_verdict_witness:
  "\<exists>s :: (unit, unit) server_session.
     (case verdict text_inet False ([DReject 2, DOk None, DConnected [97] 1] :: (unit, unit) decision list) (seen_host text_inet [97], 80) of
        Inl x \<Rightarrow> fst (next_event text_inet
          (fold decide [DReject 2, DOk None, DConnected [97] 1] s)) = Inl x
      | Inr es \<Rightarrow> emits text_inet (fold decide [DReject 2, DOk None, DConnected [97] 1] s) es)"
proof -
  obtain s :: "(unit, unit) server_session" where
    t: "sv_trace text_inet False
       ([ARecv [5, 1, 0, 5, 1, 0, 3, 1, 97, 0, 80], AEvent (Send [5, 0])] @
        [AEvent (Connect 1 (seen_host text_inet [97]) 80)]) s"
    using connect_trace_example by blast
  from server_verdict [OF t, of "[DReject 2, DOk None, DConnected [97] 1]"] show ?thesis by auto
qed

section \<open>Waiting is bounded\<close>

text \<open>A peer cannot make the session buffer without bound: while it asks for more bytes it is
  in a reading phase and holds at most 256 bytes of a greeting, 513 of a login or 261 of a
  request.\<close>

theorem server_wait_bound:
  assumes "sv_trace I ra tr s" "next_event I s = (Inr NeedData, s')"
  shows "s' = s \<and> sv_state s \<in> {PGreeting, PAuth, PRequest} \<and>
    length (sv_buf s) \<le> wait_limit (sv_state s)"
  by (rule waits_within [OF trace_invar [OF assms(1)] assms(2)])

theorem server_wait_bound_witness:
  "next_event text_inet (server_init True) = (Inr NeedData, server_init True :: (unit, unit) server_session) \<and>
   length (sv_buf (server_init True :: (unit, unit) server_session)) \<le> wait_limit PGreeting"
proof -
  have n: "next_event text_inet (server_init True) =
      (Inr NeedData, server_init True :: (unit, unit) server_session)"
    by (simp add: next_event_def server_step_def step_greeting_def py_parse_greeting_def
        parse_greeting_def server_init_def)
  from server_wait_bound [OF trace_start n] n show ?thesis by (simp add: server_init_def)
qed

text \<open>What the session can raise: \<^verbatim>\<open>UnicodeDecodeError\<close> in the login and request phases, with
  the state unchanged, so that the same call raises again; and when it answers a request, the
  missing-decision \<^verbatim>\<open>RuntimeError\<close> or an exception of the reply builder. Never anything else,
  and never in another phase.\<close>

theorem server_raises:
  assumes "next_event I s = (Inl x, s')"
  shows "x = UnicodeDecodeErr \<and> s' = s \<and> sv_state s \<in> {PAuth, PRequest} \<or>
    sv_state s = PConnectWait \<and>
      (x = RuntimeErr ''connect_wait: no upstream decision was made'' \<or>
       x = OverflowErr \<or> x = UnicodeEncodeErr \<or> (\<exists>m. x = ValueErr m))"
  by (rule next_event_raises [OF assms])

theorem server_raises_witness:
  "sv_state (server_init True \<lparr>sv_state := PConnectWait\<rparr> :: (unit, unit) server_session) \<noteq> PAuth \<and>
   next_event text_inet (server_init True \<lparr>sv_state := PConnectWait\<rparr> :: (unit, unit) server_session) =
     (Inl (RuntimeErr ''connect_wait: no upstream decision was made''),
      server_init True \<lparr>sv_state := PConnectWait\<rparr>)"
proof -
  let ?s = "server_init True \<lparr>sv_state := PConnectWait\<rparr> :: (unit, unit) server_session"
  have n: "next_event text_inet ?s = (Inl (RuntimeErr ''connect_wait: no upstream decision was made''), ?s)"
    by (simp add: next_event_def server_step_def step_connect_wait_def server_init_def)
  from server_raises [OF n] n show ?thesis by simp
qed

section \<open>Malformed input\<close>

lemma closed_outcomes:
  assumes "sv_state s = PClosed" "sv_out s = []"
  shows "outcomes (sv_poll I) receive (react policy) n s [] = replicate n (Inr (Close ''closed''))"
  using assms
proof (induction n arbitrary: s)
  case (Suc n)
  have "sv_poll I s = (Some (Inr (Close ''closed'')), s)"
    using Suc.prems by (intro poll_some) (simp_all add: next_event_def server_step_def)
  then show ?case using Suc.IH [of "react policy (Inr (Close ''closed'')) s"] Suc.prems by simp
qed simp

text \<open>A peer that does not speak SOCKS5 gets no reply of the protocol: when its first byte is
  not the version, the session says nothing but \<^verbatim>\<open>Close\<close>, under any hooks and in any
  chunks.\<close>

theorem server_foreign_peer:
  assumes "concat cs = b # rest" "b \<noteq> 5"
  shows "set (outcomes (sv_poll I) receive (react policy) n
      (server_init ra :: ('c, 'p) server_session) cs) \<subseteq> {Inr (Close r) | r. True}"
proof (cases n)
  case (Suc m)
  let ?s = "receive (server_init ra) (b # rest) :: ('c, 'p) server_session"
  let ?why = "''not a SOCKS5 greeting (bad version)''"
  have i: "sv_invar (server_init ra :: ('c, 'p) server_session)"
    by (simp add: sv_invar_def server_init_def)
  have p: "sv_poll I ?s = (Some (Inr (Close ?why)), ?s\<lparr>sv_state := PClosed\<rparr>)"
    using assms(2)
    by (intro poll_some) (simp_all add: next_event_def server_step_def step_greeting_def emit_def server_init_def)
  let ?t = "react policy (Inr (Close ?why)) (?s\<lparr>sv_state := PClosed\<rparr>)"
  have "outcomes (sv_poll I) receive (react policy) m ?t [] = replicate m (Inr (Close ''closed''))"
    by (rule closed_outcomes) (simp_all add: server_init_def)
  then have "outcomes (sv_poll I) receive (react policy) n (server_init ra) cs =
      Inr (Close ?why) # replicate m (Inr (Close ''closed''))"
    using server_run.outcomes_concat [OF i, of I policy n cs] p assms(1) Suc by simp
  then show ?thesis by auto
qed simp

theorem server_foreign_peer_witness:
  "set (outcomes (sv_poll text_inet) receive (react (\<lambda>r s. [])) 3
      (server_init False :: (unit, unit) server_session) [[71, 69, 84], [32, 47]]) \<subseteq> {Inr (Close r) | r. True}"
  by (rule server_foreign_peer [of _ 71 "[69, 84, 32, 47]"]) simp_all

text \<open>A login message of another version is not answered: the session keeps asking for bytes
  until more than 513 have arrived, and only then closes.\<close>

theorem server_foreign_login:
  assumes "sv_state s = PAuth" "sv_out s = []" "sv_buf s \<noteq> []" "sv_buf s ! 0 \<noteq> 1"
  shows "next_event I s =
    (if length (sv_buf s) \<le> 513 then (Inr NeedData, s)
     else (Inr (Close ''auth message too large''), s\<lparr>sv_state := PClosed\<rparr>))"
proof -
  have "parse_userpass (sv_buf s) = None" using assms(4) by (simp add: parse_userpass_def)
  then have "py_parse_userpass (sv_buf s) = Inr None" by (simp add: py_parse_userpass_None)
  then show ?thesis
    using assms by (simp add: next_event_def server_step_def step_auth_def emit_def)
qed

theorem server_foreign_login_witness:
  "next_event text_inet (server_init True \<lparr>sv_state := PAuth, sv_buf := [5, 0]\<rparr> :: (unit, unit) server_session) =
     (Inr NeedData, server_init True \<lparr>sv_state := PAuth, sv_buf := [5, 0]\<rparr>)"
  using server_foreign_login [of "server_init True \<lparr>sv_state := PAuth, sv_buf := [5, 0]\<rparr> :: (unit, unit) server_session" text_inet]
  by (simp add: server_init_def)

text \<open>A client that sends a destination which is not UTF-8 makes \<^verbatim>\<open>next_event\<close> raise
  \<^verbatim>\<open>UnicodeDecodeError\<close>, which is no \<^verbatim>\<open>OSError\<close>, instead of emitting the reply and the
  \<^verbatim>\<open>Close\<close> of a malformed request.\<close>

theorem server_unicode_raise:
  "outcomes (sv_poll I) receive (react policy) 2 (server_init False :: ('c, 'p) server_session)
     [[5, 1, 0, 5, 1, 0, 3, 1, 255, 0, 80]] = [Inr (Send [5, 0]), Inl UnicodeDecodeErr] \<and>
   \<not> is_os_error UnicodeDecodeErr"
proof -
  let ?s0 = "receive (server_init False) [5, 1, 0, 5, 1, 0, 3, 1, 255, 0, 80] :: ('c, 'p) server_session"
  let ?s1 = "?s0\<lparr>sv_buf := [5, 1, 0, 3, 1, 255, 0, 80], sv_state := PRequest\<rparr>"
  have i: "sv_invar (server_init False :: ('c, 'p) server_session)"
    by (simp add: sv_invar_def server_init_def)
  have p0: "sv_poll I ?s0 = (Some (Inr (Send [5, 0])), ?s1)"
    using poll_greeting [of ?s0 0 "[5, 1, 0, 3, 1, 255, 0, 80]" I] by (simp add: server_init_def)
  let ?t = "react policy (Inr (Send [5, 0])) ?s1"
  have q: "parse_request I [5, 1, 0, 3, 1, 255, 0, 80] = Some (1, \<lparr>a_host = [255], a_port = 80\<rparr>)"
    by (simp add: parse_request_def decode_address_def decode_port_def port_at_def)
  have u: "utf8_decode [255] = None" by code_simp
  have "next_event I ?t = (Inl UnicodeDecodeErr, ?t)"
    by (simp add: next_event_def server_step_def step_request_def request_len_def server_init_def
        py_parse_request_def q build_message_def py_str_result_def u Let_def)
  then have p1: "sv_poll I ?t = (Some (Inl UnicodeDecodeErr), ?t)" by (rule poll_some) simp
  show ?thesis
    using server_run.outcomes_concat [OF i, of I policy 2 "[[5, 1, 0, 5, 1, 0, 3, 1, 255, 0, 80]]"]
      p0 p1 by (simp add: numeral_2_eq_2)
qed

end
