(* ===== verification/Transport.thy ===== *)
theory Transport
  imports Messages
begin

text \<open>
  What the blocking and the asyncio clients share: computations that read and write a transport
  and may raise, the staged negotiation and the exact reading of one reply over any transport,
  and the contracts under which they are right. The transports themselves are in the theories
  \<open>SyncClient\<close> and \<open>AioClient\<close>, which interpret the locales of this one.
\<close>

section \<open>Computations on a transport\<close>

text \<open>A call that changes the transport and returns or raises.\<close>

type_synonym ('s, 'a) io = "'s \<Rightarrow> (py_exn + 'a) \<times> 's"

definition io_return :: "'a \<Rightarrow> ('s, 'a) io" where
  "io_return x s = (Inr x, s)"

definition io_raise :: "py_exn \<Rightarrow> ('s, 'a) io" where
  "io_raise e s = (Inl e, s)"

definition io_lift :: "py_exn + 'a \<Rightarrow> ('s, 'a) io" where
  "io_lift r s = (r, s)"

definition io_bind :: "('s, 'a) io \<Rightarrow> ('a \<Rightarrow> ('s, 'b) io) \<Rightarrow> ('s, 'b) io" where
  "io_bind m f s = (case m s of (Inl e, s') \<Rightarrow> (Inl e, s') | (Inr x, s') \<Rightarrow> f x s')"

named_theorems io_simps \<open>inversion of computations that returned\<close>

lemma io_return_ok [io_simps]: "io_return x s = (Inr y, s') \<longleftrightarrow> y = x \<and> s' = s"
  by (auto simp: io_return_def)

lemma io_raise_ok [io_simps]: "io_raise e s \<noteq> (Inr y, s')"
  by (simp add: io_raise_def)

lemma io_lift_ok [io_simps]: "io_lift r s = (Inr y, s') \<longleftrightarrow> r = Inr y \<and> s' = s"
  by (auto simp: io_lift_def)

lemma io_bind_ok [io_simps]:
  "io_bind m f s = (Inr y, s') \<longleftrightarrow> (\<exists>x t. m s = (Inr x, t) \<and> f x t = (Inr y, s'))"
  by (auto simp: io_bind_def split: prod.splits sum.splits)

lemma io_run [simp]:
  "io_return x s = (Inr x, s)" "io_raise e s = (Inl e, s)" "io_lift r s = (r, s)"
  "io_bind (io_return x) f s = f x s" "io_bind (io_raise e) f s = (Inl e, s)"
  "io_bind (io_lift (Inr x)) f s = f x s"
  by (simp_all add: io_return_def io_raise_def io_lift_def io_bind_def)

section \<open>What a peer will send\<close>

text \<open>
  Chunks and failures with the instants at which they arrive; an empty chunk is the end of the
  stream. \<open>rx_stream\<close> is what can be read of them, \<open>rx_size\<close> a bound on the reads.
\<close>

type_synonym arrivals = "(int \<times> (py_exn + bytes)) list"

fun rx_size :: "arrivals \<Rightarrow> nat" where
  "rx_size [] = 0"
| "rx_size ((at, Inl e) # r) = Suc (rx_size r)"
| "rx_size ((at, Inr b) # r) = length b + rx_size r"

fun rx_stream :: "arrivals \<Rightarrow> bytes" where
  "rx_stream ((at, Inr b) # r) = (if b = [] then [] else b @ rx_stream r)"
| "rx_stream _ = []"

section \<open>Reading exactly one reply\<close>

text \<open>
  The header first, then exactly the bytes that its address type asks for; \<open>rd n\<close> reads exactly
  \<open>n\<close> bytes.
\<close>

definition read_reply :: "inet_api \<Rightarrow> (nat \<Rightarrow> ('s, bytes) io) \<Rightarrow> ('s, reply_obj) io" where
  "read_reply I rd =
     io_bind (rd 4) (\<lambda>head.
     io_bind
       (let atyp = head ! 3
        in if atyp = 0x01 then rd (4 + 2)
           else if atyp = 0x04 then rd (16 + 2)
           else if atyp = 0x03 then
             io_bind (rd 1) (\<lambda>len.
             io_bind (rd (unat (len ! 0) + 2)) (\<lambda>rest. io_return (len @ rest)))
           else io_raise (Socks5Err (''reply has unknown ATYP '' @ dec_int (uint atyp)))) (\<lambda>body.
     io_bind (io_lift (py_parse_reply I (head @ body))) (\<lambda>parsed.
     case parsed of
       None \<Rightarrow> io_raise (Socks5Err ''malformed reply'')
     | Some p \<Rightarrow> io_return (mk_reply p))))"

section \<open>The staged negotiation\<close>

definition offered_methods :: "pystr option \<Rightarrow> method_enum list" where
  "offered_methods user = (if user \<noteq> None then [USERPASS, NO_AUTH] else [NO_AUTH])"

text \<open>The status in the message of a failed login, \<^verbatim>\<open>None\<close> for a malformed reply.\<close>

definition status_text :: "int option \<Rightarrow> string" where
  "status_text st = (case st of None \<Rightarrow> ''None'' | Some n \<Rightarrow> dec_int n)"

definition staged_login ::
  "(bytes \<Rightarrow> ('s, unit) io) \<Rightarrow> (nat \<Rightarrow> ('s, bytes) io) \<Rightarrow> pystr option \<Rightarrow> pystr option \<Rightarrow>
     ('s, unit) io" where
  "staged_login send rd user pass =
     io_bind
       (io_lift (case (user, pass) of
                   (Some u, Some p) \<Rightarrow> py_userpass_auth u p
                 | _ \<Rightarrow> Inl TypeErr)) (\<lambda>auth.
     io_bind (send auth) (\<lambda>_.
     io_bind (rd 2) (\<lambda>answer.
     let status = py_parse_auth_reply answer
     in if status \<noteq> Some 0
        then io_raise (Socks5Err (''auth rejected (status '' @ status_text status @ '')''))
        else io_return ())))"

definition staged_choose ::
  "(bytes \<Rightarrow> ('s, unit) io) \<Rightarrow> (nat \<Rightarrow> ('s, bytes) io) \<Rightarrow> pystr option \<Rightarrow> pystr option \<Rightarrow>
     bytes \<Rightarrow> ('s, unit) io" where
  "staged_choose send rd user pass answer =
     (case py_parse_method_selection answer of
        None \<Rightarrow> io_raise (Socks5Err ''malformed method selection'')
      | Some chosen \<Rightarrow>
          if chosen = method_value USERPASS then
            (if user = None
             then io_raise (Socks5Err ''proxy demands userpass but no creds given'')
             else staged_login send rd user pass)
          else if chosen \<noteq> method_value NO_AUTH then
            io_raise (Socks5Err (''no acceptable method (proxy chose '' @ dec_int chosen @ '')''))
          else io_return ())"

definition staged_negotiate ::
  "inet_api \<Rightarrow> (bytes \<Rightarrow> ('s, unit) io) \<Rightarrow> (nat \<Rightarrow> ('s, bytes) io) \<Rightarrow>
     pystr option \<Rightarrow> pystr option \<Rightarrow> pystr \<Rightarrow> int \<Rightarrow> int \<Rightarrow> ('s, reply_obj) io" where
  "staged_negotiate I send rd user pass host port cmd =
     io_bind
       (io_lift (py_client_greeting
         (map (\<lambda>m. word_of_int (method_value m)) (offered_methods user)))) (\<lambda>greeting.
     io_bind (send greeting) (\<lambda>_.
     io_bind (rd 2) (\<lambda>answer.
     io_bind (staged_choose send rd user pass answer) (\<lambda>_.
     io_bind (io_lift (codec_request I cmd host port)) (\<lambda>req.
     io_bind (send req) (\<lambda>_.
     read_reply I rd))))))"

section \<open>Contracts of a transport\<close>

text \<open>
  An exact reader over the bytes still to come: what it returns is their front, and nothing
  behind it is taken. Sending leaves them alone.
\<close>

locale exact_transport =
  fixes send :: "bytes \<Rightarrow> ('s, unit) io" and rd :: "nat \<Rightarrow> ('s, bytes) io"
    and stream :: "'s \<Rightarrow> bytes"
  assumes rd_exact: "rd n s = (Inr d, s') \<Longrightarrow> length d = n \<and> stream s = d @ stream s'"
    and send_stream: "send d s = (r, s') \<Longrightarrow> stream s' = stream s"
begin

lemma read_reply_exact:
  assumes "read_reply I rd s = (Inr r, s')"
  shows "\<exists>w p. stream s = w @ stream s' \<and> message_len w = Some (length w) \<and>
    py_parse_reply I w = Inr (Some p) \<and> r = mk_reply p"
proof -
  obtain head t body u p where h: "rd 4 s = (Inr head, t)"
    and b: "(let atyp = head ! 3
        in if atyp = 0x01 then rd (4 + 2)
           else if atyp = 0x04 then rd (16 + 2)
           else if atyp = 0x03 then
             io_bind (rd 1) (\<lambda>len.
             io_bind (rd (unat (len ! 0) + 2)) (\<lambda>rest. io_return (len @ rest)))
           else io_raise (Socks5Err (''reply has unknown ATYP '' @ dec_int (uint atyp)))) t
      = (Inr body, u)"
    and p: "py_parse_reply I (head @ body) = Inr (Some p)" "r = mk_reply p" "s' = u"
    using assms by (auto simp: read_reply_def io_simps split: option.splits)
  from rd_exact [OF h] have hl: "length head = 4" "stream s = head @ stream t" by simp_all
  have "message_len (head @ body) = Some (length (head @ body)) \<and> stream t = body @ stream u"
  proof (cases "head ! 3 = 0x03")
    case True
    then obtain len v rest where len: "rd 1 t = (Inr len, v)"
      and rest: "rd (unat (len ! 0) + 2) v = (Inr rest, u)" and body: "body = len @ rest"
      using b by (auto simp: io_simps)
    from rd_exact [OF len] obtain n where n: "len = [n]" by (auto simp: length_Suc_conv)
    from rd_exact [OF len] rd_exact [OF rest] n body hl True show ?thesis
      by (auto simp: message_len_def addr_size_def nth_append)
  next
    case False
    have "\<exists>n. rd n t = (Inr body, u) \<and> (head ! 3 = 0x01 \<and> n = 6 \<or> head ! 3 = 0x04 \<and> n = 18)"
      using b False by (auto simp: io_simps Let_def split: if_splits)
    then obtain n where "rd n t = (Inr body, u)" "head ! 3 = 0x01 \<and> n = 6 \<or> head ! 3 = 0x04 \<and> n = 18"
      by blast
    with rd_exact [of n t body u] hl show ?thesis
      by (auto simp: message_len_def addr_size_def nth_append)
  qed
  then show ?thesis using hl p by (intro exI [of _ "head @ body"]) auto
qed

lemma staged_exact:
  assumes "staged_negotiate I send rd user pass host port cmd s = (Inr r, s')"
  shows "\<exists>m w p. stream s = m @ w @ stream s' \<and>
    (m = [5, 0] \<or> user \<noteq> None \<and> m = [5, 2, 1, 0]) \<and>
    message_len w = Some (length w) \<and> py_parse_reply I w = Inr (Some p) \<and> r = mk_reply p"
proof -
  obtain g t1 ans t2 t3 req t4 where g: "send g s = (Inr (), t1)" and a: "rd 2 t1 = (Inr ans, t2)"
    and c: "staged_choose send rd user pass ans t2 = (Inr (), t3)"
    and q: "send req t3 = (Inr (), t4)" and r: "read_reply I rd t4 = (Inr r, s')"
    using assms by (auto simp: staged_negotiate_def io_simps)
  have sel: "py_parse_method_selection ans = Some n \<Longrightarrow> ans = [5, word_of_int n]" for n
    using rd_exact [OF a]
    by (auto simp: py_parse_method_selection_def parse_method_selection_def length_Suc_conv
        numeral_2_eq_2 split: if_splits)
  have "\<exists>m. stream t2 = m @ stream t3 \<and> (ans @ m = [5, 0] \<or> user \<noteq> None \<and> ans @ m = [5, 2, 1, 0])"
  proof (cases "py_parse_method_selection ans = Some 2")
    case True
    then obtain auth t5 ans2 where l: "user \<noteq> None" "send auth t2 = (Inr (), t5)"
      "rd 2 t5 = (Inr ans2, t3)" "py_parse_auth_reply ans2 = Some 0"
      using c by (auto simp: staged_choose_def staged_login_def io_simps Let_def split: if_splits)
    then have "ans2 = [1, 0]"
      using rd_exact [OF l(3)]
      by (auto simp: py_parse_auth_reply_def parse_auth_reply_def length_Suc_conv
          numeral_2_eq_2 uint_0_iff split: if_splits)
    then show ?thesis using rd_exact [OF l(3)] send_stream [OF l(2)] sel [OF True] l(1) by auto
  next
    case False
    then have "py_parse_method_selection ans = Some 0" "t3 = t2"
      using c by (auto simp: staged_choose_def io_simps split: option.splits if_splits)
    then show ?thesis using sel by auto
  qed
  then obtain m where m: "stream t2 = m @ stream t3"
    "ans @ m = [5, 0] \<or> user \<noteq> None \<and> ans @ m = [5, 2, 1, 0]" by blast
  obtain w p where w: "stream t4 = w @ stream s'" "message_len w = Some (length w)"
    "py_parse_reply I w = Inr (Some p)" "r = mk_reply p"
    using read_reply_exact [OF r] by blast
  have "stream s = (ans @ m) @ w @ stream s'"
    using rd_exact [OF a] send_stream [OF g] send_stream [OF q] m(1) w(1) by simp
  then show ?thesis using m(2) w(2-4) by blast
qed

end

text \<open>
  A transport in a \<open>prompt\<close> state: what was sent to it is there in time and nothing fails.
\<close>

locale prompt_transport = exact_transport send rd stream
  for send :: "bytes \<Rightarrow> ('s, unit) io" and rd :: "nat \<Rightarrow> ('s, bytes) io"
    and stream :: "'s \<Rightarrow> bytes" +
  fixes prompt :: "'s \<Rightarrow> bool"
  assumes rd_prompt: "prompt s \<Longrightarrow> n \<le> length (stream s) \<Longrightarrow> \<exists>d s'. rd n s = (Inr d, s') \<and> prompt s'"
    and send_prompt: "prompt s \<Longrightarrow> \<exists>s'. send d s = (Inr (), s') \<and> prompt s'"
begin

lemma rd_front:
  assumes "prompt s" "stream s = xs @ ys" "n = length xs"
  shows "\<exists>s'. rd n s = (Inr xs, s') \<and> prompt s' \<and> stream s' = ys"
proof -
  obtain d s' where r: "rd n s = (Inr d, s')" "prompt s'"
    using rd_prompt [OF assms(1), of n] assms(2,3) by auto
  from rd_exact [OF r(1)] assms(2,3) have "length d = length xs" "d @ stream s' = xs @ ys" by simp_all
  then have "d = xs" "stream s' = ys" by simp_all
  with r show ?thesis by blast
qed

lemma send_front:
  assumes "prompt s"
  shows "\<exists>s'. send d s = (Inr (), s') \<and> prompt s' \<and> stream s' = stream s"
  using send_prompt [OF assms, of d] send_stream by blast

lemma read_reply_prompt:
  assumes p: "prompt s" and st: "stream s = w @ ys" and len: "message_len w = Some (length w)"
    and parsed: "py_parse_reply I w = Inr (Some v)"
  shows "\<exists>s'. read_reply I rd s = (Inr (mk_reply v), s') \<and> prompt s' \<and> stream s' = ys"
proof -
  define head body where "head = take 4 w" and "body = drop 4 w"
  have l: "7 \<le> length w" by (rule message_len_min [OF len])
  then have w: "w = head @ body" "length head = 4" "head ! 3 = w ! 3"
    by (simp_all add: head_def body_def)
  obtain t where h: "rd 4 s = (Inr head, t)" "prompt t" "stream t = body @ ys"
    using rd_front [OF p, of head "body @ ys" 4] st w by auto
  have "\<exists>s'. (let atyp = head ! 3
        in if atyp = 0x01 then rd (4 + 2)
           else if atyp = 0x04 then rd (16 + 2)
           else if atyp = 0x03 then
             io_bind (rd 1) (\<lambda>len.
             io_bind (rd (unat (len ! 0) + 2)) (\<lambda>rest. io_return (len @ rest)))
           else io_raise (Socks5Err (''reply has unknown ATYP '' @ dec_int (uint atyp)))) t
      = (Inr body, s') \<and> prompt s' \<and> stream s' = ys"
  proof (cases "w ! 3 = 3")
    case True
    then have "length w = 7 + unat (w ! 4)"
      using len l by (simp add: message_len_def addr_size_def)
    moreover obtain n rest where b: "body = [n] @ rest" "w ! 4 = n"
      using l w(2) by (cases body) (auto simp: w(1) nth_append)
    ultimately have r: "length rest = unat n + 2" using w by simp
    obtain v where v: "rd 1 t = (Inr [n], v)" "prompt v" "stream v = rest @ ys"
      using rd_front [OF h(2), of "[n]" "rest @ ys" 1] h(3) b by auto
    obtain z where z: "rd (unat n + 2) v = (Inr rest, z)" "prompt z" "stream z = ys"
      using rd_front [OF v(2,3), of "unat n + 2"] r by auto
    show ?thesis
      using True w(3) b v z by (simp add: io_bind_def v(1) z(1) del: add_2_eq_Suc')
  next
    case False
    then have "w ! 3 = 1 \<and> length body = 6 \<or> w ! 3 = 4 \<and> length body = 18"
      using len w by (auto simp: message_len_def addr_size_def split: if_splits)
    then show ?thesis using rd_front [OF h(2,3)] w(3) False by auto
  qed
  then obtain z where z: "(let atyp = head ! 3
        in if atyp = 0x01 then rd (4 + 2)
           else if atyp = 0x04 then rd (16 + 2)
           else if atyp = 0x03 then
             io_bind (rd 1) (\<lambda>len.
             io_bind (rd (unat (len ! 0) + 2)) (\<lambda>rest. io_return (len @ rest)))
           else io_raise (Socks5Err (''reply has unknown ATYP '' @ dec_int (uint atyp)))) t
      = (Inr body, z)" "prompt z" "stream z = ys" by blast
  show ?thesis
    using parsed z(2,3) w(1) by (simp add: read_reply_def io_bind_def h(1) z(1))
qed

lemma staged_login_prompt:
  assumes p: "prompt s" and st: "stream s = [1, 0] @ ys"
    and a: "user = Some u" "pass = Some v" "py_userpass_auth u v = Inr auth"
  shows "\<exists>s'. staged_login send rd user pass s = (Inr (), s') \<and> prompt s' \<and> stream s' = ys"
proof -
  obtain t where t: "send auth s = (Inr (), t)" "prompt t" "stream t = [1, 0] @ ys"
    using send_front [OF p, of auth] st by auto
  obtain z where z: "rd 2 t = (Inr [1, 0], z)" "prompt z" "stream z = ys"
    using rd_front [OF t(2,3), of 2] by auto
  have "py_parse_auth_reply [1, 0] = Some 0" by (simp add: py_parse_auth_reply_def parse_auth_reply_def)
  then show ?thesis
    using a z(2,3)
    by (simp add: staged_login_def io_bind_def t(1) z(1) Let_def)
qed

text \<open>Against a server that accepts in time, the staged negotiation returns its reply.\<close>

lemma staged_prompt:
  assumes p: "prompt s" and st: "stream s = accept_bytes (user \<noteq> None) @ w @ ys"
    and len: "message_len w = Some (length w)" and parsed: "py_parse_reply I w = Inr (Some v)"
    and req: "codec_request I cmd host port = Inr r"
    and auth: "user = None \<or> (\<exists>u q a. user = Some u \<and> pass = Some q \<and> py_userpass_auth u q = Inr a)"
  shows "\<exists>s'. staged_negotiate I send rd user pass host port cmd s = (Inr (mk_reply v), s') \<and>
    prompt s' \<and> stream s' = ys"
proof -
  have "\<exists>g. py_client_greeting (map (\<lambda>m. word_of_int (method_value m)) (offered_methods user)) = Inr g"
    by (simp add: py_client_greeting_def client_greeting_def offered_methods_def)
  then obtain g where g: "py_client_greeting
      (map (\<lambda>m. word_of_int (method_value m)) (offered_methods user)) = Inr g" by blast
  obtain t1 where t1: "send g s = (Inr (), t1)" "prompt t1" "stream t1 = stream s"
    using send_front [OF p] by blast
  define m where "m = (if user \<noteq> None then [5, 2] else [5, 0 :: byte])"
  define l where "l = (if user \<noteq> None then [1, 0] else [] :: bytes)"
  have ml: "stream t1 = m @ l @ w @ ys" using st t1(3) by (simp add: m_def l_def accept_bytes_def)
  obtain t2 where t2: "rd 2 t1 = (Inr m, t2)" "prompt t2" "stream t2 = l @ w @ ys"
    proof -
    have "length m = 2" by (simp add: m_def)
    then show ?thesis using rd_front [OF t1(2) ml, of 2] that by auto
  qed
  have "\<exists>t3. staged_choose send rd user pass m t2 = (Inr (), t3) \<and> prompt t3 \<and> stream t3 = w @ ys"
  proof (cases user)
    case None
    then show ?thesis
      using t2(2,3)
      by (simp add: m_def l_def staged_choose_def py_parse_method_selection_def parse_method_selection_def)
  next
    case (Some u)
    then obtain q a where a: "pass = Some q" "py_userpass_auth u q = Inr a" using auth by auto
    show ?thesis
      using staged_login_prompt [OF t2(2) _ Some a, of "w @ ys"] Some t2(3)
      by (simp add: m_def l_def staged_choose_def py_parse_method_selection_def parse_method_selection_def)
  qed
  then obtain t3 where t3: "staged_choose send rd user pass m t2 = (Inr (), t3)" "prompt t3"
    "stream t3 = w @ ys" by blast
  obtain t4 where t4: "send r t3 = (Inr (), t4)" "prompt t4" "stream t4 = w @ ys"
    using send_front [OF t3(2), of r] t3(3) by auto
  show ?thesis
    using read_reply_prompt [OF t4(2,3) len parsed] g req
    by (simp add: staged_negotiate_def io_bind_def t1(1) t2(1) t3(1) t4(1))
qed

end

section \<open>Greedy reading\<close>

lemma feed_waits:
  assumes "feed I s a = (Inr None, t)" "ss_state s \<noteq> SDone"
  shows "ss_state t \<noteq> SDone" "feed I t b = feed I s (a @ b)"
proof -
  have l: "session_loop I (sess_push s a) = (Inr None, t)"
    using assms by (simp add: feed_def sess_push_def)
  show t: "ss_state t \<noteq> SDone" by (rule loop_waiting_open [OF l]) (simp add: assms(2))
  have "sess_push (sess_push s a) b = sess_push s (a @ b)" by (rule client_io.push_push)
  then show "feed I t b = feed I s (a @ b)"
    using loop_waiting [OF l, of b] t assms(2) by (simp add: feed_def sess_push_def)
qed

lemma feed_decides:
  assumes "feed I s a = (r, t)" "r \<noteq> Inr None" "ss_state s \<noteq> SDone"
  shows "feed I s (a @ b) = (r, t\<lparr>ss_buf := ss_buf t @ b\<rparr>)"
proof -
  have l: "session_loop I (sess_push s a) = (r, t)"
    using assms by (simp add: feed_def sess_push_def)
  have "sess_push (sess_push s a) b = sess_push s (a @ b)" by (rule client_io.push_push)
  then show ?thesis
    using loop_decided [OF l assms(2), of b] assms(3) by (simp add: feed_def sess_push_def)
qed

text \<open>
  A transport read in whole chunks, and a loop that feeds each chunk to a session until a reply
  is there: \<open>loop_step\<close> is one turn of it. The bytes still to come shrink with every chunk.
\<close>

definition loop_step ::
  "inet_api \<Rightarrow> ('s, bytes) io \<Rightarrow> (session \<Rightarrow> ('s, reply_obj \<times> session) io) \<Rightarrow> session \<Rightarrow>
     ('s, reply_obj \<times> session) io" where
  "loop_step I rd_chunk again sess =
     io_bind rd_chunk (\<lambda>chunk.
     if chunk = []
     then io_raise (Socks5Err ''proxy closed connection during handshake'')
     else (case feed I sess chunk of
             (Inl e, sess') \<Rightarrow> io_raise e
           | (Inr (Some r), sess') \<Rightarrow> io_return (r, sess')
           | (Inr None, sess') \<Rightarrow> again sess'))"

locale greedy_reader =
  fixes I :: inet_api and rd_chunk :: "('s, bytes) io" and stream :: "'s \<Rightarrow> bytes"
    and room :: "'s \<Rightarrow> nat" and prompt :: "'s \<Rightarrow> bool"
    and run :: "session \<Rightarrow> ('s, reply_obj \<times> session) io"
  assumes run_eq: "run sess s = loop_step I rd_chunk run sess s"
    and chunk_stream: "rd_chunk s = (Inr d, s') \<Longrightarrow> stream s = d @ stream s'"
    and chunk_room: "rd_chunk s = (Inr d, s') \<Longrightarrow> d \<noteq> [] \<Longrightarrow> room s' < room s"
    and chunk_prompt: "prompt s \<Longrightarrow> stream s \<noteq> [] \<Longrightarrow>
      \<exists>d s'. rd_chunk s = (Inr d, s') \<and> d \<noteq> [] \<and> prompt s'"
begin

lemma run_reads:
  "run sess s = (Inr (r, sess'), s') \<Longrightarrow> ss_state sess \<noteq> SDone \<Longrightarrow>
     \<exists>d. stream s = d @ stream s' \<and> feed I sess d = (Inr (Some r), sess')"
proof (induction "room s" arbitrary: sess s rule: less_induct)
  case less
  obtain chunk t where c: "rd_chunk s = (Inr chunk, t)" "chunk \<noteq> []"
    and k: "(case feed I sess chunk of
             (Inl e, sess') \<Rightarrow> io_raise e
           | (Inr (Some r), sess') \<Rightarrow> io_return (r, sess')
           | (Inr None, sess') \<Rightarrow> run sess') t = (Inr (r, sess'), s')"
    using less.prems(1) by (subst (asm) run_eq) (auto simp: loop_step_def io_simps split: if_splits)
  obtain q u where f: "feed I sess chunk = (q, u)" by (cases "feed I sess chunk")
  show ?case
  proof (cases "q = Inr None")
    case True
    with f k have "run u t = (Inr (r, sess'), s')" by simp
    moreover have "ss_state u \<noteq> SDone" using feed_waits(1) f True less.prems(2) by blast
    ultimately obtain d where "stream t = d @ stream s'" "feed I u d = (Inr (Some r), sess')"
      using less.hyps [OF chunk_room [OF c]] by blast
    then show ?thesis
      using chunk_stream [OF c(1)] feed_waits(2) [of I sess chunk u d] f True less.prems(2)
      by (intro exI [of _ "chunk @ d"]) simp
  next
    case False
    with f k have "q = Inr (Some r)" "u = sess'" "s' = t"
      by (auto simp: io_simps split: sum.splits option.splits)
    then show ?thesis using f chunk_stream [OF c(1)] by blast
  qed
qed

text \<open>If the whole stream makes the session return a reply, so does the loop.\<close>

lemma run_prompt:
  "prompt s \<Longrightarrow> feed I sess (stream s) = (Inr (Some r), t) \<Longrightarrow>
     feed I sess [] = (Inr None, sess) \<Longrightarrow> ss_state sess \<noteq> SDone \<Longrightarrow>
     \<exists>sess' s'. run sess s = (Inr (r, sess'), s') \<and> prompt s' \<and>
       t = sess'\<lparr>ss_buf := ss_buf sess' @ stream s'\<rparr>"
proof (induction "room s" arbitrary: sess s rule: less_induct)
  case less
  have "stream s \<noteq> []" using less.prems(2,3) by auto
  then obtain chunk u where c: "rd_chunk s = (Inr chunk, u)" "chunk \<noteq> []" "prompt u"
    using chunk_prompt [OF less.prems(1)] by blast
  note st = chunk_stream [OF c(1)]
  obtain q v where f: "feed I sess chunk = (q, v)" by (cases "feed I sess chunk")
  have run: "run sess s = (case feed I sess chunk of
             (Inl e, sess') \<Rightarrow> io_raise e
           | (Inr (Some r), sess') \<Rightarrow> io_return (r, sess')
           | (Inr None, sess') \<Rightarrow> run sess') u"
    by (subst run_eq) (simp add: loop_step_def io_bind_def c(1,2))
  show ?case
  proof (cases "q = Inr None")
    case True
    note w = feed_waits [OF f [unfolded True] less.prems(4)]
    have "feed I v (stream u) = (Inr (Some r), t)" using w(2) st less.prems(2) by simp
    moreover have "feed I v [] = (Inr None, v)" using w(2) [of "[]"] f True by simp
    ultimately show ?thesis
      using less.hyps [OF chunk_room [OF c(1,2)] c(3) _ _ w(1)] run f True by simp
  next
    case False
    from feed_decides [OF f False less.prems(4), of "stream u"] st less.prems(2)
    have "q = Inr (Some r)" "t = v\<lparr>ss_buf := ss_buf v @ stream u\<rparr>" by simp_all
    then show ?thesis using run f c(3) by simp
  qed
qed

text \<open>A loop whose chunks come in time returns in time.\<close>

lemma run_timely:
  assumes chunk: "\<And>s q s'. late s \<Longrightarrow> rd_chunk s = (q, s') \<Longrightarrow> late s' \<and> (\<forall>d. q = Inr d \<longrightarrow> ok s')"
  shows "late s \<Longrightarrow> run sess s = (q, s') \<Longrightarrow> late s' \<and> (\<forall>x. q = Inr x \<longrightarrow> ok s')"
proof (induction "room s" arbitrary: sess s rule: less_induct)
  case less
  obtain c t where c: "rd_chunk s = (c, t)" by (cases "rd_chunk s")
  note t = chunk [OF less.prems(1) c]
  have run: "loop_step I rd_chunk run sess s = (q, s')"
    using less.prems(2) by (subst run_eq [symmetric])
  show ?case
  proof (cases c)
    case (Inl e)
    then show ?thesis using run c t by (auto simp: loop_step_def io_bind_def)
  next
    case (Inr d)
    note c' = c [unfolded Inr]
    show ?thesis
    proof (cases "d \<noteq> [] \<and> (\<exists>v. feed I sess d = (Inr None, v))")
      case True
      then obtain v where "d \<noteq> []" "feed I sess d = (Inr None, v)" by blast
      then show ?thesis
        using less.hyps [OF chunk_room [OF c'], of v] t run c' by (simp add: loop_step_def io_bind_def)
    next
      case False
      then show ?thesis
        using run c' t Inr
        by (auto simp: loop_step_def io_bind_def io_return_def io_raise_def
            split: if_splits prod.splits sum.splits option.splits)
    qed
  qed
qed

end

section \<open>The pipelined negotiation\<close>

text \<open>
  Everything in one send, then the read loop. What a session does with a whole answer was proved
  in \<open>ClientSessionFacts\<close>; here it is said of any reply that parses.
\<close>

definition pipelined ::
  "inet_api \<Rightarrow> (bytes \<Rightarrow> ('s, unit) io) \<Rightarrow> (session \<Rightarrow> ('s, reply_obj \<times> session) io) \<Rightarrow> session \<Rightarrow>
     pystr \<Rightarrow> int \<Rightarrow> int \<Rightarrow> ('s, reply_obj \<times> session) io" where
  "pipelined I send run sess host port cmd =
     io_bind (io_lift (optimistic_pipeline I sess host port cmd)) (\<lambda>p.
     io_bind (send p) (\<lambda>_. run sess))"

lemma pipeline_parts:
  assumes "session_init user pass = Inr s" "optimistic_pipeline I s host port cmd = Inr w"
  shows "\<exists>r. py_request I cmd host port = Inr r \<and>
    (user = None \<and> w = [5, 1, 0] @ r \<or>
     (\<exists>u p a. user = Some u \<and> pass = Some p \<and> py_userpass_auth u p = Inr a \<and>
        w = [5, 1, 2] @ a @ r))"
proof -
  note init = assms(1) [unfolded session_init_def]
  show ?thesis
    using assms(2) init
    by (auto simp: optimistic_pipeline_def session_method_def py_client_greeting_def
        client_greeting_def codec_request_def size8_def result_simps
        split: if_splits option.splits)
qed

text \<open>A predicate that a send and the loop keep holds after a pipelined negotiation.\<close>

lemma pipelined_keeps:
  assumes "P s" and keep_send: "\<And>d s r s'. P s \<Longrightarrow> send d s = (r, s') \<Longrightarrow> P s'"
    and keep_run: "\<And>sess s q s'. P s \<Longrightarrow> run sess s = (q, s') \<Longrightarrow> P s'"
    and "pipelined I send run sess host port cmd s = (q, s')"
  shows "P s'"
proof (cases "optimistic_pipeline I sess host port cmd")
  case (Inl e)
  then show ?thesis using assms(1,4) by (simp add: pipelined_def io_bind_def)
next
  case (Inr p)
  obtain r t where t: "send p s = (r, t)" by (cases "send p s")
  note pt = keep_send [OF assms(1) t]
  show ?thesis
  proof (cases r)
    case (Inl e)
    then show ?thesis using pt t Inr assms(4) by (simp add: pipelined_def io_bind_def)
  next
    case (Inr u)
    then have "run sess t = (q, s')"
      using t assms(4) \<open>optimistic_pipeline I sess host port cmd = Inr p\<close>
      by (simp add: pipelined_def io_bind_def)
    then show ?thesis by (rule keep_run [OF pt])
  qed
qed

lemma feed_answer:
  assumes "session_init user pass = Inr s"
    and "message_len w = Some (length w)" "py_parse_reply I w = Inr (Some v)"
  shows "\<exists>t. feed I s (accept_bytes (user \<noteq> None) @ w @ ys) = (Inr (Some (mk_reply v)), t) \<and>
    leftover t = ys"
proof -
  note init = session_init_state [OF assms(1)]
  let ?d = "accept_bytes (user \<noteq> None) @ w @ ys"
  let ?q = "s\<lparr>ss_buf := w @ ys, ss_state := SReply\<rparr>"
  have "feed I s ?d = session_loop I ?q"
    using loop_accept [of "s\<lparr>ss_buf := ss_buf s @ ?d\<rparr>" "w @ ys" I] init by (simp add: feed_def)
  moreover have "session_turn I ?q = Stop (Inr (Some (mk_reply v)))
      (?q\<lparr>ss_buf := ys, ss_reply := Some (mk_reply v), ss_state := SDone\<rparr>)"
    using turn_reply [of ?q "length w" I v] message_len_extends [OF assms(2), of ys] assms(3) by simp
  note loop_stop [OF this]
  ultimately show ?thesis by (simp add: leftover_def)
qed

lemma feed_consumes:
  assumes "session_init user pass = Inr s" "feed I s d = (Inr (Some r), t)"
  shows "\<exists>w v. d = accept_bytes (user \<noteq> None) @ w @ leftover t \<and>
    message_len w = Some (length w) \<and> py_parse_reply I w = Inr (Some v) \<and> r = mk_reply v"
proof -
  note init = session_init_state [OF assms(1)]
  have "session_loop I (s\<lparr>ss_buf := d\<rparr>) = (Inr (Some r), t)"
    using assms(2) init by (simp add: feed_def)
  from loop_consumes [OF this] show ?thesis using init by (auto simp: leftover_def)
qed

locale greedy_transport = greedy_reader I rd_chunk stream room prompt run
  for I :: inet_api and rd_chunk :: "('s, bytes) io" and stream :: "'s \<Rightarrow> bytes"
    and room :: "'s \<Rightarrow> nat" and prompt :: "'s \<Rightarrow> bool"
    and run :: "session \<Rightarrow> ('s, reply_obj \<times> session) io" +
  fixes send :: "bytes \<Rightarrow> ('s, unit) io"
  assumes send_stream: "send d s = (r, s') \<Longrightarrow> stream s' = stream s"
    and send_prompt: "prompt s \<Longrightarrow> \<exists>s'. send d s = (Inr (), s') \<and> prompt s'"
begin

lemma pipelined_exact:
  assumes "session_init user pass = Inr sess"
    and "pipelined I send run sess host port cmd s = (Inr (r, sess'), s')"
  shows "\<exists>w v. stream s = accept_bytes (user \<noteq> None) @ w @ leftover sess' @ stream s' \<and>
    message_len w = Some (length w) \<and> py_parse_reply I w = Inr (Some v) \<and> r = mk_reply v"
proof -
  obtain p t where p: "send p s = (Inr (), t)" and run: "run sess t = (Inr (r, sess'), s')"
    using assms(2) by (auto simp: pipelined_def io_simps)
  have "ss_state sess \<noteq> SDone" using session_init_state [OF assms(1)] by simp
  from run_reads [OF run this] obtain d where
    d: "stream t = d @ stream s'" "feed I sess d = (Inr (Some r), sess')" by blast
  show ?thesis
    using feed_consumes [OF assms(1) d(2)] d(1) send_stream [OF p] by auto
qed

lemma pipelined_prompt:
  assumes init: "session_init user pass = Inr sess"
    and p: "optimistic_pipeline I sess host port cmd = Inr p" and ready: "prompt s"
    and st: "stream s = accept_bytes (user \<noteq> None) @ w @ ys"
    and w: "message_len w = Some (length w)" "py_parse_reply I w = Inr (Some v)"
  shows "\<exists>sess' s'. pipelined I send run sess host port cmd s = (Inr (mk_reply v, sess'), s') \<and>
    prompt s' \<and> leftover sess' @ stream s' = ys"
proof -
  obtain t where t: "send p s = (Inr (), t)" "prompt t" using send_prompt [OF ready] by blast
  note i = session_init_state [OF init]
  obtain u where u: "feed I sess (stream t) = (Inr (Some (mk_reply v)), u)" "leftover u = ys"
    using feed_answer [OF init w, of ys] send_stream [OF t(1)] st by auto
  have "session_turn I sess = Stop (Inr None) sess" using i by (simp add: session_turn_def)
  moreover have "sess\<lparr>ss_buf := ss_buf sess @ []\<rparr> = sess" by (cases sess) simp
  ultimately have "feed I sess [] = (Inr None, sess)" using i by (simp only: feed_def loop_stop if_cancel)
  from run_prompt [OF t(2) u(1) this] i obtain sess' s' where
    run: "run sess t = (Inr (mk_reply v, sess'), s')" "prompt s'"
      "u = sess'\<lparr>ss_buf := ss_buf sess' @ stream s'\<rparr>" by auto
  have "ss_state sess \<noteq> SDone" using i by simp
  from run_reads [OF run(1) this] obtain d where "feed I sess d = (Inr (Some (mk_reply v)), sess')"
    by blast
  then have "ss_state sess' = SDone"
    using loop_consumes [of I "sess\<lparr>ss_buf := d\<rparr>"] i by (simp add: feed_def)
  then have "leftover sess' @ stream s' = ys" using u(2) run(3) by (simp add: leftover_def)
  then show ?thesis using run p t(1) by (simp add: pipelined_def io_bind_def)
qed

end

section \<open>Time budgets\<close>

text \<open>
  A transport on a budget: \<open>ok\<close> states are within it, \<open>late\<close> states within it but for one send;
  a read that succeeds is back within the budget.
\<close>

locale timed_transport =
  fixes send :: "bytes \<Rightarrow> ('s, unit) io" and rd :: "nat \<Rightarrow> ('s, bytes) io"
    and ok :: "'s \<Rightarrow> bool" and late :: "'s \<Rightarrow> bool"
  assumes ok_late: "ok s \<Longrightarrow> late s"
    and send_late: "ok s \<Longrightarrow> send d s = (r, s') \<Longrightarrow> late s'"
    and rd_late: "late s \<Longrightarrow> 0 < n \<Longrightarrow> rd n s = (q, s') \<Longrightarrow> late s'"
    and rd_ok: "late s \<Longrightarrow> 0 < n \<Longrightarrow> rd n s = (Inr d, s') \<Longrightarrow> ok s'"
begin

text \<open>Computations that end within the limits, and on time when they return.\<close>

definition timely :: "('s \<Rightarrow> bool) \<Rightarrow> ('s, 'a) io \<Rightarrow> bool" where
  "timely pre m \<longleftrightarrow> (\<forall>s r s'. pre s \<longrightarrow> m s = (r, s') \<longrightarrow> late s' \<and> (\<forall>x. r = Inr x \<longrightarrow> ok s'))"

lemma timely_rd: "0 < n \<Longrightarrow> timely late (rd n)"
  unfolding timely_def using rd_late rd_ok by blast

lemma timely_ok: "timely late m \<Longrightarrow> timely ok m"
  unfolding timely_def using ok_late by blast

lemma timely_bind:
  assumes "timely pre m" "\<And>x. timely ok (f x)"
  shows "timely pre (io_bind m f)"
  unfolding timely_def
proof (intro allI impI)
  fix s r s' assume p: "pre s" and b: "io_bind m f s = (r, s')"
  obtain q t where m: "m s = (q, t)" by (cases "m s")
  have t: "late t \<and> (\<forall>x. q = Inr x \<longrightarrow> ok t)" using assms(1) p m unfolding timely_def by blast
  show "late s' \<and> (\<forall>x. r = Inr x \<longrightarrow> ok s')"
  proof (cases q)
    case (Inl e)
    then show ?thesis using b m t by (auto simp: io_bind_def)
  next
    case (Inr x)
    then have "f x t = (r, s')" using b m by (simp add: io_bind_def)
    then show ?thesis using assms(2) [of x] t Inr unfolding timely_def by blast
  qed
qed

lemma timely_send:
  assumes "timely late m"
  shows "timely ok (io_bind (send d) (\<lambda>_. m))"
  unfolding timely_def
proof (intro allI impI)
  fix s r s' assume p: "ok s" and b: "io_bind (send d) (\<lambda>_. m) s = (r, s')"
  obtain q t where m: "send d s = (q, t)" by (cases "send d s")
  have t: "late t" by (rule send_late [OF p m])
  show "late s' \<and> (\<forall>x. r = Inr x \<longrightarrow> ok s')"
    using assms b m t unfolding timely_def by (cases q) (auto simp: io_bind_def)
qed

lemma timely_pure:
  "timely ok (io_return x)" "timely ok (io_raise e)" "timely ok (io_lift r)"
  using ok_late by (auto simp: timely_def)

lemma timely_read_reply: "timely late (read_reply I rd)"
  unfolding read_reply_def
  by (intro timely_bind timely_rd)
     (auto simp: Let_def intro!: timely_bind timely_pure timely_rd timely_ok split: option.split)

lemma timely_staged_choose: "timely ok (staged_choose send rd user pass answer)"
  by (auto simp: staged_choose_def staged_login_def Let_def split: option.split
      intro!: timely_pure timely_bind timely_send timely_rd)

lemma timely_staged: "timely ok (staged_negotiate I send rd user pass host port cmd)"
  unfolding staged_negotiate_def
  by (intro timely_bind timely_pure timely_send timely_rd timely_staged_choose timely_read_reply)
     simp

end

end
