(* ===== verification/Handshake.thy ===== *)
theory Handshake
  imports Transport InetText
begin

text \<open>
  The client session against the server session: an optimistic client's single write, cut into
  chunks at will, drives a server whose hooks accept through the whole handshake, and what the
  server sends back is the reply the client reads.
\<close>

section \<open>The two ends\<close>

text \<open>Hooks that accept every login and a driver whose connection attempt succeeds.\<close>

fun accept_policy ::
  "'c option \<Rightarrow> pystr \<Rightarrow> int \<Rightarrow> py_exn + event \<Rightarrow> ('c, 'p) server_session \<Rightarrow> ('c, 'p) decision list" where
  "accept_policy c bh bp (Inr (Authorize u p)) s = [DOk c]"
| "accept_policy c bh bp (Inr (Connect cmd host port)) s = [DConnected bh bp]"
| "accept_policy c bh bp _ s = []"

definition login_events :: "pystr option \<Rightarrow> pystr option \<Rightarrow> event list" where
  "login_events user pass =
     (if user = None then [Send [5, 0]]
      else [Send [5, 2], Authorize user pass, Send [1, 0]])"

definition handshake_events ::
  "inet_api \<Rightarrow> pystr option \<Rightarrow> pystr option \<Rightarrow> pystr \<Rightarrow> int \<Rightarrow> bytes \<Rightarrow> event list" where
  "handshake_events I user pass host port w =
     login_events user pass @
     [Connect 1 (seen_host I host) port, Send w, Relay (seen_host I host) port]"

fun sent :: "event list \<Rightarrow> bytes" where
  "sent [] = []"
| "sent (Send d # es) = d @ sent es"
| "sent (_ # es) = sent es"

lemma sent_handshake: "sent (handshake_events I user pass host port w) = accept_bytes (user \<noteq> None) @ w"
  by (simp add: handshake_events_def login_events_def accept_bytes_def)

section \<open>The server's side, event by event\<close>

lemma outcomes_step:
  "sv_poll I s = (Some r, s') \<Longrightarrow>
     outcomes (sv_poll I) receive rct (Suc n) s [] =
       r # outcomes (sv_poll I) receive rct n (rct r s') []"
  by simp

lemma react_accept:
  "react (accept_policy c bh bp) (Inr (Send d)) s = s"
  "react (accept_policy c bh bp) (Inr (Relay h p)) s = s"
  "react (accept_policy c bh bp) (Inr (Authorize u v)) s = s\<lparr>sv_ctx := c, sv_rejected := False\<rparr>"
  "react (accept_policy c bh bp) (Inr (Connect k h p)) s = s\<lparr>sv_connected_bnd := Some (bh, bp)\<rparr>"
  by (simp_all add: react_def sv_ok_def sv_connected_def)

lemma run_request:
  assumes I: "posix_inet I" and s: "sv_out s = []" "sv_state s = PRequest" "sv_buf s = r @ early"
    and raw: "\<not> sv_relay_raw s"
    and r: "py_request I 1 host port = Inr r" and w: "py_reply I 0 bh bp = Inr w"
  shows "outcomes (sv_poll I) receive (react (accept_policy c bh bp)) (Suc (Suc (Suc 0))) s [] =
    map Inr [Connect 1 (seen_host I host) port, Send w, Relay (seen_host I host) port]"
proof -
  let ?t = "s\<lparr>sv_buf := early, sv_cmd := 1, sv_target := Some (seen_host I host, port),
      sv_rejected := False, sv_connected_bnd := Some (bh, bp), sv_connect_failed := False,
      sv_state := PConnectWait\<rparr>"
  let ?R = "react (accept_policy c bh bp)"
  let ?u = "?t\<lparr>sv_state := PRelay, sv_out := [Relay (seen_host I host) port]\<rparr>"
  note p1 = poll_request [OF I s r]
  have p2: "sv_poll I ?t = (Some (Inr (Send w)), ?u)"
    by (rule poll_grant [of ?t bh bp "seen_host I host" port I w]) (use s raw w in simp_all)
  have p3: "sv_poll I ?u = (Some (Inr (Relay (seen_host I host) port)), ?u\<lparr>sv_out := []\<rparr>)"
    by (rule poll_queue) simp_all
  have e1: "?R (Inr (Connect 1 (seen_host I host) port))
      (s\<lparr>sv_buf := early, sv_cmd := 1, sv_target := Some (seen_host I host, port),
        sv_rejected := False, sv_connected_bnd := None, sv_connect_failed := False,
        sv_state := PConnectWait\<rparr>) = ?t"
    by (simp add: react_accept)
  have e2: "?R (Inr (Send w)) ?u = ?u" by (simp only: react_accept)
  show ?thesis
    by (simp only: outcomes_step [OF p1] e1 outcomes_step [OF p2] e2 outcomes_step [OF p3]
        outcomes.simps(1) list.map)
qed

lemma run_login:
  fixes s :: "('c, 'p) server_session"
  assumes s: "sv_out s = []" "sv_state s = PGreeting" "sv_require_auth s"
    and b: "sv_buf s = [5, 1, 2] @ a @ rest" and a: "py_userpass_auth u p = Inr a"
  shows "\<exists>t :: ('c, 'p) server_session. outcomes (sv_poll I) receive (react (accept_policy c bh bp)) (Suc (Suc (Suc n))) s [] =
      map Inr [Send [5, 2], Authorize (Some u) (Some p), Send [1, 0]] @
      outcomes (sv_poll I) receive (react (accept_policy c bh bp)) n t [] \<and>
    sv_out t = [] \<and> sv_state t = PRequest \<and> sv_buf t = rest \<and> sv_relay_raw t = sv_relay_raw s"
proof -
  let ?R = "react (accept_policy c bh bp)"
  let ?s1 = "s\<lparr>sv_buf := a @ rest, sv_state := PAuth\<rparr>"
  let ?s2 = "s\<lparr>sv_buf := rest, sv_ctx := c, sv_rejected := False, sv_state := PAuthWait\<rparr>"
  let ?t = "s\<lparr>sv_buf := rest, sv_ctx := c, sv_rejected := False, sv_state := PRequest\<rparr>"
  have p1: "sv_poll I s = (Some (Inr (Send [5, 2])), ?s1)"
    using poll_greeting [OF s(1,2) b] s(3) by simp
  have p2: "sv_poll I ?s1 = (Some (Inr (Authorize (Some u) (Some p))),
      ?s1\<lparr>sv_buf := rest, sv_rejected := False, sv_state := PAuthWait\<rparr>)"
    by (rule poll_auth [OF _ _ _ a]) (use s in simp_all)
  have p3: "sv_poll I ?s2 = (Some (Inr (Send [1, 0])), ?s2\<lparr>sv_state := PRequest\<rparr>)"
    by (rule poll_auth_wait) (use s in simp_all)
  have e1: "?R (Inr (Send [5, 2])) ?s1 = ?s1" by (simp only: react_accept)
  have e2: "?R (Inr (Authorize (Some u) (Some p)))
      (?s1\<lparr>sv_buf := rest, sv_rejected := False, sv_state := PAuthWait\<rparr>) = ?s2"
    by (simp add: react_accept)
  have e3: "?R (Inr (Send [1, 0])) (?s2\<lparr>sv_state := PRequest\<rparr>) = ?t"
    by (subst react_accept) simp
  have "outcomes (sv_poll I) receive ?R (Suc (Suc (Suc n))) s [] =
      map Inr [Send [5, 2], Authorize (Some u) (Some p), Send [1, 0]] @
      outcomes (sv_poll I) receive ?R n ?t []"
    by (simp only: outcomes_step [OF p1] e1 outcomes_step [OF p2] e2
        outcomes_step [OF p3] e3 list.map append.simps)
  then show ?thesis using s by (intro exI [of _ ?t]) simp
qed

lemma server_login:
  fixes c :: "'c option"
  assumes init: "session_init user pass = Inr s"
    and p: "optimistic_pipeline I s host port cmd = Inr w"
  shows "\<exists>q. \<exists>t :: ('c, 'p) server_session. py_request I cmd host port = Inr q \<and>
    outcomes (sv_poll I) receive (react (accept_policy c bh bp))
      (length (login_events user pass) + n)
      (receive (server_init (user \<noteq> None) :: ('c, 'p) server_session) (w @ early)) [] =
    map Inr (login_events user pass) @
      outcomes (sv_poll I) receive (react (accept_policy c bh bp)) n t [] \<and>
    sv_out t = [] \<and> sv_state t = PRequest \<and> sv_buf t = q @ early \<and> \<not> sv_relay_raw t"
proof -
  let ?R = "react (accept_policy c bh bp)"
  let ?i = "receive (server_init (user \<noteq> None)) (w @ early) :: ('c, 'p) server_session"
  obtain q where q: "py_request I cmd host port = Inr q" and w:
    "user = None \<and> w = [5, 1, 0] @ q \<or>
     (\<exists>u p a. user = Some u \<and> pass = Some p \<and> py_userpass_auth u p = Inr a \<and> w = [5, 1, 2] @ a @ q)"
    using pipeline_parts [OF init p] by blast
  have i: "sv_out ?i = []" "sv_state ?i = PGreeting" "\<not> sv_relay_raw ?i" "sv_buf ?i = w @ early"
    "sv_require_auth ?i \<longleftrightarrow> user \<noteq> None"
    by (simp_all add: server_init_def)
  show ?thesis
  proof (cases user)
    case None
    let ?s1 = "?i\<lparr>sv_buf := q @ early, sv_state := PRequest\<rparr>"
    have "sv_poll I ?i = (Some (Inr (Send [5, 0])), ?s1)"
      using poll_greeting [OF i(1,2), of 0 "q @ early" I] i None w by simp
    from outcomes_step [OF this, of ?R n, unfolded react_accept(1)] show ?thesis
      using None q i
      by (intro exI [of _ q] exI [of _ ?s1]) (simp add: login_events_def del: outcomes.simps(2))
  next
    case (Some u)
    then obtain v a where v: "pass = Some v" "py_userpass_auth u v = Inr a" "w = [5, 1, 2] @ a @ q"
      using w by auto
    obtain t :: "('c, 'p) server_session" where
      "outcomes (sv_poll I) receive ?R (Suc (Suc (Suc n))) ?i [] =
        map Inr [Send [5, 2], Authorize (Some u) (Some v), Send [1, 0]] @
        outcomes (sv_poll I) receive ?R n t []"
      "sv_out t = []" "sv_state t = PRequest" "sv_buf t = q @ early" "\<not> sv_relay_raw t"
      using run_login [of ?i a "q @ early" u v I c bh bp n] i v Some by auto
    then show ?thesis
      using Some v q by (intro exI [of _ q] exI [of _ t]) (simp add: login_events_def)
  qed
qed

lemma server_handshake:
  fixes c :: "'c option"
  assumes I: "posix_inet I" and init: "session_init user pass = Inr s"
    and p: "optimistic_pipeline I s host port 1 = Inr w"
    and r: "py_reply I 0 bh bp = Inr rep"
  shows "outcomes (sv_poll I) receive
      (react (accept_policy c bh bp) :: _ \<Rightarrow> ('c, 'p) server_session \<Rightarrow> _)
      (length (handshake_events I user pass host port rep))
      (receive (server_init (user \<noteq> None) :: ('c, 'p) server_session) (w @ early)) [] =
    map Inr (handshake_events I user pass host port rep)"
proof -
  obtain q and t :: "('c, 'p) server_session" where q: "py_request I 1 host port = Inr q"
    and o': "outcomes (sv_poll I) receive (react (accept_policy c bh bp))
        (length (login_events user pass) + Suc (Suc (Suc 0)))
        (receive (server_init (user \<noteq> None) :: ('c, 'p) server_session) (w @ early)) [] =
      map Inr (login_events user pass) @
        outcomes (sv_poll I) receive (react (accept_policy c bh bp)) (Suc (Suc (Suc 0))) t []"
    and t: "sv_out t = []" "sv_state t = PRequest" "sv_buf t = q @ early" "\<not> sv_relay_raw t"
    using server_login [OF init p, of c bh bp "Suc (Suc (Suc 0))" early] by blast
  show ?thesis
    using o' run_request [OF I t q r, of c]
    by (simp add: handshake_events_def numeral_3_eq_3 [symmetric] del: outcomes.simps(2))
qed

text \<open>The server's answer to another command than CONNECT.\<close>

lemma run_refused:
  assumes I: "posix_inet I" and s: "sv_out s = []" "sv_state s = PRequest" "sv_buf s = r @ early"
    and r: "py_request I cmd host port = Inr r" and cmd: "cmd \<noteq> 1"
    and w: "py_reply I 7 (py_lit ''0.0.0.0'') 0 = Inr w"
  shows "outcomes (sv_poll I) receive (react (accept_policy c bh bp)) (Suc (Suc 0)) s [] =
    map Inr [Send w, Close ''command not supported (only CONNECT)'']"
proof -
  let ?R = "react (accept_policy c bh bp)"
  let ?t = "s\<lparr>sv_buf := early, sv_cmd := cmd, sv_state := PClosed,
      sv_out := [Close ''command not supported (only CONNECT)'']\<rparr>"
  note b = py_request_built(1) [OF I r, of "[]"] py_request_built(2) [OF I r, of early]
  have "next_event I s = (Inr (Send w), ?t)"
    using s b w cmd
    by (simp add: next_event_def server_step_def step_request_def request_len_len queue_simps Let_def)
  then have p1: "sv_poll I s = (Some (Inr (Send w)), ?t)" by (rule poll_some) simp
  have p2: "sv_poll I ?t = (Some (Inr (Close ''command not supported (only CONNECT)'')), ?t\<lparr>sv_out := []\<rparr>)"
    by (rule poll_queue) simp_all
  show ?thesis
    by (simp only: outcomes_step [OF p1] react_accept(1) outcomes_step [OF p2] outcomes.simps(1) list.map)
qed

section \<open>End to end\<close>

text \<open>C1. The optimistic handshake works end to end. The bytes of
  \<^verbatim>\<open>optimistic_pipeline\<close>, with anything behind them, however the transport cuts them, make a
  server session whose hooks accept emit exactly the events of a handshake: the method
  selection, the login, \<^verbatim>\<open>Connect\<close> with the client's destination, the reply, \<^verbatim>\<open>Relay\<close>;
  and the client session, fed what those events send and any tunnel bytes, returns that reply
  and keeps the tunnel bytes.\<close>

theorem optimistic_end_to_end:
  fixes bound_ctx :: "'c option"
  assumes "posix_inet I" "session_init user pass = Inr s"
    and "optimistic_pipeline I s host port (cmd_value CONNECT) = Inr w"
    and "py_reply I 0 bh bp = Inr rep"
    and "concat chunks = w @ early"
  shows "outcomes (sv_poll I) receive
      (react (accept_policy bound_ctx bh bp) :: _ \<Rightarrow> ('c, 'p) server_session \<Rightarrow> _)
      (length (handshake_events I user pass host port rep)) (server_init (user \<noteq> None)) chunks =
      map Inr (handshake_events I user pass host port rep) \<and>
    (\<exists>t. feed I s (sent (handshake_events I user pass host port rep) @ tunnel) =
        (Inr (Some \<lparr>r_rep = 0, r_host = seen_host I bh, r_port = bp\<rparr>), t) \<and> leftover t = tunnel)"
proof
  have i: "sv_invar (server_init (user \<noteq> None) :: ('c, 'p) server_session)"
    by (simp add: sv_invar_def server_init_def)
  show "outcomes (sv_poll I) receive
      (react (accept_policy bound_ctx bh bp) :: _ \<Rightarrow> ('c, 'p) server_session \<Rightarrow> _)
      (length (handshake_events I user pass host port rep)) (server_init (user \<noteq> None)) chunks =
      map Inr (handshake_events I user pass host port rep)"
    using server_run.outcomes_concat [OF i] server_handshake [OF assms(1,2) _ assms(4)] assms(3,5)
    by simp
  show "\<exists>t. feed I s (sent (handshake_events I user pass host port rep) @ tunnel) =
        (Inr (Some \<lparr>r_rep = 0, r_host = seen_host I bh, r_port = bp\<rparr>), t) \<and> leftover t = tunnel"
    using session_reads [OF assms(1,2,4), of tunnel] by (simp add: sent_handshake)
qed

theorem optimistic_end_to_end_witness:
  "\<exists>s w rep. session_init (Some [97]) (Some [98]) = Inr s \<and>
     optimistic_pipeline text_inet s (py_lit ''1.2.3.4'') 80 (cmd_value CONNECT) = Inr w \<and>
     py_reply text_inet 0 (py_lit ''9.9.9.9'') 53 = Inr rep \<and>
     outcomes (sv_poll text_inet) receive
       (react (accept_policy None (py_lit ''9.9.9.9'') 53)
          :: _ \<Rightarrow> (unit, unit) server_session \<Rightarrow> _)
       (length (handshake_events text_inet (Some [97]) (Some [98]) (py_lit ''1.2.3.4'') 80 rep))
       (server_init True) [take 4 w, drop 4 w] =
     map Inr (handshake_events text_inet (Some [97]) (Some [98]) (py_lit ''1.2.3.4'') 80 rep)"
proof -
  obtain s where s: "session_init (Some [97]) (Some [98]) = Inr s" by (simp add: session_init_def)
  have q: "py_request text_inet 1 (py_lit ''1.2.3.4'') 80 = Inr [5, 1, 0, 1, 1, 2, 3, 4, 0, 80]"
    by code_simp
  have a: "py_userpass_auth [97] [98] = Inr [1, 1, 97, 1, 98]" by code_simp
  have g: "py_client_greeting [2] = Inr [5, 1, 2]" by code_simp
  have w: "optimistic_pipeline text_inet s (py_lit ''1.2.3.4'') 80 (cmd_value CONNECT) =
      Inr [5, 1, 2, 1, 1, 97, 1, 98, 5, 1, 0, 1, 1, 2, 3, 4, 0, 80]"
    using s q a g
    by (auto simp: optimistic_pipeline_def session_init_def session_method_def codec_request_def)
  have r: "py_reply text_inet 0 (py_lit ''9.9.9.9'') 53 = Inr [5, 0, 0, 1, 9, 9, 9, 9, 0, 53]"
    by code_simp
  have c: "concat [take 4 v, drop 4 v] = v @ []" for v :: bytes by simp
  note t = optimistic_end_to_end [OF text_inet.posix_inet_axioms s w r c,
      where bound_ctx = "None :: unit option" and 'p = unit, THEN conjunct1, simplified option.distinct simp_thms]
  show ?thesis by (intro exI conjI, rule s, rule w, rule r) (use t in simp)
qed

text \<open>Another command than CONNECT is refused end to end: under the same hooks the server
  answers BIND, UDP ASSOCIATE or an unknown command with the reply \<^verbatim>\<open>CMD_NOT_SUPPORTED\<close> and
  closes, it never connects, and the client's session returns that reply, which is not
  \<^verbatim>\<open>ok\<close>.\<close>

theorem command_refused_end_to_end:
  fixes bound_ctx :: "'c option"
  assumes "posix_inet I" "session_init user pass = Inr s"
    and "optimistic_pipeline I s host port cmd = Inr w" "cmd \<noteq> cmd_value CONNECT"
    and "concat chunks = w @ early"
  shows "\<exists>rep t r. outcomes (sv_poll I) receive
      (react (accept_policy bound_ctx bh bp) :: _ \<Rightarrow> ('c, 'p) server_session \<Rightarrow> _)
      (length (login_events user pass) + 2) (server_init (user \<noteq> None)) chunks =
      map Inr (login_events user pass @ [Send rep, Close ''command not supported (only CONNECT)'']) \<and>
    feed I s (sent (login_events user pass @ [Send rep])) = (Inr (Some r), t) \<and>
    r_rep r = rep_value CMD_NOT_SUPPORTED \<and> \<not> reply_ok r"
proof -
  have i: "sv_invar (server_init (user \<noteq> None) :: ('c, 'p) server_session)"
    by (simp add: sv_invar_def server_init_def)
  obtain rep where rep: "py_reply I 7 (py_lit ''0.0.0.0'') 0 = Inr rep" using py_reply_fixed [of 7 I] by auto
  obtain q and t :: "('c, 'p) server_session" where q: "py_request I cmd host port = Inr q"
    and o': "outcomes (sv_poll I) receive (react (accept_policy bound_ctx bh bp))
        (length (login_events user pass) + Suc (Suc 0))
        (receive (server_init (user \<noteq> None) :: ('c, 'p) server_session) (w @ early)) [] =
      map Inr (login_events user pass) @
        outcomes (sv_poll I) receive (react (accept_policy bound_ctx bh bp)) (Suc (Suc 0)) t []"
    and t: "sv_out t = []" "sv_state t = PRequest" "sv_buf t = q @ early"
    using server_login [OF assms(2,3), of bound_ctx bh bp "Suc (Suc 0)" early] by blast
  have c: "cmd \<noteq> 1" using assms(4) by simp
  have "sent (login_events user pass @ [Send rep]) = accept_bytes (user \<noteq> None) @ rep"
    by (simp add: login_events_def accept_bytes_def)
  then obtain u where "feed I s (sent (login_events user pass @ [Send rep])) =
      (Inr (Some \<lparr>r_rep = 7, r_host = seen_host I (py_lit ''0.0.0.0''), r_port = 0\<rparr>), u)"
    using session_reads [OF assms(1,2) rep, of "[]"] by auto
  moreover have "outcomes (sv_poll I) receive (react (accept_policy bound_ctx bh bp))
      (length (login_events user pass) + 2)
      (server_init (user \<noteq> None) :: ('c, 'p) server_session) chunks =
      map Inr (login_events user pass @ [Send rep, Close ''command not supported (only CONNECT)''])"
    using server_run.outcomes_concat [OF i, of I "accept_policy bound_ctx bh bp" _ chunks] o'
      run_refused [OF assms(1) t q c rep, of bound_ctx bh bp] assms(5)
    by (simp del: outcomes.simps(2))
  ultimately show ?thesis by (fastforce simp: reply_ok_def)
qed

theorem command_refused_end_to_end_witness:
  "\<exists>s rep t r. session_init None None = Inr s \<and>
     outcomes (sv_poll text_inet) receive
       (react (accept_policy None [97] 1) :: _ \<Rightarrow> (unit, unit) server_session \<Rightarrow> _)
       (length (login_events None None) + 2) (server_init False) [[5, 1, 0, 5, 2, 0, 3, 1, 97, 0, 80]] =
     map Inr (login_events None None @ [Send rep, Close ''command not supported (only CONNECT)'']) \<and>
     feed text_inet s (sent (login_events None None @ [Send rep])) = (Inr (Some r), t) \<and>
     \<not> reply_ok r"
proof -
  obtain s where s: "session_init None None = Inr s" by (simp add: session_init_def)
  have q: "py_request text_inet 2 [97] 80 = Inr [5, 2, 0, 3, 1, 97, 0, 80]" by code_simp
  have g: "py_client_greeting [0] = Inr [5, 1, 0]" by code_simp
  have w: "optimistic_pipeline text_inet s [97] 80 2 = Inr [5, 1, 0, 5, 2, 0, 3, 1, 97, 0, 80]"
    using s q g
    by (auto simp: optimistic_pipeline_def session_init_def session_method_def codec_request_def)
  have c: "concat [[5, 1, 0, 5, 2, 0, 3, 1, 97, 0, 80]] = [5, 1, 0, 5, 2, 0, 3, 1, 97, 0, 80] @ ([] :: bytes)"
    by simp
  have n: "(2 :: int) \<noteq> cmd_value CONNECT" by simp
  from command_refused_end_to_end [OF text_inet.posix_inet_axioms s w n c,
      where bound_ctx = "None :: unit option" and 'p = unit, of "[97]" 1] s
  show ?thesis by auto
qed

end
