(* ===== verification/RoundTrip.thy ===== *)
theory RoundTrip
  imports Messages InetText
begin

text \<open>
  Builders against parsers, through the Python binding: what one side sends is what the other
  side reads, and which arguments the builders refuse.
\<close>

section \<open>Round trips\<close>

text \<open>C27. Request round trip: the server's parser reads from any buffer that starts with a built
  request exactly the command, the port and the host as a peer sees it, however many bytes
  follow.\<close>

theorem request_roundtrip:
  assumes "posix_inet I" "codec_request I cmd host port = Inr w"
  shows "py_parse_request I (w @ rest) = Inr (Some (cmd, seen_host I host, port)) \<and>
    request_len (w @ rest) = Some (length w)"
  using py_request_built [OF assms(1), of cmd host port w rest] assms(2)
  by (simp add: codec_request_def request_len_len)

theorem request_roundtrip_witness:
  "\<exists>w. codec_request text_inet 1 (py_lit ''a.io'') 443 = Inr w \<and>
     py_parse_request text_inet (w @ [1, 2]) =
       Inr (Some (1, seen_host text_inet (py_lit ''a.io''), 443)) \<and>
     request_len (w @ [1, 2]) = Some (length w)"
proof -
  have w: "codec_request text_inet 1 (py_lit ''a.io'') 443 =
      Inr [5, 1, 0, 3, 4, 97, 46, 105, 111, 1, 187]"
    by code_simp
  note t = request_roundtrip [OF text_inet.posix_inet_axioms w, of "[1, 2]"]
  show ?thesis by (intro exI conjI, rule w, rule t [THEN conjunct1], rule t [THEN conjunct2])
qed

text \<open>Credentials round trip: whatever user name and password the client's builder accepts, up
  to 255 UTF-8 bytes each and NULs included, the server's parser gives back unchanged, and
  consumes exactly the built bytes.\<close>

theorem userpass_roundtrip:
  assumes "py_userpass_auth user pass = Inr w"
  shows "py_parse_userpass (w @ rest) = Inr (Some (user, pass)) \<and>
    (\<forall>k < length w. py_parse_userpass (take k w) = Inr None)"
proof (intro conjI allI impI)
  note b = py_userpass_built [OF assms]
  show "py_parse_userpass (w @ rest) = Inr (Some (user, pass))" by (rule b)
  obtain v where v: "parse_userpass w = Some v"
    using b(1) [of "[]"] py_parse_userpass_Some [of w user pass] by auto
  fix k assume k: "k < length w"
  have "parse_userpass (take k w) = None"
  proof (rule ccontr)
    assume "parse_userpass (take k w) \<noteq> None"
    then obtain x where x: "parse_userpass (take k w) = Some x" by auto
    have "userpass_len w = userpass_len (take k w)"
      using userpass_parser.used_extends [OF x, of "drop k w"] by simp
    then show False using userpass_parser.used_bound [OF x] b(2) [of "[]"] k by simp
  qed
  then show "py_parse_userpass (take k w) = Inr None" by (simp add: py_parse_userpass_None)
qed

theorem userpass_roundtrip_witness:
  "\<exists>w. py_userpass_auth (py_lit ''alice'') (py_lit ''pw'') = Inr w \<and>
     py_parse_userpass (w @ [5]) = Inr (Some (py_lit ''alice'', py_lit ''pw''))"
proof -
  have w: "py_userpass_auth (py_lit ''alice'') (py_lit ''pw'') =
      Inr [1, 5, 97, 108, 105, 99, 101, 2, 112, 119]"
    by code_simp
  note t = userpass_roundtrip [OF w, of "[5]"]
  show ?thesis by (intro exI conjI, rule w, rule t [THEN conjunct1])
qed

text \<open>C28. Datagram round trip: unwrapping a wrapped UDP datagram gives the fragment number, the
  host as a peer sees it, the port and the payload, whatever the payload holds.\<close>

theorem udp_roundtrip:
  assumes "posix_inet I" "codec_udp_encapsulate I host port payload frag = Inr w"
  shows "py_udp_decapsulate I w = Inr (Some (frag, seen_host I host, port, payload))"
proof -
  obtain h where h: "utf8_encode host = Some h" "0 \<notin> set h"
    and rng: "0 \<le> frag" "frag \<le> 255" "0 \<le> port" "port \<le> 65535"
    and r: "udp_encapsulate I \<lparr>a_host = h, a_port = word_of_int port\<rparr> payload (word_of_int frag) = Inr w"
    using assms(2) by (auto simp: codec_udp_encapsulate_def py_udp_encapsulate_def result_simps)
  note u = uint_of_int_small [of frag, where 'a = 8] uint_of_int_small [of port, where 'a = 16]
  show ?thesis
    using udp_built [OF assms(1) r] seen_host_decodes [OF assms(1) h(1)] u rng
    by (simp add: py_udp_decapsulate_def py_str_result_def)
qed

theorem udp_roundtrip_witness:
  "\<exists>w. codec_udp_encapsulate text_inet (py_lit ''8.8.8.8'') 53 [0, 255, 5] 0 = Inr w \<and>
     py_udp_decapsulate text_inet w =
       Inr (Some (0, seen_host text_inet (py_lit ''8.8.8.8''), 53, [0, 255, 5]))"
proof -
  have w: "codec_udp_encapsulate text_inet (py_lit ''8.8.8.8'') 53 [0, 255, 5] 0 =
      Inr [0, 0, 0, 1, 8, 8, 8, 8, 0, 53, 0, 255, 5]"
    by code_simp
  show ?thesis by (intro exI conjI, rule w, rule udp_roundtrip [OF text_inet.posix_inet_axioms w])
qed

section \<open>Canonical hosts\<close>

text \<open>A relayed address is stable: the host that a peer decodes, sent on through the same
  builder, gives the identical message bytes, so an address does not change from hop to hop.\<close>

theorem request_canonical:
  assumes "posix_inet I" "py_request I cmd host port = Inr w"
  shows "py_request I cmd (seen_host I host) port = Inr w"
proof -
  obtain h where h: "utf8_encode host = Some h" "0 \<notin> set h"
    and rng: "0 \<le> cmd" "cmd \<le> 255" "0 \<le> port" "port \<le> 65535"
    and r: "request I (word_of_int cmd) \<lparr>a_host = h, a_port = word_of_int port\<rparr> = Inr w"
    using assms(2) by (auto simp: py_request_def result_simps)
  have "request I (word_of_int cmd) \<lparr>a_host = canon_host I h, a_port = word_of_int port\<rparr> = Inr w"
    using r by (simp add: request_def addr_wire_canon [OF assms(1)])
  then show ?thesis
    using seen_host_built [OF assms(1) h] rng by (simp add: py_request_def result_simps)
qed

theorem request_canonical_witness:
  "\<exists>w. py_request text_inet 1 (py_lit ''::1'') 80 = Inr w \<and>
     py_request text_inet 1 (seen_host text_inet (py_lit ''::1'')) 80 = Inr w"
proof -
  have w: "py_request text_inet 1 (py_lit ''::1'') 80 =
      Inr [5, 1, 0, 4, 0, 0, 0, 0, 0, 0, 0, 0, 0, 0, 0, 0, 0, 0, 0, 1, 0, 80]"
    by code_simp
  show ?thesis by (intro exI conjI, rule w, rule request_canonical [OF text_inet.posix_inet_axioms w])
qed

section \<open>What the builders accept\<close>

text \<open>The request builder accepts exactly the arguments the wire format can hold: a command of
  one byte, a port of two, and a host in UTF-8 without NUL that is an address literal or at
  most 255 bytes long; everything else raises.\<close>

theorem request_accepts:
  "(\<exists>w. py_request I cmd host port = Inr w) \<longleftrightarrow>
     0 \<le> cmd \<and> cmd \<le> 255 \<and> 0 \<le> port \<and> port \<le> 65535 \<and>
     (\<exists>h. utf8_encode host = Some h \<and> 0 \<notin> set h \<and>
        (fst (classify_host I h) \<noteq> kDomain \<or> length (snd (classify_host I h)) \<le> 255))"
proof -
  have r: "(\<exists>w. request I c \<lparr>a_host = h, a_port = p\<rparr> = Inr w) \<longleftrightarrow>
      fst (classify_host I h) \<noteq> kDomain \<or> length (snd (classify_host I h)) \<le> 255" for c h p
    by (auto simp: request_def encode_address_def Let_def split: prod.splits)
  show ?thesis
    using r by (fastforce simp: py_request_def result_simps)
qed

theorem request_accepts_witness:
  "(\<exists>w. py_request text_inet 1 [97] 80 = Inr w) \<and> \<not> (\<exists>w. py_request text_inet 1 [97] 65536 = Inr w)"
proof
  have "utf8_encode [97] = Some [97]" by code_simp
  moreover have "length (snd (classify_host text_inet [97])) \<le> 255" by code_simp
  ultimately show "\<exists>w. py_request text_inet 1 [97] 80 = Inr w"
    using request_accepts [of text_inet 1 "[97]" 80] by simp
  show "\<not> (\<exists>w. py_request text_inet 1 [97] 65536 = Inr w)"
    using request_accepts [of text_inet 1 "[97]" 65536] by simp
qed

end
