(* ===== verification/AioClient.thy ===== *)
theory AioClient
  imports Transport
begin

text \<open>
  \<^verbatim>\<open>optisocks5/aio/client.py\<close>: the asyncio clients. The state of a connection is a record of the
  loop's clock, the instant at which \<^verbatim>\<open>asyncio.timeout\<close> cancels, the reader's buffer and what
  will arrive, how long each \<^verbatim>\<open>drain\<close> and the final \<^verbatim>\<open>wait_closed\<close> take, and what was written.
  \<^verbatim>\<open>StreamReader\<close> and \<^verbatim>\<open>StreamWriter\<close> are modelled as the library documents them. Time passes
  only where the code awaits, and a task that awaits past the deadline is cancelled at it, which
  the \<^verbatim>\<open>timeout\<close> block turns into \<^verbatim>\<open>TimeoutError\<close>.
\<close>

section \<open>Streams\<close>

record astream =
  as_now :: int
  as_deadline :: int
  as_buf :: bytes
  as_eof :: bool
  as_rx :: arrivals
  as_drains :: "(int \<times> py_exn option) list"
  as_closing :: "int \<times> py_exn option"
  as_tx :: bytes
  as_open :: bool

text \<open>
  \<^verbatim>\<open>_wait_for_data\<close>: the next arrival goes into the buffer. An error that the transport reported
  stays, and is raised by every later read.
\<close>

definition aio_wait :: "(astream, unit) io" where
  "aio_wait s =
     (case as_rx s of
        [] \<Rightarrow> (Inl TimeoutErr, s\<lparr>as_now := max (as_now s) (as_deadline s)\<rparr>)
      | (at, m) # rest \<Rightarrow>
          if at > as_deadline s
          then (Inl TimeoutErr, s\<lparr>as_now := max (as_now s) (as_deadline s)\<rparr>)
          else (case m of
                  Inl e \<Rightarrow> (Inl e, s\<lparr>as_now := max (as_now s) at\<rparr>)
                | Inr b \<Rightarrow>
                    if b = [] then (Inr (), s\<lparr>as_now := max (as_now s) at, as_eof := True\<rparr>)
                    else (Inr (), s\<lparr>as_now := max (as_now s) at, as_buf := as_buf s @ b,
                                    as_rx := rest\<rparr>)))"

definition waits_left :: "astream \<Rightarrow> nat" where
  "waits_left s = length (as_rx s) + (if as_eof s then 0 else 1)"

lemma aio_wait_progress:
  "aio_wait s = (Inr u, s') \<Longrightarrow> \<not> as_eof s \<Longrightarrow> waits_left s' < waits_left s"
  by (auto simp: aio_wait_def waits_left_def split: list.splits if_splits sum.splits)

function aio_readexactly :: "nat \<Rightarrow> (astream, bytes) io" where
  "aio_readexactly n s =
     (if length (as_buf s) < n then
        (if as_eof s then (Inl IncompleteReadErr, s\<lparr>as_buf := []\<rparr>)
         else (case aio_wait s of
                 (Inl e, s') \<Rightarrow> (Inl e, s')
               | (Inr _, s') \<Rightarrow> aio_readexactly n s'))
      else (Inr (take n (as_buf s)), s\<lparr>as_buf := drop n (as_buf s)\<rparr>))"
  by pat_completeness auto
termination
  by (relation "measure (\<lambda>(n, s). waits_left s)") (auto dest: aio_wait_progress [OF sym])

declare aio_readexactly.simps [simp del]

definition aio_read :: "nat \<Rightarrow> (astream, bytes) io" where
  "aio_read n =
     io_bind (\<lambda>s. if as_buf s = [] \<and> \<not> as_eof s then aio_wait s else (Inr (), s)) (\<lambda>_ s.
     (Inr (take n (as_buf s)), s\<lparr>as_buf := drop n (as_buf s)\<rparr>))"

text \<open>\<^verbatim>\<open>writer.write(d)\<close> and then \<^verbatim>\<open>await writer.drain()\<close>\<close>

definition aio_send :: "bytes \<Rightarrow> (astream, unit) io" where
  "aio_send d s =
     (let s = s\<lparr>as_tx := as_tx s @ d\<rparr> in
      case as_drains s of
        [] \<Rightarrow> (Inr (), s)
      | (t, e) # rest \<Rightarrow>
          if as_now s + max 0 t > as_deadline s
          then (Inl TimeoutErr, s\<lparr>as_now := max (as_now s) (as_deadline s), as_drains := rest\<rparr>)
          else (case e of
                  Some x \<Rightarrow> (Inl x, s\<lparr>as_now := as_now s + max 0 t, as_drains := rest\<rparr>)
                | None \<Rightarrow> (Inr (), s\<lparr>as_now := as_now s + max 0 t, as_drains := rest\<rparr>)))"

text \<open>
  \<^verbatim>\<open>_abort\<close>: \<^verbatim>\<open>wait_closed\<close> runs outside the timeout and its \<^verbatim>\<open>OSError\<close>s are swallowed.
\<close>

definition aio_abort :: "(astream, unit) io" where
  "aio_abort s =
     (let s = s\<lparr>as_open := False, as_now := as_now s + max 0 (fst (as_closing s))\<rparr> in
      case snd (as_closing s) of
        None \<Rightarrow> (Inr (), s)
      | Some e \<Rightarrow> if is_os_error e then (Inr (), s) else (Inl e, s))"

section \<open>Reading\<close>

definition aio_read_reply :: "inet_api \<Rightarrow> (astream, reply_obj) io" where
  "aio_read_reply I = read_reply I aio_readexactly"

function aio_loop :: "inet_api \<Rightarrow> session \<Rightarrow> (astream, reply_obj \<times> session) io" where
  "aio_loop I sess s =
     (case aio_read 4096 s of
        (Inl e, s') \<Rightarrow> (Inl e, s')
      | (Inr chunk, s') \<Rightarrow>
          if chunk = []
          then (Inl (Socks5Err ''proxy closed connection during handshake''), s')
          else (case feed I sess chunk of
                  (Inl e, sess') \<Rightarrow> (Inl e, s')
                | (Inr (Some r), sess') \<Rightarrow> (Inr (r, sess'), s')
                | (Inr None, sess') \<Rightarrow> aio_loop I sess' s'))"
  by pat_completeness auto

definition aio_room :: "astream \<Rightarrow> nat" where
  "aio_room s = length (as_buf s) + rx_size (as_rx s)"

lemma aio_wait_room: "aio_wait s = (Inr u, s') \<Longrightarrow> aio_room s' = aio_room s"
  by (auto simp: aio_wait_def aio_room_def split: list.splits if_splits sum.splits)

lemma aio_read_room:
  assumes "aio_read n s = (Inr d, s')" "d \<noteq> []"
  shows "aio_room s' < aio_room s"
proof -
  obtain t where t: "aio_room t = aio_room s" "d = take n (as_buf t)"
    "s' = t\<lparr>as_buf := drop n (as_buf t)\<rparr>"
    using assms(1) aio_wait_room by (auto simp: aio_read_def io_simps split: if_splits)
  with assms(2) show ?thesis by (cases n; cases "as_buf t") (auto simp: aio_room_def)
qed

termination aio_loop
  by (relation "measure (\<lambda>(I, sess, s). aio_room s)") (auto dest!: aio_read_room [OF sym])

declare aio_loop.simps [simp del]

section \<open>The clients\<close>

record aclient =
  ac_user :: "pystr option"
  ac_pass :: "pystr option"
  ac_timeout :: int
  ac_source :: "(pystr \<times> int) option"
  ac_streams :: "astream option"
  ac_bound :: "(pystr \<times> int) option"
  ac_leftover :: bytes

definition aclient_init ::
  "pystr option \<Rightarrow> pystr option \<Rightarrow> int \<Rightarrow> (pystr \<times> int) option \<Rightarrow> py_exn + aclient" where
  "aclient_init username password timeout source_addr =
     (if (username = None) \<noteq> (password = None)
      then Inl (ValueErr ''username and password must be given together'')
      else Inr \<lparr>ac_user = username, ac_pass = password, ac_timeout = timeout,
                ac_source = source_addr, ac_streams = None, ac_bound = None, ac_leftover = []\<rparr>)"

text \<open>A \<^verbatim>\<open>_negotiate\<close> returns the reply and, when it sets \<^verbatim>\<open>self.leftover\<close>, the bytes.\<close>

type_synonym aio_negotiation =
  "inet_api \<Rightarrow> pystr option \<Rightarrow> pystr option \<Rightarrow> pystr \<Rightarrow> int \<Rightarrow> int \<Rightarrow>
     (astream, reply_obj \<times> bytes option) io"

definition aio_optimistic :: aio_negotiation where
  "aio_optimistic I user pass host port cmd =
     io_bind (io_lift (session_init user pass)) (\<lambda>sess.
     io_bind (pipelined I aio_send (aio_loop I) sess host port cmd) (\<lambda>(r, sess').
     io_return (r, Some (leftover sess'))))"

definition aio_staged :: aio_negotiation where
  "aio_staged I user pass host port cmd =
     io_bind (staged_negotiate I aio_send aio_readexactly user pass host port cmd) (\<lambda>r.
     io_return (r, None))"

type_synonym aio_result = "(py_exn + reply_obj) \<times> aclient \<times> astream option"

text \<open>The exception that leaves the handler: the one \<^verbatim>\<open>_abort\<close> raises, else the one caught.\<close>

definition abort_raise :: "py_exn \<Rightarrow> aclient \<Rightarrow> astream \<Rightarrow> aio_result" where
  "abort_raise e c s =
     (case aio_abort s of
        (Inl e', s') \<Rightarrow> (Inl e', c, Some s')
      | (Inr _, s') \<Rightarrow> (Inl e, c, Some s'))"

text \<open>
  \<^verbatim>\<open>connect\<close>, entered at \<open>t0\<close>. A connection that is not there when the budget ends is dropped by
  \<^verbatim>\<open>open_connection\<close>, and there is no writer to clean up.
\<close>

definition aio_connect ::
  "inet_api \<Rightarrow> aio_negotiation \<Rightarrow> int \<Rightarrow> (py_exn + astream) \<Rightarrow> aclient \<Rightarrow> pystr \<Rightarrow> int \<Rightarrow> int \<Rightarrow>
     aio_result" where
  "aio_connect I negotiate t0 dial c host port cmd =
     (if ac_streams c \<noteq> None
      then (Inl (RuntimeErr ''client already connected; aclose() first''), c, None)
      else (case dial of
              Inl e \<Rightarrow> (Inl e, c, None)
            | Inr s \<Rightarrow>
                let deadline = t0 + ac_timeout c
                in if as_now s > deadline then (Inl TimeoutErr, c, None)
                   else (case negotiate I (ac_user c) (ac_pass c) host port cmd
                                (s\<lparr>as_deadline := deadline\<rparr>) of
                           (Inl e, s') \<Rightarrow> abort_raise e c s'
                         | (Inr (r, lo), s') \<Rightarrow>
                             let c = (case lo of None \<Rightarrow> c | Some l \<Rightarrow> c\<lparr>ac_leftover := l\<rparr>)
                             in if \<not> reply_ok r
                                then abort_raise (Socks5Err (''request failed: '' @ rep_name (r_rep r) @
                                       '' ('' @ dec_int (r_rep r) @ '')'')) c s'
                                else (Inr r, c\<lparr>ac_streams := Some s',
                                               ac_bound := Some (r_host r, r_port r)\<rparr>, Some s'))))"

definition aio_aclose :: "aclient \<Rightarrow> (py_exn + unit) \<times> aclient \<times> astream option" where
  "aio_aclose c =
     (case ac_streams c of
        None \<Rightarrow> (Inr (), c, None)
      | Some s \<Rightarrow>
          (case aio_abort s of
             (Inl e, s') \<Rightarrow> (Inl e, c\<lparr>ac_streams := Some s'\<rparr>, Some s')
           | (Inr _, s') \<Rightarrow> (Inr (), c\<lparr>ac_streams := None\<rparr>, Some s')))"

section \<open>The bytes still to come\<close>

definition aio_stream :: "astream \<Rightarrow> bytes" where
  "aio_stream s = as_buf s @ (if as_eof s then [] else rx_stream (as_rx s))"

lemma aio_stream_deadline [simp]: "aio_stream (s\<lparr>as_deadline := d\<rparr>) = aio_stream s"
  by (simp add: aio_stream_def)

lemma aio_wait_stream: "aio_wait s = (Inr u, s') \<Longrightarrow> \<not> as_eof s \<Longrightarrow> aio_stream s' = aio_stream s"
  by (auto simp: aio_wait_def aio_stream_def split: list.splits if_splits sum.splits)

lemma aio_readexactly_stream:
  "aio_readexactly n s = (Inr d, s') \<Longrightarrow> length d = n \<and> aio_stream s = d @ aio_stream s'"
proof (induction n s rule: aio_readexactly.induct)
  case (1 n s)
  show ?case
  proof (cases "length (as_buf s) < n")
    case False
    then show ?thesis
      using "1.prems" by (auto simp: aio_readexactly.simps [of n s] aio_stream_def)
  next
    case True
    then obtain u t where t: "\<not> as_eof s" "aio_wait s = (Inr u, t)" "aio_readexactly n t = (Inr d, s')"
      using "1.prems" by (auto simp: aio_readexactly.simps [of n s] split: if_splits prod.splits sum.splits)
    from "1.IH" [OF True t(1) t(2) [symmetric] refl t(3)] aio_wait_stream [OF t(2,1)]
    show ?thesis by simp
  qed
qed

lemma aio_send_simps:
  "aio_send d s = (r, s') \<Longrightarrow> aio_stream s' = aio_stream s"
  "aio_send d s = (r, s') \<Longrightarrow> as_open s' = as_open s"
  "aio_send d s = (r, s') \<Longrightarrow> as_deadline s' = as_deadline s"
  "aio_send d s = (r, s') \<Longrightarrow> as_closing s' = as_closing s"
  "aio_send d s = (r, s') \<Longrightarrow> as_now s \<le> as_deadline s \<Longrightarrow> as_now s' \<le> as_deadline s"
  by (auto simp: aio_send_def aio_stream_def Let_def split: list.splits if_splits option.splits)

lemma aio_wait_simps:
  "aio_wait s = (r, s') \<Longrightarrow> as_open s' = as_open s"
  "aio_wait s = (r, s') \<Longrightarrow> as_deadline s' = as_deadline s"
  "aio_wait s = (r, s') \<Longrightarrow> as_closing s' = as_closing s"
  "aio_wait s = (r, s') \<Longrightarrow> as_now s \<le> as_deadline s \<Longrightarrow> as_now s' \<le> as_deadline s"
  by (auto simp: aio_wait_def split: list.splits if_splits sum.splits)

interpretation aio_exact: exact_transport aio_send aio_readexactly aio_stream
  by unfold_locales (auto dest: aio_readexactly_stream aio_send_simps)

section \<open>Prompt streams\<close>

text \<open>Everything the peer will send arrives before the deadline and nothing fails.\<close>

definition aio_prompt :: "astream \<Rightarrow> bool" where
  "aio_prompt s \<longleftrightarrow>
     as_drains s = [] \<and> \<not> as_eof s \<and> as_now s \<le> as_deadline s \<and>
     (\<forall>x \<in> set (as_rx s). fst x \<le> as_deadline s \<and> (\<exists>b. snd x = Inr b \<and> b \<noteq> []))"

lemma aio_wait_prompt:
  assumes "aio_prompt s" "rx_stream (as_rx s) \<noteq> []"
  shows "\<exists>s'. aio_wait s = (Inr (), s') \<and> aio_prompt s' \<and> as_buf s' \<noteq> []"
proof -
  obtain at m rest where r: "as_rx s = (at, m) # rest" using assms(2) by (cases "as_rx s") auto
  with assms(1) obtain b where "m = Inr b" "b \<noteq> []" "at \<le> as_deadline s"
    by (auto simp: aio_prompt_def)
  then show ?thesis using r assms(1) by (auto simp: aio_wait_def aio_prompt_def)
qed

lemma aio_readexactly_prompt:
  "aio_prompt s \<Longrightarrow> n \<le> length (aio_stream s) \<Longrightarrow>
     \<exists>d s'. aio_readexactly n s = (Inr d, s') \<and> aio_prompt s'"
proof (induction n s rule: aio_readexactly.induct)
  case (1 n s)
  show ?case
  proof (cases "length (as_buf s) < n")
    case False
    then show ?thesis
      using "1.prems"(1) by (simp add: aio_readexactly.simps [of n s] aio_prompt_def)
  next
    case True
    have eof: "\<not> as_eof s" using "1.prems"(1) by (simp add: aio_prompt_def)
    then have "rx_stream (as_rx s) \<noteq> []" using True "1.prems"(2) by (auto simp: aio_stream_def)
    then obtain t where t: "aio_wait s = (Inr (), t)" "aio_prompt t"
      using aio_wait_prompt "1.prems"(1) by blast
    have "n \<le> length (aio_stream t)" using aio_wait_stream [OF t(1) eof] "1.prems"(2) by simp
    from "1.IH" [OF True eof t(1) [symmetric] refl t(2) this] show ?thesis
      using True eof t(1) by (simp add: aio_readexactly.simps [of n s])
  qed
qed

lemma aio_send_prompt: "aio_prompt s \<Longrightarrow> \<exists>s'. aio_send d s = (Inr (), s') \<and> aio_prompt s'"
  by (simp add: aio_send_def aio_prompt_def)

interpretation aio_ready: prompt_transport aio_send aio_readexactly aio_stream aio_prompt
  by unfold_locales (auto dest: aio_readexactly_prompt aio_send_prompt)

section \<open>Greedy reading\<close>

lemma aio_read_stream:
  assumes "aio_read n s = (Inr d, s')"
  shows "aio_stream s = d @ aio_stream s'"
proof -
  obtain t where st: "aio_stream t = aio_stream s" and d: "d = take n (as_buf t)"
    "s' = t\<lparr>as_buf := drop n (as_buf t)\<rparr>"
    using assms aio_wait_stream by (auto simp: aio_read_def io_simps split: if_splits)
  from d have "aio_stream t = d @ aio_stream s'"
    by (simp add: aio_stream_def append_assoc [symmetric] del: append_assoc)
  with st show ?thesis by simp
qed

lemma aio_read_prompt:
  assumes "aio_prompt s" "aio_stream s \<noteq> []" "0 < n"
  shows "\<exists>d s'. aio_read n s = (Inr d, s') \<and> d \<noteq> [] \<and> aio_prompt s'"
proof (cases "as_buf s")
  case Nil
  then have "rx_stream (as_rx s) \<noteq> []" "\<not> as_eof s"
    using assms(1,2) by (auto simp: aio_stream_def aio_prompt_def)
  with aio_wait_prompt [OF assms(1)] obtain t where "aio_wait s = (Inr (), t)" "aio_prompt t"
    "as_buf t \<noteq> []" by blast
  then show ?thesis
    using Nil \<open>\<not> as_eof s\<close> assms(3) by (simp add: aio_read_def io_bind_def aio_prompt_def)
next
  case (Cons x xs)
  then show ?thesis using assms(1,3) by (cases n) (auto simp: aio_read_def io_bind_def aio_prompt_def)
qed

lemma aio_loop_step: "aio_loop I sess s = loop_step I (aio_read 4096) (aio_loop I) sess s"
  by (subst aio_loop.simps)
     (auto simp: loop_step_def io_bind_def io_raise_def io_return_def
        split: prod.split sum.split option.split)

interpretation aio_greedy: greedy_transport I "aio_read 4096" aio_stream aio_room aio_prompt
    "aio_loop I" aio_send for I
  using aio_read_prompt [of _ 4096]
  by unfold_locales
     (auto dest: aio_read_stream aio_read_room aio_send_simps aio_send_prompt intro: aio_loop_step)

section \<open>The clock, and what no read or write changes\<close>

text \<open>A connection that is within its deadline, and that will close as it would have.\<close>

definition aio_within :: "int \<Rightarrow> bool \<Rightarrow> int \<times> py_exn option \<Rightarrow> astream \<Rightarrow> bool" where
  "aio_within deadline b closing s \<longleftrightarrow>
     as_now s \<le> deadline \<and> as_deadline s = deadline \<and> as_open s = b \<and> as_closing s = closing"

lemma aio_wait_within: "aio_within d b k s \<Longrightarrow> aio_wait s = (r, s') \<Longrightarrow> aio_within d b k s'"
  using aio_wait_simps [of s r s'] by (auto simp: aio_within_def)

lemma aio_send_within: "aio_within d b k s \<Longrightarrow> aio_send x s = (r, s') \<Longrightarrow> aio_within d b k s'"
  using aio_send_simps [of x s r s'] by (auto simp: aio_within_def)

lemma aio_buf_within [simp]: "aio_within d b k (s\<lparr>as_buf := x\<rparr>) = aio_within d b k s"
  by (simp add: aio_within_def)

lemma aio_read_within: "aio_within d b k s \<Longrightarrow> aio_read n s = (r, s') \<Longrightarrow> aio_within d b k s'"
  by (auto simp: aio_read_def io_bind_def split: if_splits prod.splits sum.splits dest: aio_wait_within)

lemma aio_readexactly_within:
  "aio_within d b k s \<Longrightarrow> aio_readexactly n s = (r, s') \<Longrightarrow> aio_within d b k s'"
proof (induction n s rule: aio_readexactly.induct)
  case (1 n s)
  obtain q t where t: "aio_wait s = (q, t)" by (cases "aio_wait s")
  note w = aio_wait_within [OF "1.prems"(1) t]
  show ?case
  proof (cases "length (as_buf s) < n \<and> \<not> as_eof s \<and> (\<exists>u. q = Inr u)")
    case True
    then obtain u where u: "length (as_buf s) < n" "\<not> as_eof s" "q = Inr u" by blast
    then have "aio_readexactly n t = (r, s')"
      using "1.prems"(2) t by (simp add: aio_readexactly.simps [of n s])
    from "1.IH" [OF u(1,2) t [symmetric] u(3) w this] show ?thesis .
  next
    case False
    then show ?thesis
      using "1.prems" t w
      by (cases q) (auto simp: aio_readexactly.simps [of n s] split: if_splits)
  qed
qed

interpretation aio_timed: timed_transport aio_send aio_readexactly "aio_within d b k" "aio_within d b k"
  for d b k
  by unfold_locales (auto dest: aio_send_within aio_readexactly_within)

end
