(* ===== verification/SyncClient.thy ===== *)
theory SyncClient
  imports Transport
begin

text \<open>
  \<^verbatim>\<open>optisocks5/sync/client.py\<close>: the blocking clients. A socket is a record of the clock, the
  timeout in force, what the peer will send and when, how long each \<^verbatim>\<open>sendall\<close> will take, and
  what was sent. Times are integers in one unit. The operations of \<^verbatim>\<open>socket\<close> are modelled as
  the library documents them; the peer's chunks and instants are arbitrary, and the sockets that
  \<^verbatim>\<open>create_connection\<close> returns are an argument of the clients.
\<close>

section \<open>Sockets\<close>

record sock =
  sk_now :: int
  sk_timeout :: int
  sk_rx :: arrivals
  sk_sends :: "(int \<times> py_exn option) list"
  sk_tx :: bytes
  sk_open :: bool

text \<open>
  \<^verbatim>\<open>recv(n)\<close>: waits for the next arrival, no longer than the timeout. The empty chunk is the
  end of the stream, which later calls see again. A peer that sends nothing more makes every
  call time out.
\<close>

definition sock_recv :: "nat \<Rightarrow> (sock, bytes) io" where
  "sock_recv n s =
     (case sk_rx s of
        [] \<Rightarrow> (Inl TimeoutErr, s\<lparr>sk_now := sk_now s + sk_timeout s\<rparr>)
      | (at, m) # rest \<Rightarrow>
          if at - sk_now s > sk_timeout s
          then (Inl TimeoutErr, s\<lparr>sk_now := sk_now s + sk_timeout s\<rparr>)
          else (case m of
                  Inl e \<Rightarrow> (Inl e, s\<lparr>sk_now := max (sk_now s) at, sk_rx := rest\<rparr>)
                | Inr b \<Rightarrow>
                    (Inr (take n b),
                     s\<lparr>sk_now := max (sk_now s) at,
                       sk_rx := (if b = [] then sk_rx s
                                 else if n < length b then (at, Inr (drop n b)) # rest
                                 else rest)\<rparr>)))"

text \<open>
  \<^verbatim>\<open>sendall\<close>: the next entry of \<open>sk_sends\<close> says how long it takes and how it ends; with no
  entry left it returns at once. How much of the data went out when it fails is not known.
\<close>

definition sock_sendall :: "bytes \<Rightarrow> (sock, unit) io" where
  "sock_sendall d s =
     (case sk_sends s of
        [] \<Rightarrow> (Inr (), s\<lparr>sk_tx := sk_tx s @ d\<rparr>)
      | (t, e) # rest \<Rightarrow>
          if t > sk_timeout s
          then (Inl TimeoutErr, s\<lparr>sk_now := sk_now s + sk_timeout s, sk_sends := rest\<rparr>)
          else (case e of
                  Some x \<Rightarrow> (Inl x, s\<lparr>sk_now := sk_now s + max 0 t, sk_sends := rest\<rparr>)
                | None \<Rightarrow>
                    (Inr (), s\<lparr>sk_now := sk_now s + max 0 t, sk_sends := rest,
                               sk_tx := sk_tx s @ d\<rparr>)))"

definition sock_close :: "sock \<Rightarrow> sock" where
  "sock_close s = s\<lparr>sk_open := False\<rparr>"

section \<open>Reading under a deadline\<close>

definition arm :: "int \<Rightarrow> (sock, unit) io" where
  "arm deadline s =
     (let remaining = deadline - sk_now s
      in if remaining \<le> 0 then (Inl (Socks5Err ''handshake timed out''), s)
         else (Inr (), s\<lparr>sk_timeout := remaining\<rparr>))"

function recv_exact_loop :: "int \<Rightarrow> nat \<Rightarrow> bytes \<Rightarrow> (sock, bytes) io" where
  "recv_exact_loop deadline n buf s =
     (if length buf < n then
        (case arm deadline s of
           (Inl e, s1) \<Rightarrow> (Inl e, s1)
         | (Inr _, s1) \<Rightarrow>
             (case sock_recv (n - length buf) s1 of
                (Inl e, s2) \<Rightarrow> (Inl e, s2)
              | (Inr chunk, s2) \<Rightarrow>
                  if chunk = []
                  then (Inl (Socks5Err ''proxy closed connection during handshake''), s2)
                  else recv_exact_loop deadline n (buf @ chunk) s2))
      else (Inr buf, s))"
  by pat_completeness auto
termination
  by (relation "measure (\<lambda>(deadline, n, buf, s). n - length buf)")
     (auto intro!: diff_less_mono2)

declare recv_exact_loop.simps [simp del]

definition recv_exact :: "int \<Rightarrow> nat \<Rightarrow> (sock, bytes) io" where
  "recv_exact deadline n = recv_exact_loop deadline n []"

definition recv_reply :: "inet_api \<Rightarrow> int \<Rightarrow> (sock, reply_obj) io" where
  "recv_reply I deadline = read_reply I (recv_exact deadline)"

section \<open>The optimistic read loop\<close>

lemma sock_recv_smaller:
  assumes "sock_recv n s = (Inr d, s')" "d \<noteq> []"
  shows "rx_size (sk_rx s') < rx_size (sk_rx s)"
proof -
  obtain at b rest where r: "sk_rx s = (at, Inr b) # rest" "d = take n b" and b: "b \<noteq> []" and
    s': "sk_rx s' = (if n < length b then (at, Inr (drop n b)) # rest else rest)"
    using assms by (auto simp: sock_recv_def split: list.splits if_splits sum.splits)
  have "0 < n" using assms(2) r(2) by (cases n) auto
  then show ?thesis using r(1) s' b by (cases "n < length b") simp_all
qed

lemma arm_rx: "arm deadline s = (r, s') \<Longrightarrow> sk_rx s' = sk_rx s"
  by (auto simp: arm_def Let_def split: if_splits)

function optimistic_loop ::
  "inet_api \<Rightarrow> int \<Rightarrow> session \<Rightarrow> (sock, reply_obj \<times> session) io" where
  "optimistic_loop I deadline sess s =
     (case arm deadline s of
        (Inl e, s1) \<Rightarrow> (Inl e, s1)
      | (Inr _, s1) \<Rightarrow>
          (case sock_recv 4096 s1 of
             (Inl e, s2) \<Rightarrow> (Inl e, s2)
           | (Inr chunk, s2) \<Rightarrow>
               if chunk = []
               then (Inl (Socks5Err ''proxy closed connection during handshake''), s2)
               else (case feed I sess chunk of
                       (Inl e, sess') \<Rightarrow> (Inl e, s2)
                     | (Inr (Some r), sess') \<Rightarrow> (Inr (r, sess'), s2)
                     | (Inr None, sess') \<Rightarrow> optimistic_loop I deadline sess' s2)))"
  by pat_completeness auto
termination
  by (relation "measure (\<lambda>(I, deadline, sess, s). rx_size (sk_rx s))")
     (auto dest!: sock_recv_smaller [OF sym] arm_rx [OF sym])

declare optimistic_loop.simps [simp del]

section \<open>The clients\<close>

record client =
  c_user :: "pystr option"
  c_pass :: "pystr option"
  c_timeout :: int
  c_sock :: "sock option"
  c_bound :: "(pystr \<times> int) option"
  c_leftover :: bytes

definition client_init :: "pystr option \<Rightarrow> pystr option \<Rightarrow> int \<Rightarrow> py_exn + client" where
  "client_init username password timeout =
     (if (username = None) \<noteq> (password = None)
      then Inl (ValueErr ''username and password must be given together'')
      else Inr \<lparr>c_user = username, c_pass = password, c_timeout = timeout, c_sock = None,
                c_bound = None, c_leftover = []\<rparr>)"

definition request_failed :: "reply_obj \<Rightarrow> py_exn" where
  "request_failed r =
     Socks5Err (''request failed: '' @ rep_name (r_rep r) @ '' ('' @ dec_int (r_rep r) @ '')'')"

text \<open>
  The result of a \<^verbatim>\<open>connect\<close>: what it returns or raises, the client object, and the socket it
  opened, if it came to that.
\<close>

type_synonym connect_result = "(py_exn + reply_obj) \<times> client \<times> sock option"

definition finish :: "client \<Rightarrow> sock \<Rightarrow> reply_obj \<Rightarrow> connect_result" where
  "finish c s r =
     (if \<not> reply_ok r then (Inl (request_failed r), c, Some (sock_close s))
      else (Inr r, c\<lparr>c_sock := Some s, c_bound := Some (r_host r, r_port r)\<rparr>, Some s))"

definition client_close :: "client \<Rightarrow> client \<times> sock option" where
  "client_close c =
     (case c_sock c of
        None \<Rightarrow> (c, None)
      | Some s \<Rightarrow> (c\<lparr>c_sock := None\<rparr>, Some (sock_close s)))"

definition optimistic_connect ::
  "inet_api \<Rightarrow> (py_exn + sock) \<Rightarrow> client \<Rightarrow> pystr \<Rightarrow> int \<Rightarrow> int \<Rightarrow> connect_result" where
  "optimistic_connect I dial c host port cmd =
     (if c_sock c \<noteq> None
      then (Inl (RuntimeErr ''client already connected; close() first''), c, None)
      else case session_init (c_user c) (c_pass c) of
             Inl e \<Rightarrow> (Inl e, c, None)
           | Inr sess \<Rightarrow>
               (case dial of
                  Inl e \<Rightarrow> (Inl e, c, None)
                | Inr s \<Rightarrow>
                    let deadline = sk_now s + c_timeout c;
                        (r, s') = pipelined I sock_sendall (optimistic_loop I deadline) sess
                                    host port cmd s
                    in case r of
                         Inl e \<Rightarrow> (Inl e, c, Some (sock_close s'))
                       | Inr (rp, sess') \<Rightarrow>
                           finish (c\<lparr>c_leftover := leftover sess'\<rparr>) s' rp))"

definition staged_connect ::
  "inet_api \<Rightarrow> (py_exn + sock) \<Rightarrow> client \<Rightarrow> pystr \<Rightarrow> int \<Rightarrow> int \<Rightarrow> connect_result" where
  "staged_connect I dial c host port cmd =
     (if c_sock c \<noteq> None
      then (Inl (RuntimeErr ''client already connected; close() first''), c, None)
      else case dial of
             Inl e \<Rightarrow> (Inl e, c, None)
           | Inr s \<Rightarrow>
               let deadline = sk_now s + c_timeout c;
                   (r, s') = staged_negotiate I sock_sendall (recv_exact deadline)
                               (c_user c) (c_pass c) host port cmd s
               in case r of
                    Inl e \<Rightarrow> (Inl e, c, Some (sock_close s'))
                  | Inr rp \<Rightarrow> finish c s' rp)"

section \<open>The bytes still to come\<close>

lemma sock_recv_stream:
  assumes "sock_recv n s = (Inr d, s')"
  shows "rx_stream (sk_rx s) = d @ rx_stream (sk_rx s')" "length d \<le> n"
proof -
  obtain at b rest where r: "sk_rx s = (at, Inr b) # rest" "d = take n b" and
    s': "sk_rx s' = (if b = [] then sk_rx s else if n < length b then (at, Inr (drop n b)) # rest else rest)"
    using assms by (auto simp: sock_recv_def split: list.splits if_splits sum.splits)
  show "rx_stream (sk_rx s) = d @ rx_stream (sk_rx s')" using r s' by auto
  show "length d \<le> n" using r by simp
qed

lemma recv_exact_loop_stream:
  "recv_exact_loop deadline n buf s = (Inr d, s') \<Longrightarrow> length buf \<le> n \<Longrightarrow>
     \<exists>x. d = buf @ x \<and> length d = n \<and> rx_stream (sk_rx s) = x @ rx_stream (sk_rx s')"
proof (induction deadline n buf s rule: recv_exact_loop.induct)
  case (1 deadline n buf s)
  show ?case
  proof (cases "length buf < n")
    case False
    then show ?thesis using "1.prems" by (simp add: recv_exact_loop.simps [of deadline n buf s])
  next
    case True
    then obtain u s1 chunk s2 where a: "arm deadline s = (Inr u, s1)"
      and r: "sock_recv (n - length buf) s1 = (Inr chunk, s2)" and c: "chunk \<noteq> []"
      and rec: "recv_exact_loop deadline n (buf @ chunk) s2 = (Inr d, s')"
      using "1.prems"(1) by (auto simp: recv_exact_loop.simps [of deadline n buf s]
          split: prod.splits sum.splits if_splits)
    note st = sock_recv_stream [OF r]
    have "length (buf @ chunk) \<le> n" using st(2) True by simp
    from "1.IH" [OF True a [symmetric] refl r [symmetric] refl c rec this] obtain x where
      "d = (buf @ chunk) @ x" "length d = n" "rx_stream (sk_rx s2) = x @ rx_stream (sk_rx s')" by blast
    then show ?thesis using st(1) arm_rx [OF a] by simp
  qed
qed

lemma sock_sendall_rx: "sock_sendall d s = (r, s') \<Longrightarrow> sk_rx s' = sk_rx s"
  by (auto simp: sock_sendall_def split: list.splits if_splits option.splits)

interpretation sync_exact: exact_transport sock_sendall "recv_exact deadline" "\<lambda>s. rx_stream (sk_rx s)"
  for deadline
proof unfold_locales
  fix n s d s' assume "recv_exact deadline n s = (Inr d, s')"
  then show "length d = n \<and> rx_stream (sk_rx s) = d @ rx_stream (sk_rx s')"
    using recv_exact_loop_stream [of deadline n "[]" s d s'] by (simp add: recv_exact_def)
next
  fix d s r s' assume "sock_sendall d s = (r, s')"
  then show "rx_stream (sk_rx s') = rx_stream (sk_rx s)" by (simp add: sock_sendall_rx)
qed

section \<open>Prompt sockets\<close>

text \<open>Everything the peer will send has arrived, nothing failed, and the budget is not used up.\<close>

definition sync_prompt :: "int \<Rightarrow> sock \<Rightarrow> bool" where
  "sync_prompt deadline s \<longleftrightarrow>
     sk_sends s = [] \<and> sk_now s < deadline \<and>
     (\<forall>x \<in> set (sk_rx s). fst x \<le> sk_now s \<and> (\<exists>b. snd x = Inr b \<and> b \<noteq> []))"

lemma arm_prompt:
  "sync_prompt deadline s \<Longrightarrow>
     arm deadline s = (Inr (), s\<lparr>sk_timeout := deadline - sk_now s\<rparr>) \<and>
     sync_prompt deadline (s\<lparr>sk_timeout := deadline - sk_now s\<rparr>)"
  by (simp add: arm_def sync_prompt_def)

lemma recv_prompt:
  assumes p: "sync_prompt deadline s" and t: "0 \<le> sk_timeout s" and n: "0 < n"
    and st: "rx_stream (sk_rx s) \<noteq> []"
  shows "\<exists>d s'. sock_recv n s = (Inr d, s') \<and> d \<noteq> [] \<and> sync_prompt deadline s'"
proof -
  obtain at m rest where r: "sk_rx s = (at, m) # rest"
    using st by (cases "sk_rx s") auto
  with p obtain b where b: "m = Inr b" "b \<noteq> []" "at \<le> sk_now s" by (auto simp: sync_prompt_def)
  then show ?thesis
    using r p t n by (auto simp: sock_recv_def sync_prompt_def max_absorb1)
qed

lemma recv_exact_loop_prompt:
  "sync_prompt deadline s \<Longrightarrow> length buf \<le> n \<Longrightarrow> n \<le> length buf + length (rx_stream (sk_rx s)) \<Longrightarrow>
     \<exists>d s'. recv_exact_loop deadline n buf s = (Inr d, s') \<and> sync_prompt deadline s'"
proof (induction deadline n buf s rule: recv_exact_loop.induct)
  case (1 deadline n buf s)
  show ?case
  proof (cases "length buf < n")
    case False
    then show ?thesis using "1.prems"(1) by (simp add: recv_exact_loop.simps [of deadline n buf s])
  next
    case True
    let ?t = "s\<lparr>sk_timeout := deadline - sk_now s\<rparr>"
    note a = arm_prompt [OF "1.prems"(1)]
    have "0 \<le> sk_timeout ?t" using "1.prems"(1) by (simp add: sync_prompt_def)
    moreover have "rx_stream (sk_rx ?t) \<noteq> []" using True "1.prems"(3) by auto
    ultimately obtain c u where c: "sock_recv (n - length buf) ?t = (Inr c, u)" "c \<noteq> []"
      "sync_prompt deadline u"
      using recv_prompt [of deadline ?t "n - length buf"] a True by auto
    have "length (buf @ c) \<le> n" "n \<le> length (buf @ c) + length (rx_stream (sk_rx u))"
      using sock_recv_stream [OF c(1)] "1.prems"(3) True by simp_all
    from "1.IH" [OF True a [THEN conjunct1, symmetric] refl c(1) [symmetric] refl c(2) c(3) this]
    show ?thesis using True a c by (simp add: recv_exact_loop.simps [of deadline n buf s])
  qed
qed

interpretation sync_ready: prompt_transport sock_sendall "recv_exact deadline"
    "\<lambda>s. rx_stream (sk_rx s)" "sync_prompt deadline" for deadline
proof unfold_locales
  fix s n assume "sync_prompt deadline s" "n \<le> length (rx_stream (sk_rx s))"
  then show "\<exists>d s'. recv_exact deadline n s = (Inr d, s') \<and> sync_prompt deadline s'"
    using recv_exact_loop_prompt [of deadline s "[]" n] by (simp add: recv_exact_def)
next
  fix s d assume "sync_prompt deadline s"
  then show "\<exists>s'. sock_sendall d s = (Inr (), s') \<and> sync_prompt deadline s'"
    by (simp add: sock_sendall_def sync_prompt_def)
qed

section \<open>Greedy reading\<close>

definition sync_chunk :: "int \<Rightarrow> (sock, bytes) io" where
  "sync_chunk deadline = io_bind (arm deadline) (\<lambda>_. sock_recv 4096)"

lemma optimistic_loop_step:
  "optimistic_loop I deadline sess s =
     loop_step I (sync_chunk deadline) (optimistic_loop I deadline) sess s"
  by (subst optimistic_loop.simps)
     (auto simp: loop_step_def sync_chunk_def io_bind_def io_raise_def io_return_def
        split: prod.split sum.split option.split)

interpretation sync_greedy: greedy_transport I "sync_chunk deadline" "\<lambda>s. rx_stream (sk_rx s)"
    "\<lambda>s. rx_size (sk_rx s)" "sync_prompt deadline" "optimistic_loop I deadline" sock_sendall
  for I deadline
proof unfold_locales
  fix sess s show "optimistic_loop I deadline sess s =
      loop_step I (sync_chunk deadline) (optimistic_loop I deadline) sess s"
    by (rule optimistic_loop_step)
next
  fix s d s' assume c: "sync_chunk deadline s = (Inr d, s')"
  then obtain u t where a: "arm deadline s = (Inr u, t)" and r: "sock_recv 4096 t = (Inr d, s')"
    by (auto simp: sync_chunk_def io_simps)
  show "rx_stream (sk_rx s) = d @ rx_stream (sk_rx s')"
    using sock_recv_stream [OF r] arm_rx [OF a] by simp
  show "d \<noteq> [] \<Longrightarrow> rx_size (sk_rx s') < rx_size (sk_rx s)"
    using sock_recv_smaller [OF r] arm_rx [OF a] by simp
next
  fix s assume p: "sync_prompt deadline s" and st: "rx_stream (sk_rx s) \<noteq> []"
  note a = arm_prompt [OF p]
  have "0 \<le> sk_timeout (s\<lparr>sk_timeout := deadline - sk_now s\<rparr>)" using p by (simp add: sync_prompt_def)
  then show "\<exists>d s'. sync_chunk deadline s = (Inr d, s') \<and> d \<noteq> [] \<and> sync_prompt deadline s'"
    using recv_prompt [OF a [THEN conjunct2], of 4096] a st by (simp add: sync_chunk_def io_bind_def)
next
  fix d s r s' assume "sock_sendall d s = (r, s')"
  then show "rx_stream (sk_rx s') = rx_stream (sk_rx s)" by (simp add: sock_sendall_rx)
next
  fix s d assume "sync_prompt deadline s"
  then show "\<exists>s'. sock_sendall d s = (Inr (), s') \<and> sync_prompt deadline s'"
    by (rule sync_ready.send_prompt)
qed

section \<open>The clock\<close>

text \<open>
  On a budget \<open>T\<close> up to \<open>deadline\<close>: within it, or within it but for one send that used the timeout
  of an earlier read.
\<close>

definition sync_ok :: "int \<Rightarrow> int \<Rightarrow> sock \<Rightarrow> bool" where
  "sync_ok deadline T s \<longleftrightarrow>
     sk_now s \<le> deadline \<and> deadline - T \<le> sk_now s \<and> 0 \<le> sk_timeout s \<and> sk_timeout s \<le> T"

definition sync_late :: "int \<Rightarrow> int \<Rightarrow> sock \<Rightarrow> bool" where
  "sync_late deadline T s \<longleftrightarrow>
     sk_now s \<le> deadline + T \<and> deadline - T \<le> sk_now s \<and> 0 \<le> sk_timeout s \<and> sk_timeout s \<le> T"

lemma sock_recv_now:
  assumes "sock_recv n s = (q, s')" "0 \<le> sk_timeout s"
  shows "sk_now s \<le> sk_now s'" "sk_now s' \<le> sk_now s + sk_timeout s" "sk_timeout s' = sk_timeout s"
  using assms by (auto simp: sock_recv_def split: list.splits if_splits sum.splits)

lemma arm_recv_clock:
  assumes "sync_late deadline T s" "arm deadline s = (Inr u, t)" "sock_recv n t = (q, s')"
  shows "sync_ok deadline T s'"
proof -
  have t: "t = s\<lparr>sk_timeout := deadline - sk_now s\<rparr>" "sk_now s < deadline"
    using assms(2) by (auto simp: arm_def Let_def split: if_splits)
  show ?thesis
    using sock_recv_now [OF assms(3)] t assms(1) by (simp add: sync_ok_def sync_late_def)
qed

lemma arm_fails: "arm deadline s = (Inl e, t) \<Longrightarrow> t = s"
  by (auto simp: arm_def Let_def split: if_splits)

lemma sync_ok_late: "0 \<le> T \<Longrightarrow> sync_ok deadline T s \<Longrightarrow> sync_late deadline T s"
  by (simp add: sync_ok_def sync_late_def)

lemma recv_exact_loop_clock:
  "sync_late deadline T s \<Longrightarrow> 0 \<le> T \<Longrightarrow> length buf < n \<or> sync_ok deadline T s \<Longrightarrow>
     recv_exact_loop deadline n buf s = (q, s') \<Longrightarrow>
     sync_late deadline T s' \<and> (\<forall>d. q = Inr d \<longrightarrow> sync_ok deadline T s')"
proof (induction deadline n buf s rule: recv_exact_loop.induct)
  case (1 deadline n buf s)
  show ?case
  proof (cases "length buf < n")
    case False
    then show ?thesis using "1.prems" by (simp add: recv_exact_loop.simps [of deadline n buf s])
  next
    case True
    obtain a t where a: "arm deadline s = (a, t)" by (cases "arm deadline s")
    show ?thesis
    proof (cases a)
      case (Inl e)
      then show ?thesis
        using "1.prems"(1,4) True a arm_fails [of deadline s e t]
        by (auto simp: recv_exact_loop.simps [of deadline n buf s])
    next
      case (Inr u)
      note a' = a [unfolded Inr]
      obtain c v where c: "sock_recv (n - length buf) t = (c, v)" by (cases "sock_recv (n - length buf) t")
      have ok: "sync_ok deadline T v" by (rule arm_recv_clock [OF "1.prems"(1) a' c])
      show ?thesis
      proof (cases "\<exists>chunk. c = Inr chunk \<and> chunk \<noteq> []")
        case False
        then show ?thesis
          using "1.prems"(2,4) True a' c ok sync_ok_late
          by (auto simp: recv_exact_loop.simps [of deadline n buf s] split: sum.splits if_splits)
      next
        case 2: True
        then obtain chunk where ch: "c = Inr chunk" "chunk \<noteq> []" by blast
        then have "recv_exact_loop deadline n (buf @ chunk) v = (q, s')"
          using "1.prems"(4) True a' c by (simp add: recv_exact_loop.simps [of deadline n buf s])
        then show ?thesis
          using "1.IH" [OF True a' [symmetric] refl c [unfolded ch(1), symmetric] refl ch(2)
              sync_ok_late [OF "1.prems"(2) ok] "1.prems"(2)] ok by blast
      qed
    qed
  qed
qed

lemma sock_sendall_clock:
  assumes "sync_ok deadline T s" "sock_sendall d s = (q, s')"
  shows "sync_late deadline T s'"
  using assms
  by (auto simp: sock_sendall_def sync_ok_def sync_late_def split: list.splits if_splits option.splits)

interpretation sync_timed: timed_transport sock_sendall "recv_exact deadline"
    "\<lambda>s. 0 \<le> T \<and> sync_ok deadline T s" "\<lambda>s. 0 \<le> T \<and> sync_late deadline T s" for deadline T
proof unfold_locales
  fix s assume "0 \<le> T \<and> sync_ok deadline T s"
  then show "0 \<le> T \<and> sync_late deadline T s" using sync_ok_late by blast
next
  fix s d r s' assume "0 \<le> T \<and> sync_ok deadline T s" "sock_sendall d s = (r, s')"
  then show "0 \<le> T \<and> sync_late deadline T s'" using sock_sendall_clock by blast
next
  fix s n q s' assume "0 \<le> T \<and> sync_late deadline T s" "0 < n" "recv_exact deadline n s = (q, s')"
  then show "0 \<le> T \<and> sync_late deadline T s'"
    using recv_exact_loop_clock [of deadline T s "[]" n q s'] by (simp add: recv_exact_def)
next
  fix s n d s' assume "0 \<le> T \<and> sync_late deadline T s" "0 < n" "recv_exact deadline n s = (Inr d, s')"
  then show "0 \<le> T \<and> sync_ok deadline T s'"
    using recv_exact_loop_clock [of deadline T s "[]" n "Inr d" s'] by (simp add: recv_exact_def)
qed

lemma sync_chunk_ok: "sync_ok deadline T s \<Longrightarrow> sync_chunk deadline s = (q, s') \<Longrightarrow> sync_ok deadline T s'"
proof -
  assume ok: "sync_ok deadline T s" and c: "sync_chunk deadline s = (q, s')"
  then have l: "sync_late deadline T s" by (auto simp: sync_ok_def sync_late_def)
  obtain a t where a: "arm deadline s = (a, t)" by (cases "arm deadline s")
  show ?thesis
  proof (cases a)
    case (Inl e)
    then show ?thesis using ok c a arm_fails [of deadline s e t] by (auto simp: sync_chunk_def io_bind_def)
  next
    case (Inr u)
    with c a have "sock_recv 4096 t = (q, s')" by (simp add: sync_chunk_def io_bind_def)
    from arm_recv_clock [OF l a [unfolded Inr] this] show ?thesis .
  qed
qed

section \<open>The descriptor\<close>

text \<open>No read and no send closes the socket.\<close>

lemma sock_open_kept:
  "sock_recv n s = (q, s') \<Longrightarrow> sk_open s' = sk_open s"
  "sock_sendall d s = (r, s') \<Longrightarrow> sk_open s' = sk_open s"
  "arm deadline s = (v, s') \<Longrightarrow> sk_open s' = sk_open s"
  by (auto simp: sock_recv_def sock_sendall_def arm_def Let_def
      split: list.splits if_splits sum.splits option.splits)

lemma recv_exact_loop_open:
  "recv_exact_loop deadline n buf s = (q, s') \<Longrightarrow> sk_open s' = sk_open s"
proof (induction deadline n buf s rule: recv_exact_loop.induct)
  case (1 deadline n buf s)
  obtain a t where a: "arm deadline s = (a, t)" by (cases "arm deadline s")
  obtain c u where c: "sock_recv (n - length buf) t = (c, u)" by (cases "sock_recv (n - length buf) t")
  have o: "sk_open t = sk_open s" "sk_open u = sk_open s"
    using sock_open_kept(3) [OF a] sock_open_kept(1) [OF c] by simp_all
  show ?case
  proof (cases "length buf < n \<and> (\<exists>v d. a = Inr v \<and> c = Inr d \<and> d \<noteq> [])")
    case True
    then obtain v d where d: "length buf < n" "a = Inr v" "c = Inr d" "d \<noteq> []" by blast
    then have "recv_exact_loop deadline n (buf @ d) u = (q, s')"
      using "1.prems" a c by (simp add: recv_exact_loop.simps [of deadline n buf s])
    from "1.IH" [OF d(1) a [symmetric] d(2) c [symmetric] d(3,4) this] o show ?thesis by simp
  next
    case False
    then show ?thesis
      using "1.prems" a c o
      by (cases a; cases c) (auto simp: recv_exact_loop.simps [of deadline n buf s] split: if_splits)
  qed
qed

interpretation sync_kept: timed_transport sock_sendall "recv_exact deadline"
    "\<lambda>s. sk_open s = b" "\<lambda>s. sk_open s = b" for deadline b
  by unfold_locales (auto simp: recv_exact_def dest: sock_open_kept recv_exact_loop_open)

lemma sync_chunk_open: "sync_chunk deadline s = (q, s') \<Longrightarrow> sk_open s' = sk_open s"
  by (auto simp: sync_chunk_def io_bind_def split: prod.splits sum.splits dest: sock_open_kept)

lemma optimistic_loop_open:
  "optimistic_loop I deadline sess s = (q, s') \<Longrightarrow> sk_open s' = sk_open s"
  using sync_greedy.run_timely [of "\<lambda>t. sk_open t = sk_open s" deadline "\<lambda>t. sk_open t = sk_open s"]
    sync_chunk_open by metis

end
