(* ===== verification/AioClientProps.thy ===== *)
theory AioClientProps
  imports AioClient SyncClient InetText
begin

text \<open>
  The properties of the asyncio clients: what they take from the stream, that they do what the
  blocking clients do, and what becomes of the connection and the time budget on every path.
\<close>

section \<open>Concrete runs\<close>

definition demo_stream :: astream where
  "demo_stream = \<lparr>as_now = 1, as_deadline = 0, as_buf = [], as_eof = False,
     as_rx = [(2, Inr [5, 0, 5]), (3, Inr [0, 0, 1, 9, 9, 9, 9, 0, 53, 84, 85])],
     as_drains = [], as_closing = (2, Some (OSErr 104)), as_tx = [], as_open = True\<rparr>"

text \<open>A proxy that never answers.\<close>

definition silent_stream :: astream where
  "silent_stream = demo_stream\<lparr>as_rx := []\<rparr>"

definition demo_aclient :: aclient where
  "demo_aclient = \<lparr>ac_user = None, ac_pass = None, ac_timeout = 10, ac_source = None,
     ac_streams = None, ac_bound = None, ac_leftover = []\<rparr>"

definition aio_outcome :: "aio_result \<Rightarrow> ((py_exn + reply_obj) \<times> int) option" where
  "aio_outcome x = (case x of (q, _, Some s) \<Rightarrow> Some (q, as_now s) | _ \<Rightarrow> None)"

lemma aio_outcomeE: "aio_outcome x = Some (q, t) \<Longrightarrow> \<exists>c s. x = (q, c, Some s) \<and> as_now s = t"
  by (auto simp: aio_outcome_def split: prod.splits option.splits)

lemma aio_demo_run:
  "\<exists>c s. aio_connect text_inet aio_optimistic 0 (Inr demo_stream) demo_aclient (py_lit ''h'') 80 1 =
     (Inr \<lparr>r_rep = 0, r_host = py_lit ''9.9.9.9'', r_port = 53\<rparr>, c, Some s)"
proof -
  have "aio_outcome (aio_connect text_inet aio_optimistic 0 (Inr demo_stream) demo_aclient
      (py_lit ''h'') 80 1) = Some (Inr \<lparr>r_rep = 0, r_host = py_lit ''9.9.9.9'', r_port = 53\<rparr>, 3)"
    by code_simp
  from aio_outcomeE [OF this] show ?thesis by blast
qed

section \<open>A connect, unfolded\<close>

lemma aio_negotiate_cases:
  assumes "aio_connect I neg t0 (Inr s) c host port cmd = (q, c', Some s')"
    and "neg I (ac_user c) (ac_pass c) host port cmd (s\<lparr>as_deadline := t0 + ac_timeout c\<rparr>) = (p, u)"
  shows "ac_streams c = None \<and> as_now s \<le> t0 + ac_timeout c \<and>
    (case p of
       Inl e \<Rightarrow> c' = c \<and> (\<exists>e'. q = Inl e') \<and> (\<exists>a. aio_abort u = (a, s'))
     | Inr (r, lo) \<Rightarrow>
         (if reply_ok r
          then q = Inr r \<and> s' = u \<and>
            c' = c\<lparr>ac_streams := Some u, ac_bound := Some (r_host r, r_port r),
                   ac_leftover := (case lo of None \<Rightarrow> ac_leftover c | Some l \<Rightarrow> l)\<rparr>
          else (\<exists>e. q = Inl e) \<and> (\<exists>a. aio_abort u = (a, s')) \<and> ac_streams c' = None))"
  using assms
  by (auto simp: aio_connect_def abort_raise_def Let_def
      split: if_splits sum.splits prod.splits option.splits)

lemma aio_abort_effect:
  "aio_abort s = (a, s') \<Longrightarrow> \<not> as_open s' \<and> as_now s' = as_now s + max 0 (fst (as_closing s)) \<and>
     as_closing s' = as_closing s"
  by (auto simp: aio_abort_def Let_def split: option.splits if_splits)

section \<open>What is taken from the stream\<close>

text \<open>The asyncio clients lose no tunnel byte: when either \<^verbatim>\<open>connect\<close> returns, what the
  peer sends is its method selection (and auth reply), the one reply that is returned, then the
  client's \<^verbatim>\<open>leftover\<close>, then what its \<^verbatim>\<open>reader\<close> will still yield; the staged client leaves
  \<^verbatim>\<open>leftover\<close> as it was.\<close>

theorem aio_connect_keeps_tunnel:
  assumes "neg = aio_staged \<and> ac_leftover c = [] \<or> neg = aio_optimistic"
    and "aio_connect I neg t0 (Inr s) c host port cmd = (Inr r, c', Some s')"
  shows "\<exists>m w v. aio_stream s = m @ w @ ac_leftover c' @ aio_stream s' \<and>
    (m = [5, 0] \<or> ac_user c \<noteq> None \<and> m = [5, 2, 1, 0]) \<and> reply_size w = Some (length w) \<and>
    py_parse_reply I w = Inr (Some v) \<and> r = mk_reply v \<and> reply_ok r \<and> ac_streams c' = Some s'"
proof -
  let ?s = "s\<lparr>as_deadline := t0 + ac_timeout c\<rparr>"
  obtain p u where n: "neg I (ac_user c) (ac_pass c) host port cmd ?s = (p, u)" by fastforce
  from aio_negotiate_cases [OF assms(2) n] obtain lo where
    p: "p = Inr (r, lo)" "reply_ok r" "s' = u" "ac_streams c' = Some u"
      "ac_leftover c' = (case lo of None \<Rightarrow> ac_leftover c | Some l \<Rightarrow> l)"
    by (auto split: sum.splits if_splits)
  have st: "aio_stream ?s = aio_stream s" by simp
  from assms(1) show ?thesis
  proof
    assume g: "neg = aio_staged \<and> ac_leftover c = []"
    with n p have "staged_negotiate I aio_send aio_readexactly (ac_user c) (ac_pass c) host port cmd ?s
        = (Inr r, u)" "lo = None" by (auto simp: aio_staged_def io_simps)
    from aio_exact.staged_exact [OF this(1)] this(2) g p st show ?thesis
      by (auto simp: reply_size_len)
  next
    assume g: "neg = aio_optimistic"
    with n p obtain sess sess' where i: "session_init (ac_user c) (ac_pass c) = Inr sess"
      and run: "pipelined I aio_send (aio_loop I) sess host port cmd ?s = (Inr (r, sess'), u)"
      and lo: "lo = Some (leftover sess')" by (auto simp: aio_optimistic_def io_simps)
    from aio_greedy.pipelined_exact [OF i run] obtain w v where
      "aio_stream s = accept_bytes (ac_user c \<noteq> None) @ w @ leftover sess' @ aio_stream u"
      "message_len w = Some (length w)" "py_parse_reply I w = Inr (Some v)" "r = mk_reply v"
      using st by auto
    then show ?thesis
      using p lo by (intro exI [of _ "accept_bytes (ac_user c \<noteq> None)"] exI [of _ w] exI [of _ v])
        (auto simp: accept_bytes_def reply_size_len)
  qed
qed

theorem aio_connect_keeps_tunnel_witness:
  "\<exists>c s m w. aio_connect text_inet aio_optimistic 0 (Inr demo_stream) demo_aclient (py_lit ''h'') 80 1 =
      (Inr \<lparr>r_rep = 0, r_host = py_lit ''9.9.9.9'', r_port = 53\<rparr>, c, Some s) \<and>
    aio_stream demo_stream = m @ w @ ac_leftover c @ aio_stream s \<and> reply_size w = Some (length w)"
proof -
  obtain c s where
    x: "aio_connect text_inet aio_optimistic 0 (Inr demo_stream) demo_aclient (py_lit ''h'') 80 1 =
      (Inr \<lparr>r_rep = 0, r_host = py_lit ''9.9.9.9'', r_port = 53\<rparr>, c, Some s)"
    using aio_demo_run by blast
  from aio_connect_keeps_tunnel [OF disjI2 [OF refl] x] x show ?thesis by blast
qed

section \<open>The asyncio clients against the blocking ones\<close>

text \<open>C18. Only the transport differs: where a granting server's answer arrives in time, with any
  tunnel bytes behind it and in any chunks on either side, the asyncio clients return the reply
  that the blocking client returns, and all hand over the same tunnel.\<close>

theorem aio_matches_sync:
  assumes I: "posix_inet I" and neg: "neg = aio_staged \<or> neg = aio_optimistic"
    and c: "c_sock c = None" "c_leftover c = []"
    and d: "ac_streams d = None" "ac_leftover d = []" "ac_user d = c_user c" "ac_pass d = c_pass c"
    and i: "session_init (c_user c) (c_pass c) = Inr sess"
    and p: "optimistic_pipeline I sess host port cmd = Inr p"
    and w: "py_reply I 0 bh bp = Inr w"
    and ready: "sync_prompt (sk_now s + c_timeout c) s"
      "aio_prompt (a\<lparr>as_deadline := t0 + ac_timeout d\<rparr>)"
    and st: "rx_stream (sk_rx s) = accept_bytes (c_user c \<noteq> None) @ w @ tunnel"
      "aio_stream a = rx_stream (sk_rx s)"
  shows "\<exists>r c' s' d' a'. staged_connect I (Inr s) c host port cmd = (Inr r, c', Some s') \<and>
    aio_connect I neg t0 (Inr a) d host port cmd = (Inr r, d', Some a') \<and>
    c_bound c' = ac_bound d' \<and> rx_stream (sk_rx s') = tunnel \<and>
    ac_leftover d' @ aio_stream a' = tunnel"
proof -
  let ?v = "(0, seen_host I bh, bp)" and ?a = "a\<lparr>as_deadline := t0 + ac_timeout d\<rparr>"
    and ?dl = "sk_now s + c_timeout c"
  note b = py_reply_built [OF I w, of "[]", unfolded append_Nil2]
  obtain q where q: "codec_request I cmd host port = Inr q"
    and auth: "c_user c = None \<or>
      (\<exists>u q a. c_user c = Some u \<and> c_pass c = Some q \<and> py_userpass_auth u q = Inr a)"
    using pipeline_parts [OF i p] by (auto simp: codec_request_def)
  have ok: "reply_ok (mk_reply ?v)" by (simp add: reply_ok_def)
  obtain s' where s': "staged_negotiate I sock_sendall (recv_exact ?dl) (c_user c) (c_pass c) host
      port cmd s = (Inr (mk_reply ?v), s')" "rx_stream (sk_rx s') = tunnel"
    using sync_ready.staged_prompt [OF ready(1) st(1) b(2) b(1) q auth] by blast
  have st': "aio_stream ?a = accept_bytes (c_user c \<noteq> None) @ w @ tunnel"
    using st by simp
  have "\<exists>lo a'. neg I (c_user c) (c_pass c) host port cmd ?a = (Inr (mk_reply ?v, lo), a') \<and>
      (case lo of None \<Rightarrow> [] | Some l \<Rightarrow> l) @ aio_stream a' = tunnel"
    using neg
  proof
    assume "neg = aio_staged"
    then show ?thesis
      using aio_ready.staged_prompt [OF ready(2) st' b(2) b(1) q auth]
      by (auto simp: aio_staged_def io_bind_def)
  next
    assume "neg = aio_optimistic"
    then show ?thesis
      using aio_greedy.pipelined_prompt [OF i p ready(2) st' b(2) b(1)] i
      by (auto simp: aio_optimistic_def io_bind_def)
  qed
  then obtain lo a' where a': "neg I (c_user c) (c_pass c) host port cmd ?a = (Inr (mk_reply ?v, lo), a')"
      "(case lo of None \<Rightarrow> [] | Some l \<Rightarrow> l) @ aio_stream a' = tunnel" by blast
  have "as_now a \<le> t0 + ac_timeout d" using ready(2) by (simp add: aio_prompt_def)
  then show ?thesis
    using s' a' c d ok
    by (cases lo) (simp_all add: staged_connect_def finish_def aio_connect_def)
qed

text \<open>The blocking side has the bytes already; the asyncio side gets them in other chunks.\<close>

definition ready_sock :: sock where
  "ready_sock = \<lparr>sk_now = 0, sk_timeout = 10,
     sk_rx = [(0, Inr [5]), (0, Inr [0, 5, 0, 0, 1, 9, 9, 9, 9, 0, 53, 84]), (0, Inr [85])],
     sk_sends = [], sk_tx = [], sk_open = True\<rparr>"

definition ready_client :: client where
  "ready_client = \<lparr>c_user = None, c_pass = None, c_timeout = 10, c_sock = None, c_bound = None,
     c_leftover = []\<rparr>"

theorem aio_matches_sync_witness:
  "\<exists>r c s d a. staged_connect text_inet (Inr ready_sock) ready_client (py_lit ''h'') 80 1 =
      (Inr r, c, Some s) \<and>
    aio_connect text_inet aio_optimistic 0 (Inr demo_stream) demo_aclient (py_lit ''h'') 80 1 =
      (Inr r, d, Some a) \<and>
    rx_stream (sk_rx s) = [84, 85] \<and> ac_leftover d @ aio_stream a = [84, 85]"
proof -
  obtain sess where i: "session_init (c_user ready_client) (c_pass ready_client) = Inr sess"
    by (simp add: session_init_def ready_client_def)
  have "\<not> isl (bind_res (session_init None None)
      (\<lambda>s. optimistic_pipeline text_inet s (py_lit ''h'') 80 1))" by code_simp
  then obtain p where p: "optimistic_pipeline text_inet sess (py_lit ''h'') 80 1 = Inr p"
    using i by (cases "optimistic_pipeline text_inet sess (py_lit ''h'') 80 1") (auto simp: ready_client_def)
  have w: "py_reply text_inet 0 (py_lit ''9.9.9.9'') 53 = Inr [5, 0, 0, 1, 9, 9, 9, 9, 0, 53]"
    by code_simp
  have h: "c_sock ready_client = None" "c_leftover ready_client = []" "ac_streams demo_aclient = None"
    "ac_leftover demo_aclient = []" "ac_user demo_aclient = c_user ready_client"
    "ac_pass demo_aclient = c_pass ready_client"
    by (simp_all add: ready_client_def demo_aclient_def)
  have k: "sync_prompt (sk_now ready_sock + c_timeout ready_client) ready_sock"
    "aio_prompt (demo_stream\<lparr>as_deadline := 0 + ac_timeout demo_aclient\<rparr>)"
    "rx_stream (sk_rx ready_sock) = accept_bytes (c_user ready_client \<noteq> None) @
       [5, 0, 0, 1, 9, 9, 9, 9, 0, 53] @ [84, 85]"
    "aio_stream demo_stream = rx_stream (sk_rx ready_sock)"
    by (simp_all add: ready_client_def ready_sock_def demo_stream_def demo_aclient_def sync_prompt_def
        aio_prompt_def accept_bytes_def aio_stream_def)
  show ?thesis
    using aio_matches_sync [OF text_inet.posix_inet_axioms disjI2 [OF refl] h i p w k] by blast
qed

section \<open>The budget and the clean-up\<close>

text \<open>C33. One budget over opening and negotiating: whatever the peer does, either asyncio
  \<^verbatim>\<open>connect\<close> returns at most \<^verbatim>\<open>timeout\<close> after it was entered, with the writer open; and
  when it raises after the connection was made, the writer is closed, the client holds no
  streams, and only the wait for that close is added to the budget.\<close>

theorem aio_connect_budget:
  assumes "neg = aio_staged \<or> neg = aio_optimistic" and "as_open s"
    and "aio_connect I neg t0 (Inr s) c host port cmd = (q, c', Some s')"
  shows "case q of
      Inl e \<Rightarrow> \<not> as_open s' \<and> ac_streams c' = None \<and>
        as_now s' \<le> t0 + ac_timeout c + max 0 (fst (as_closing s))
    | Inr r \<Rightarrow> as_open s' \<and> ac_streams c' = Some s' \<and> reply_ok r \<and> as_now s' \<le> t0 + ac_timeout c"
proof -
  let ?d = "t0 + ac_timeout c"
  let ?s = "s\<lparr>as_deadline := ?d\<rparr>" and ?in = "aio_within ?d True (as_closing s)"
  obtain p u where n: "neg I (ac_user c) (ac_pass c) host port cmd ?s = (p, u)" by fastforce
  note cs = aio_negotiate_cases [OF assms(3) n]
  then have s: "?in ?s" using assms(2) by (simp add: aio_within_def)
  have run: "?in t \<Longrightarrow> aio_loop I sess t = (x, t') \<Longrightarrow> ?in t'" for t x t' sess
    using aio_greedy.run_timely [of ?in ?in] aio_read_within by blast
  have u: "?in u"
    using assms(1)
  proof
    assume "neg = aio_staged"
    then obtain x where "staged_negotiate I aio_send aio_readexactly (ac_user c) (ac_pass c) host
        port cmd ?s = (x, u)"
      using n by (auto simp: aio_staged_def io_bind_def split: prod.splits sum.splits)
    with s aio_timed.timely_staged [where d = ?d and b = True and k = "as_closing s"] show ?thesis
      unfolding aio_timed.timely_def by blast
  next
    assume g: "neg = aio_optimistic"
    show ?thesis
    proof (cases "session_init (ac_user c) (ac_pass c)")
      case (Inl e)
      then show ?thesis using n g s by (auto simp: aio_optimistic_def io_bind_def)
    next
      case (Inr sess)
      obtain x where x: "pipelined I aio_send (aio_loop I) sess host port cmd ?s = (x, u)"
        using n g Inr by (auto simp: aio_optimistic_def io_bind_def split: prod.splits sum.splits)
      show ?thesis by (rule pipelined_keeps [where P = ?in, OF s aio_send_within run x])
    qed
  qed
  show ?thesis
    using cs u aio_abort_effect [of u]
    by (auto simp: aio_within_def split: sum.splits if_splits)
qed

theorem aio_connect_budget_witness:
  "\<exists>c s. aio_connect text_inet aio_staged 0 (Inr silent_stream) demo_aclient (py_lit ''h'') 80 1 =
      (Inl TimeoutErr, c, Some s) \<and> \<not> as_open s \<and> ac_streams c = None \<and> as_now s = 12 \<and>
    as_now s \<le> 0 + ac_timeout demo_aclient + max 0 (fst (as_closing silent_stream))"
proof -
  have "aio_outcome (aio_connect text_inet aio_staged 0 (Inr silent_stream) demo_aclient
      (py_lit ''h'') 80 1) = Some (Inl TimeoutErr, 12)" by code_simp
  from aio_outcomeE [OF this] obtain c s where
    x: "aio_connect text_inet aio_staged 0 (Inr silent_stream) demo_aclient (py_lit ''h'') 80 1 =
      (Inl TimeoutErr, c, Some s)" "as_now s = 12" by blast
  have "as_open silent_stream" by (simp add: silent_stream_def demo_stream_def)
  from aio_connect_budget [OF disjI1 [OF refl] this x(1)] x show ?thesis by simp
qed

end
