(* ===== verification/ServerDriver.thy ===== *)
theory ServerDriver
  imports Messages
begin

text \<open>
  \<^verbatim>\<open>optisocks5/server/server.py\<close> and \<^verbatim>\<open>optisocks5/server/aio.py\<close>: the two drivers that run a
  server session over a connection, with their hooks, the dial and the relay. The hooks are
  functions from the session to the calls they make on it and whether they raise; what the
  client sends, how each send ends and what \<^verbatim>\<open>create_connection\<close> gives for a target are
  arguments. The two \<^verbatim>\<open>_handle\<close> methods share their event loop and differ in the relay and in
  the exceptions they swallow.
\<close>

section \<open>Hooks\<close>

text \<open>The calls a hook made on the session, in order, and whether it then raised.\<close>

type_synonym ('c, 'p) hook_run = "('c, 'p) decision list \<times> bool"

record ('c, 'p) server_hooks =
  hk_authorize ::
    "(('c, 'p) server_session \<Rightarrow> pystr option \<Rightarrow> pystr option \<Rightarrow> ('c, 'p) hook_run) option"
  hk_on_connect :: "(('c, 'p) server_session \<Rightarrow> pystr \<Rightarrow> int \<Rightarrow> ('c, 'p) hook_run) option"
  hk_on_disconnect :: "(('c, 'p) server_session \<Rightarrow> bool) option"

text \<open>\<^verbatim>\<open>new_session\<close>: the presence of the authorize hook is the policy.\<close>

definition new_session :: "('c, 'p) server_hooks \<Rightarrow> ('c, 'p) server_session" where
  "new_session H = server_init (hk_authorize H \<noteq> None)"

text \<open>A hook that raises is a rejection with that code.\<close>

definition hook_decisions :: "int \<Rightarrow> ('c, 'p) hook_run \<Rightarrow> ('c, 'p) decision list" where
  "hook_decisions rep run = fst run @ (if snd run then [DReject rep] else [])"

section \<open>A connection\<close>

datatype 'p relaying = RPipe 'p | RSplice | RNothing

text \<open>What a driver does, in order.\<close>

datatype ('c, 'p) log_entry =
    LSession "('c, 'p) action"
  | LSent bytes
  | LDial "(pystr \<times> int) option" "py_exn + pystr \<times> int"
  | LRelay "'p relaying"
  | LSpliced bytes bytes
  | LDisconnect
  | LCloseDown
  | LCloseUp

record ('c, 'p) conn =
  cn_sess :: "('c, 'p) server_session"
  cn_up :: "(pystr \<times> int) option"
  cn_rx :: "(py_exn + bytes) list"
  cn_sends :: "py_exn option list"
  cn_log :: "('c, 'p) log_entry list"

definition cn_note :: "('c, 'p) log_entry \<Rightarrow> ('c, 'p) conn \<Rightarrow> ('c, 'p) conn" where
  "cn_note l c = c\<lparr>cn_log := cn_log c @ [l]\<rparr>"

definition cn_decide :: "('c, 'p) decision list \<Rightarrow> ('c, 'p) conn \<Rightarrow> ('c, 'p) conn" where
  "cn_decide ds c = c\<lparr>cn_sess := fold decide ds (cn_sess c),
                     cn_log := cn_log c @ map (\<lambda>d. LSession (ADecide d)) ds\<rparr>"

section \<open>The dial\<close>

definition enetunreach :: int where
  "enetunreach = 101"

text \<open>The \<^verbatim>\<open>except\<close> clauses of \<^verbatim>\<open>_dial\<close>: the code the failure is reported with, if caught.\<close>

definition dial_rep :: "py_exn \<Rightarrow> int option" where
  "dial_rep e =
     (if e = ConnRefusedErr then Some (rep_value CONN_REFUSED)
      else if e = TimeoutErr then Some (rep_value TTL_EXPIRED)
      else if is_os_error e then
        Some (if e = OSErr enetunreach then rep_value NET_UNREACHABLE else rep_value HOST_UNREACHABLE)
      else None)"

datatype stop = SReturn | SRaise py_exn | SBlocked | SRelay

type_synonym dialer = "(pystr \<times> int) option \<Rightarrow> py_exn + pystr \<times> int"

definition dial_target :: "dialer \<Rightarrow> ('c, 'p) conn \<Rightarrow> stop option \<times> ('c, 'p) conn" where
  "dial_target dial c =
     (let tg = sv_target (cn_sess c); r = dial tg; c = cn_note (LDial tg r) c in
      case r of
        Inr (host, port) \<Rightarrow> (None, cn_decide [DConnected host port] (c\<lparr>cn_up := Some (host, port)\<rparr>))
      | Inl e \<Rightarrow>
          (case dial_rep e of
             Some rep \<Rightarrow> (None, cn_decide [DConnectFailed rep] (c\<lparr>cn_up := None\<rparr>))
           | None \<Rightarrow> (Some (SRaise e), c)))"

section \<open>The event loop\<close>

definition on_authorize ::
  "('c, 'p) server_hooks \<Rightarrow> pystr option \<Rightarrow> pystr option \<Rightarrow> ('c, 'p) conn \<Rightarrow> ('c, 'p) conn" where
  "on_authorize H u p c =
     (case hk_authorize H of
        None \<Rightarrow> cn_decide [DOk None] c
      | Some h \<Rightarrow> cn_decide (hook_decisions (rep_value NOT_ALLOWED) (h (cn_sess c) u p)) c)"

definition on_request ::
  "('c, 'p) server_hooks \<Rightarrow> dialer \<Rightarrow> pystr \<Rightarrow> int \<Rightarrow> ('c, 'p) conn \<Rightarrow> stop option \<times> ('c, 'p) conn" where
  "on_request H dial host port c =
     (let c = (case hk_on_connect H of
                 None \<Rightarrow> c
               | Some h \<Rightarrow> cn_decide (hook_decisions (rep_value GENERAL_FAILURE) (h (cn_sess c) host port)) c)
      in if sv_rejected (cn_sess c) then (None, c)
         else if sv_intercept (cn_sess c) then (None, cn_decide [DConnected host port] c)
         else dial_target dial c)"

definition serve_event ::
  "('c, 'p) server_hooks \<Rightarrow> dialer \<Rightarrow> event \<Rightarrow> ('c, 'p) conn \<Rightarrow> stop option \<times> ('c, 'p) conn" where
  "serve_event H dial ev c =
     (case ev of
        Send d \<Rightarrow>
          (case cn_sends c of
             Some e # r \<Rightarrow> (Some (SRaise e), c\<lparr>cn_sends := r\<rparr>)
           | r \<Rightarrow> (None, cn_note (LSent d) (c\<lparr>cn_sends := drop 1 r\<rparr>)))
      | NeedData \<Rightarrow>
          (case cn_rx c of
             [] \<Rightarrow> (Some SBlocked, c)
           | Inl e # r \<Rightarrow> (Some (SRaise e), c\<lparr>cn_rx := r\<rparr>)
           | Inr d # r \<Rightarrow>
               if d = [] then (Some SReturn, c)
               else (None, cn_note (LSession (ARecv d))
                             (c\<lparr>cn_sess := receive (cn_sess c) d, cn_rx := r\<rparr>)))
      | Authorize u p \<Rightarrow> (None, on_authorize H u p c)
      | Connect cmd host port \<Rightarrow> on_request H dial host port c
      | Relay host port \<Rightarrow> (Some SRelay, c)
      | Close reason \<Rightarrow> (Some SReturn, c))"

definition serve_turn ::
  "inet_api \<Rightarrow> ('c, 'p) server_hooks \<Rightarrow> dialer \<Rightarrow> ('c, 'p) conn \<Rightarrow> stop option \<times> ('c, 'p) conn" where
  "serve_turn I H dial c =
     (case next_event I (cn_sess c) of
        (Inl e, s) \<Rightarrow> (Some (SRaise e), cn_note (LSession (ARaise e)) (c\<lparr>cn_sess := s\<rparr>))
      | (Inr ev, s) \<Rightarrow> serve_event H dial ev (cn_note (LSession (AEvent ev)) (c\<lparr>cn_sess := s\<rparr>)))"

subsection \<open>Every turn makes progress\<close>

lemma cn_decide_keeps [simp]:
  "sv_state (cn_sess (cn_decide ds c)) = sv_state (cn_sess c)"
  "sv_out (cn_sess (cn_decide ds c)) = sv_out (cn_sess c)"
  "sv_buf (cn_sess (cn_decide ds c)) = sv_buf (cn_sess c)"
  "sv_require_auth (cn_sess (cn_decide ds c)) = sv_require_auth (cn_sess c)"
  "cn_rx (cn_decide ds c) = cn_rx c" "cn_up (cn_decide ds c) = cn_up c"
  "cn_sends (cn_decide ds c) = cn_sends c"
  by (simp_all add: cn_decide_def)

lemma cn_note_simps [simp]:
  "cn_sess (cn_note l c) = cn_sess c" "cn_rx (cn_note l c) = cn_rx c" "cn_up (cn_note l c) = cn_up c"
  "cn_sends (cn_note l c) = cn_sends c" "cn_log (cn_note l c) = cn_log c @ [l]"
  by (simp_all add: cn_note_def)

lemma step_advances:
  assumes o': "sv_out s = []" and st: "server_step I s = (Inr e, s')"
    and "e \<noteq> NeedData" "\<And>r. e \<noteq> Close r"
  shows "sv_state s < sv_state s'"
proof (cases "sv_state s")
  case PGreeting
  then have "step_greeting s = (Inr e, s')" using st by (simp add: server_step_def)
  then show ?thesis
    by (cases rule: step_greeting_cases [OF o', consumes 1])
       (use assms(3,4) PGreeting in \<open>auto simp: less_sv_phase_def\<close>)
next
  case PAuth
  then have "step_auth s = (Inr e, s')" using st by (simp add: server_step_def)
  then show ?thesis
    by (cases rule: step_auth_cases [OF o', consumes 1])
       (use assms(3,4) PAuth in \<open>auto simp: less_sv_phase_def\<close>)
next
  case PRequest
  then have "step_request I s = (Inr e, s')" using st by (simp add: server_step_def)
  then show ?thesis
    by (cases rule: step_request_cases [OF o', consumes 1])
       (use assms(3,4) PRequest in \<open>auto simp: less_sv_phase_def\<close>)
next
  case PConnectWait
  then have "step_connect_wait I s = (Inr e, s')" using st by (simp add: server_step_def)
  then show ?thesis
    by (cases rule: step_connect_wait_cases [OF o', consumes 1])
       (use assms(3,4) PConnectWait in \<open>auto simp: less_sv_phase_def\<close>)
qed (use assms in \<open>auto simp: server_step_def step_auth_wait_cases less_sv_phase_def split: if_splits\<close>)

text \<open>What an event handler that goes on does to the session and to the chunks to come.\<close>

lemma serve_event_goes_on:
  assumes "serve_event H dial ev c = (None, c')"
  shows "sv_state (cn_sess c') = sv_state (cn_sess c)" "sv_out (cn_sess c') = sv_out (cn_sess c)"
    and "ev = NeedData \<Longrightarrow> length (cn_rx c') < length (cn_rx c)" "\<And>r. ev \<noteq> Close r"
  using assms
  by (auto simp: serve_event_def on_authorize_def on_request_def dial_target_def Let_def
      split: event.splits list.splits sum.splits option.splits if_splits)

definition serve_rank :: "('c, 'p) conn \<Rightarrow> nat \<times> nat \<times> nat" where
  "serve_rank c = (6 - phase_no (sv_state (cn_sess c)), length (sv_out (cn_sess c)), length (cn_rx c))"

lemma serve_turn_rank:
  assumes "serve_turn I H dial c = (None, c')"
  shows "(serve_rank c', serve_rank c) \<in> less_than <*lex*> less_than <*lex*> less_than"
proof -
  obtain ev s where n: "next_event I (cn_sess c) = (Inr ev, s)"
    and e: "serve_event H dial ev (cn_note (LSession (AEvent ev)) (c\<lparr>cn_sess := s\<rparr>)) = (None, c')"
    using assms by (auto simp: serve_turn_def split: prod.splits sum.splits)
  note g = serve_event_goes_on [OF e]
  show ?thesis
  proof (cases "sv_out (cn_sess c)")
    case Nil
    then have st: "server_step I (cn_sess c) = (Inr ev, s)" using n by (simp add: next_event_def)
    show ?thesis
    proof (cases "ev = NeedData")
      case True
      have "s = cn_sess c" by (rule server_step_waits [OF Nil st [unfolded True]])
      then show ?thesis using g True by (simp add: serve_rank_def)
    next
      case False
      have "sv_state (cn_sess c) < sv_state s" by (rule step_advances [OF Nil st False g(4)])
      then have "6 - phase_no (sv_state s) < 6 - phase_no (sv_state (cn_sess c))"
        using phase_no_max [of "sv_state s"] unfolding less_sv_phase_def by arith
      then show ?thesis using g by (simp add: serve_rank_def)
    qed
  next
    case (Cons x xs)
    then show ?thesis using n g by (auto simp: next_event_def serve_rank_def)
  qed
qed

function serve_loop ::
  "inet_api \<Rightarrow> ('c, 'p) server_hooks \<Rightarrow> dialer \<Rightarrow> ('c, 'p) conn \<Rightarrow> stop \<times> ('c, 'p) conn" where
  "serve_loop I H dial c =
     (case serve_turn I H dial c of
        (None, c') \<Rightarrow> serve_loop I H dial c'
      | (Some st, c') \<Rightarrow> (st, c'))"
  by pat_completeness auto
termination
  by (relation "inv_image (less_than <*lex*> less_than <*lex*> less_than)
       (\<lambda>(I, H, dial, c). serve_rank c)")
     (auto dest: serve_turn_rank [OF sym])

declare serve_loop.simps [simp del]

section \<open>The default relay\<close>

text \<open>How one direction of a relay ends.\<close>

datatype copy_end = CopyDone | CopyRaised py_exn | CopyBlocked

text \<open>
  One direction of \<^verbatim>\<open>splice\<close>: the chunks of the source and how each \<^verbatim>\<open>sendall\<close> to the
  destination ends; the result is how the copy ends and what it delivered. The \<^verbatim>\<open>finally\<close>
  shuts the destination down for writing whenever the copy ends.
\<close>

fun copy :: "(py_exn + bytes) list \<Rightarrow> py_exn option list \<Rightarrow> copy_end \<times> bytes" where
  "copy [] sends = (CopyBlocked, [])"
| "copy (Inl e # rx) sends = (if is_os_error e then CopyDone else CopyRaised e, [])"
| "copy (Inr d # rx) sends =
     (if d = [] then (CopyDone, [])
      else (case sends of
              Some e # r \<Rightarrow> (if is_os_error e then CopyDone else CopyRaised e, [])
            | r \<Rightarrow> (let (st, out) = copy rx (drop 1 r) in (st, d @ out))))"

text \<open>
  \<^verbatim>\<open>_pump\<close> of the asyncio driver: \<open>closing\<close> is what \<^verbatim>\<open>writer.is_closing()\<close> answers each time
  round, \<open>drains\<close> how each \<^verbatim>\<open>drain\<close> ends; what was written before a drain fails is delivered.
\<close>

definition pump_swallows :: "py_exn \<Rightarrow> bool" where
  "pump_swallows e \<longleftrightarrow> is_os_error e \<or> (\<exists>m. e = RuntimeErr m)"

lemma pump_swallows_code [code]:
  "pump_swallows e = (is_os_error e \<or> (case e of RuntimeErr m \<Rightarrow> True | _ \<Rightarrow> False))"
  by (cases e) (simp_all add: pump_swallows_def)

fun pump :: "(py_exn + bytes) list \<Rightarrow> bool list \<Rightarrow> py_exn option list \<Rightarrow> copy_end \<times> bytes" where
  "pump [] closing drains = (CopyBlocked, [])"
| "pump (Inl e # rx) closing drains = (if pump_swallows e then CopyDone else CopyRaised e, [])"
| "pump (Inr d # rx) closing drains =
     (if d = [] then (CopyDone, [])
      else if take 1 closing = [True] then (CopyDone, [])
      else (case drains of
              Some e # r \<Rightarrow> (if pump_swallows e then CopyDone else CopyRaised e, d)
            | r \<Rightarrow> (let (st, out) = pump rx (drop 1 closing) (drop 1 r) in (st, d @ out))))"

text \<open>What the relay meets: the custom pipes, and the upstream's side of a default relay.\<close>

record 'p relay_env =
  re_pipe :: "'p \<Rightarrow> py_exn option"
  re_up_rx :: "(py_exn + bytes) list"
  re_up_sends :: "py_exn option list"
  re_up_closing :: "bool list"
  re_down_closing :: "bool list"

text \<open>
  \<^verbatim>\<open>splice\<close> runs one copy in a thread, whose exception is not seen, and joins it after its own.
\<close>

definition splice_end :: "copy_end \<Rightarrow> copy_end \<Rightarrow> stop" where
  "splice_end in_thread in_main =
     (case in_main of
        CopyRaised e \<Rightarrow> SRaise e
      | CopyBlocked \<Rightarrow> SBlocked
      | CopyDone \<Rightarrow> if in_thread = CopyBlocked then SBlocked else SReturn)"

definition splice :: "'p relay_env \<Rightarrow> ('c, 'p) conn \<Rightarrow> stop \<times> ('c, 'p) conn" where
  "splice E c =
     (if cn_up c = None then (SRaise AttributeErr, c)
      else let (st1, up) = copy (cn_rx c) (re_up_sends E);
               (st2, down) = copy (re_up_rx E) (cn_sends c)
           in (splice_end st1 st2, cn_note (LSpliced up down) c))"

text \<open>\<^verbatim>\<open>asyncio.gather\<close> raises the first exception of its two pumps.\<close>

definition gather_end :: "copy_end \<Rightarrow> copy_end \<Rightarrow> stop" where
  "gather_end st1 st2 =
     (case (st1, st2) of
        (CopyRaised e, _) \<Rightarrow> SRaise e
      | (_, CopyRaised e) \<Rightarrow> SRaise e
      | (CopyDone, CopyDone) \<Rightarrow> SReturn
      | _ \<Rightarrow> SBlocked)"

definition async_splice :: "'p relay_env \<Rightarrow> ('c, 'p) conn \<Rightarrow> stop \<times> ('c, 'p) conn" where
  "async_splice E c =
     (let (st1, up) = pump (cn_rx c) (re_up_closing E) (re_up_sends E);
          (st2, down) = pump (re_up_rx E) (re_down_closing E) (cn_sends c)
      in (gather_end st1 st2, cn_note (LSpliced up down) c))"

definition run_pipe :: "'p relay_env \<Rightarrow> 'p \<Rightarrow> ('c, 'p) conn \<Rightarrow> stop \<times> ('c, 'p) conn" where
  "run_pipe E f c =
     ((case re_pipe E f of None \<Rightarrow> SReturn | Some e \<Rightarrow> SRaise e), cn_note (LRelay (RPipe f)) c)"

definition threaded_relay :: "'p relay_env \<Rightarrow> ('c, 'p) conn \<Rightarrow> stop \<times> ('c, 'p) conn" where
  "threaded_relay E c =
     (case sv_custom_pipe (cn_sess c) of
        Some f \<Rightarrow> run_pipe E f c
      | None \<Rightarrow> splice E (cn_note (LRelay RSplice) c))"

definition async_relay :: "'p relay_env \<Rightarrow> ('c, 'p) conn \<Rightarrow> stop \<times> ('c, 'p) conn" where
  "async_relay E c =
     (case sv_custom_pipe (cn_sess c) of
        Some f \<Rightarrow> run_pipe E f c
      | None \<Rightarrow>
          if cn_up c \<noteq> None then async_splice E (cn_note (LRelay RSplice) c)
          else (SReturn, cn_note (LRelay RNothing) c))"

section \<open>The handlers\<close>

datatype outcome = Ended | Failed py_exn | Hung

definition conn_init ::
  "('c, 'p) server_hooks \<Rightarrow> (py_exn + bytes) list \<Rightarrow> py_exn option list \<Rightarrow> ('c, 'p) conn" where
  "conn_init H rx sends =
     \<lparr>cn_sess = new_session H, cn_up = None, cn_rx = rx, cn_sends = sends, cn_log = []\<rparr>"

text \<open>The \<^verbatim>\<open>finally\<close> block. What \<^verbatim>\<open>on_disconnect\<close> raises is swallowed.\<close>

definition teardown :: "('c, 'p) server_hooks \<Rightarrow> ('c, 'p) conn \<Rightarrow> ('c, 'p) conn" where
  "teardown H c =
     c\<lparr>cn_log := cn_log c @ (if hk_on_disconnect H \<noteq> None then [LDisconnect] else []) @
       [LCloseDown] @ (if cn_up c \<noteq> None then [LCloseUp] else [])\<rparr>"

definition handle_with ::
  "(py_exn \<Rightarrow> bool) \<Rightarrow> (('c, 'p) conn \<Rightarrow> stop \<times> ('c, 'p) conn) \<Rightarrow> inet_api \<Rightarrow>
     ('c, 'p) server_hooks \<Rightarrow> dialer \<Rightarrow> ('c, 'p) conn \<Rightarrow> outcome \<times> ('c, 'p) conn" where
  "handle_with swallows relay I H dial c =
     (let (st, c) = (case serve_loop I H dial c of (SRelay, c) \<Rightarrow> relay c | x \<Rightarrow> x)
      in case st of
           SBlocked \<Rightarrow> (Hung, c)
         | SRaise e \<Rightarrow> (if swallows e then Ended else Failed e, teardown H c)
         | _ \<Rightarrow> (Ended, teardown H c))"

definition threaded_handle ::
  "inet_api \<Rightarrow> ('c, 'p) server_hooks \<Rightarrow> dialer \<Rightarrow> 'p relay_env \<Rightarrow> (py_exn + bytes) list \<Rightarrow>
     py_exn option list \<Rightarrow> outcome \<times> ('c, 'p) conn" where
  "threaded_handle I H dial E rx sends =
     handle_with is_os_error (threaded_relay E) I H dial (conn_init H rx sends)"

definition async_handle ::
  "inet_api \<Rightarrow> ('c, 'p) server_hooks \<Rightarrow> dialer \<Rightarrow> 'p relay_env \<Rightarrow> (py_exn + bytes) list \<Rightarrow>
     py_exn option list \<Rightarrow> outcome \<times> ('c, 'p) conn" where
  "async_handle I H dial E rx sends =
     handle_with (\<lambda>e. is_os_error e \<or> e = IncompleteReadErr) (async_relay E) I H dial
       (conn_init H rx sends)"

section \<open>The accept loop\<close>

text \<open>
  What \<^verbatim>\<open>accept\<close> gives each time: a connection, or an \<^verbatim>\<open>OSError\<close> and whether \<^verbatim>\<open>close\<close> had been
  called by then. The result is the connections handed to threads, and whether the loop ended.
\<close>

datatype 'a accepted = Accepted 'a | AcceptErr int bool

definition ebadf :: int where "ebadf = 9"
definition einval :: int where "einval = 22"

fun accept_loop :: "'a accepted list \<Rightarrow> 'a list \<times> bool" where
  "accept_loop [] = ([], False)"
| "accept_loop (Accepted a # rest) = (let (served, ended) = accept_loop rest in (a # served, ended))"
| "accept_loop (AcceptErr e closed # rest) =
     (if closed \<or> e \<in> {ebadf, einval} then ([], True) else accept_loop rest)"

text \<open>The listener of a server: \<^verbatim>\<open>_sock\<close>, and whether the socket it names is open.\<close>

record 'a listener =
  ls_sock :: "'a option"
  ls_open :: bool

definition serve_forever ::
  "'b accepted list \<Rightarrow> 'a listener \<Rightarrow> (py_exn + 'b list \<times> bool) \<times> 'a listener" where
  "serve_forever as l =
     (case ls_sock l of
        None \<Rightarrow> (Inl (RuntimeErr ''call bind() first''), l)
      | Some srv \<Rightarrow>
          (case accept_loop as of
             (served, True) \<Rightarrow> (Inr (served, True), \<lparr>ls_sock = None, ls_open = False\<rparr>)
           | (served, False) \<Rightarrow> (Inr (served, False), l)))"

definition server_close :: "'a listener \<Rightarrow> 'a listener" where
  "server_close l = (if ls_sock l \<noteq> None then \<lparr>ls_sock = None, ls_open = False\<rparr> else l)"

end
