(* ===== verification/ServerDriverFacts.thy ===== *)
theory ServerDriverFacts
  imports ServerDriver
begin

text \<open>
  Facts about the drivers' event loop: invariants of its turns, its runs as traces of the
  session, the bytes it can have taken when it blocks, and its first turns with a client that
  asks for a connection.
\<close>

section \<open>Invariants of the loop\<close>

lemma serve_loop_last:
  assumes "P c" "serve_loop I H dial c = (st, c')"
    and keep: "\<And>c c'. P c \<Longrightarrow> serve_turn I H dial c = (None, c') \<Longrightarrow> P c'"
  shows "\<exists>c0. P c0 \<and> serve_turn I H dial c0 = (Some st, c')"
  using assms(1,2)
proof (induction "serve_rank c" arbitrary: c rule: wf_induct_rule [OF wf_lex_prod [OF wf_less_than wf_lex_prod [OF wf_less_than wf_less_than]]])
  case (1 c)
  obtain q u where t: "serve_turn I H dial c = (q, u)" by (cases "serve_turn I H dial c")
  show ?case
  proof (cases q)
    case None
    then have "serve_loop I H dial u = (st, c')"
      using "1.prems"(2) t by (simp add: serve_loop.simps [of I H dial c])
    then show ?thesis
      using "1.hyps" [OF serve_turn_rank [OF t [unfolded None]] keep [OF "1.prems"(1) t [unfolded None]]]
      by blast
  next
    case (Some x)
    then have "x = st" "u = c'"
      using "1.prems"(2) t by (simp_all add: serve_loop.simps [of I H dial c])
    then show ?thesis using "1.prems"(1) t Some by blast
  qed
qed

lemma serve_loop_inv:
  assumes "P c" "serve_loop I H dial c = (st, c')"
    and keep: "\<And>c q c'. P c \<Longrightarrow> serve_turn I H dial c = (q, c') \<Longrightarrow> P c'"
  shows "P c'"
  using serve_loop_last [of P c I H dial st c'] assms by blast

lemma handle_with_cases:
  assumes "handle_with swallows relay I H dial c = (out, c')"
  shows "\<exists>st u st' v. serve_loop I H dial c = (st, u) \<and>
    (if st = SRelay then relay u = (st', v) else st' = st \<and> v = u) \<and>
    (case st' of
       SBlocked \<Rightarrow> out = Hung \<and> c' = v
     | SRaise e \<Rightarrow> out = (if swallows e then Ended else Failed e) \<and> c' = teardown H v
     | _ \<Rightarrow> out = Ended \<and> c' = teardown H v)"
proof -
  obtain st u where l: "serve_loop I H dial c = (st, u)" by (cases "serve_loop I H dial c")
  obtain st' v where r: "(case (st, u) of (SRelay, c) \<Rightarrow> relay c | x \<Rightarrow> x) = (st', v)"
    by (cases "case (st, u) of (SRelay, c) \<Rightarrow> relay c | x \<Rightarrow> x")
  have "if st = SRelay then relay u = (st', v) else st' = st \<and> v = u"
    using r by (cases st) auto
  moreover have "case st' of
       SBlocked \<Rightarrow> out = Hung \<and> c' = v
     | SRaise e \<Rightarrow> out = (if swallows e then Ended else Failed e) \<and> c' = teardown H v
     | _ \<Rightarrow> out = Ended \<and> c' = teardown H v"
    using assms l r by (cases st') (simp_all add: handle_with_def)
  ultimately show ?thesis using l by blast
qed

section \<open>Runs are traces of the session\<close>

fun session_log :: "('c, 'p) log_entry list \<Rightarrow> ('c, 'p) action list" where
  "session_log [] = []"
| "session_log (LSession a # l) = a # session_log l"
| "session_log (_ # l) = session_log l"

lemma session_log_append [simp]: "session_log (xs @ ys) = session_log xs @ session_log ys"
  by (induction xs rule: session_log.induct) auto

lemma session_log_decisions [simp]: "session_log (map (\<lambda>d. LSession (ADecide d)) ds) = map ADecide ds"
  by (induction ds) auto

lemma trace_decides:
  "sv_trace I ra tr s \<Longrightarrow> sv_trace I ra (tr @ map ADecide ds) (fold decide ds s)"
proof (induction ds arbitrary: tr s)
  case (Cons d ds)
  have "sv_trace I ra (tr @ [ADecide d]) (decide d s)" by (rule trace_act [OF Cons.prems]) simp
  from Cons.IH [OF this] show ?case by simp
qed simp

definition cn_traced :: "inet_api \<Rightarrow> bool \<Rightarrow> ('c, 'p) conn \<Rightarrow> bool" where
  "cn_traced I ra c \<longleftrightarrow> sv_trace I ra (session_log (cn_log c)) (cn_sess c)"

lemma traced_decide: "cn_traced I ra c \<Longrightarrow> cn_traced I ra (cn_decide ds c)"
  using trace_decides by (fastforce simp: cn_traced_def cn_decide_def)

lemma traced_upd [simp]:
  "cn_traced I ra (c\<lparr>cn_up := u\<rparr>) = cn_traced I ra c"
  "cn_traced I ra (c\<lparr>cn_rx := r\<rparr>) = cn_traced I ra c"
  "cn_traced I ra (c\<lparr>cn_sends := w\<rparr>) = cn_traced I ra c"
  "cn_traced I ra (cn_note (LSent d) c) = cn_traced I ra c"
  "cn_traced I ra (cn_note (LDial t r') c) = cn_traced I ra c"
  "cn_traced I ra (cn_note (LRelay k) c) = cn_traced I ra c"
  "cn_traced I ra (cn_note (LSpliced x y) c) = cn_traced I ra c"
  by (simp_all add: cn_traced_def)

lemma traced_act:
  "cn_traced I ra c \<Longrightarrow> sv_act I a (cn_sess c) s \<Longrightarrow>
     cn_traced I ra (cn_note (LSession a) (c\<lparr>cn_sess := s\<rparr>))"
  using trace_act by (fastforce simp: cn_traced_def)

lemma traced_recv:
  "cn_traced I ra c \<Longrightarrow>
     cn_traced I ra (cn_note (LSession (ARecv d)) (c\<lparr>cn_sess := receive (cn_sess c) d, cn_rx := r\<rparr>))"
  using traced_act [of I ra c "ARecv d" "receive (cn_sess c) d"] by (simp add: cn_traced_def)

lemma serve_event_traced:
  assumes t: "cn_traced I ra c" and e: "serve_event H dial ev c = (q, c')"
  shows "cn_traced I ra c'"
proof (cases ev)
  case (Authorize u p)
  then show ?thesis
    using assms traced_decide by (auto simp: serve_event_def on_authorize_def split: option.splits)
next
  case (Connect cmd h p)
  then have *: "on_request H dial h p c = (q, c')" using e by (simp add: serve_event_def)
  define u where "u = (case hk_on_connect H of None \<Rightarrow> c
    | Some k \<Rightarrow> cn_decide (hook_decisions (rep_value GENERAL_FAILURE) (k (cn_sess c) h p)) c)"
  have u: "cn_traced I ra u" using t traced_decide by (auto simp: u_def split: option.split)
  have "(q, c') = (if sv_rejected (cn_sess u) then (None, u)
         else if sv_intercept (cn_sess u) then (None, cn_decide [DConnected h p] u)
         else dial_target dial u)"
    using * unfolding on_request_def Let_def u_def [symmetric] by simp
  then show ?thesis
    using u traced_decide
    by (auto simp: dial_target_def Let_def split: if_splits sum.splits option.splits)
qed (use assms traced_recv in \<open>auto simp: serve_event_def split: list.splits sum.splits option.splits if_splits\<close>)

lemma serve_turn_traced:
  assumes t: "cn_traced I ra c" and s: "serve_turn I H dial c = (q, c')"
  shows "cn_traced I ra c'"
proof (cases "next_event I (cn_sess c)")
  case (Pair r s1)
  show ?thesis
  proof (cases r)
    case (Inl e)
    then show ?thesis
      using s Pair traced_act [OF t, of "ARaise e" s1] by (auto simp: serve_turn_def)
  next
    case (Inr ev)
    then have "serve_event H dial ev (cn_note (LSession (AEvent ev)) (c\<lparr>cn_sess := s1\<rparr>)) = (q, c')"
      using s Pair by (simp add: serve_turn_def)
    then show ?thesis
      using serve_event_traced traced_act [OF t, of "AEvent ev" s1] Pair Inr by auto
  qed
qed

lemma conn_init_traced: "cn_traced I (hk_authorize H \<noteq> None) (conn_init H rx sends)"
  by (simp add: cn_traced_def conn_init_def new_session_def trace_start)

lemma cn_traced_invar: "cn_traced I ra c \<Longrightarrow> sv_invar (cn_sess c)"
  unfolding cn_traced_def by (rule trace_invar)

lemma serve_event_keeps:
  assumes "serve_event H dial ev c = (q, c')"
  shows "sv_out (cn_sess c') = sv_out (cn_sess c)" "sv_state (cn_sess c') = sv_state (cn_sess c)"
    and "sv_require_auth (cn_sess c') = sv_require_auth (cn_sess c)"
  using assms
  by (auto simp: serve_event_def on_authorize_def on_request_def dial_target_def Let_def
      split: event.splits list.splits sum.splits option.splits if_splits)

lemma serve_turn_cases:
  assumes "serve_turn I H dial c = (q, c')"
  obtains (raise) e s where "next_event I (cn_sess c) = (Inl e, s)" "q = Some (SRaise e)"
      "c' = cn_note (LSession (ARaise e)) (c\<lparr>cn_sess := s\<rparr>)"
  | (event) ev s where "next_event I (cn_sess c) = (Inr ev, s)"
      "serve_event H dial ev (cn_note (LSession (AEvent ev)) (c\<lparr>cn_sess := s\<rparr>)) = (q, c')"
  using assms by (auto simp: serve_turn_def split: prod.splits sum.splits)

lemma serve_turn_invar:
  assumes "serve_turn I H dial c = (q, c')" "sv_invar (cn_sess c)"
  shows "sv_invar (cn_sess c')"
  using assms(1)
proof (cases rule: serve_turn_cases)
  case (raise e s)
  then show ?thesis using next_event_invar [OF assms(2) raise(1)] by simp
next
  case (event ev s)
  then show ?thesis
    using next_event_invar [OF assms(2) event(1)] serve_event_keeps(1) [OF event(2)]
    by (simp add: sv_invar_def)
qed

section \<open>Bytes taken before the relay\<close>

text \<open>How many bytes the phases before this one can have consumed.\<close>

fun used_before :: "sv_phase \<Rightarrow> nat" where
  "used_before PGreeting = 0"
| "used_before PAuth = 257"
| "used_before PAuthWait = 770"
| "used_before PRequest = 770"
| "used_before _ = 1032"

definition accounted :: "('c, 'p) server_session \<Rightarrow> nat" where
  "accounted s = length (sv_buf s) + used_before (sv_state s)"

lemma greeting_len_max: "greeting_len b \<le> 257"
  by (simp add: greeting_len_def)

lemma userpass_len_max: "userpass_len b \<le> 513"
  using unat_byte_le [of "b ! 1"] unat_byte_le [of "b ! (2 + unat (b ! 1))"]
  unfolding userpass_len_def by linarith

lemma step_accounted:
  assumes o': "sv_out s = []" and st: "server_step I s = (r, s')"
  shows "accounted s \<le> accounted s'"
proof (cases "sv_state s")
  case PGreeting
  then have "step_greeting s = (r, s')" using st by (simp add: server_step_def)
  then show ?thesis
    by (cases rule: step_greeting_cases [OF o', consumes 1])
       (use PGreeting greeting_len_max [of "sv_buf s"] in \<open>auto simp: accounted_def\<close>)
next
  case PAuth
  then have "step_auth s = (r, s')" using st by (simp add: server_step_def)
  then show ?thesis
    by (cases rule: step_auth_cases [OF o', consumes 1])
       (use PAuth userpass_len_max [of "sv_buf s"] in \<open>auto simp: accounted_def\<close>)
next
  case PRequest
  then have "step_request I s = (r, s')" using st by (simp add: server_step_def)
  then show ?thesis
    by (cases rule: step_request_cases [OF o', consumes 1])
       (use PRequest in \<open>auto simp: accounted_def dest!: message_len_max\<close>)
next
  case PConnectWait
  then have "step_connect_wait I s = (r, s')" using st by (simp add: server_step_def)
  then show ?thesis
    by (cases rule: step_connect_wait_cases [OF o', consumes 1])
       (use PConnectWait in \<open>auto simp: accounted_def\<close>)
qed (use st in \<open>auto simp: server_step_def step_auth_wait_cases [OF o'] accounted_def split: if_splits\<close>)

lemma next_event_accounted: "next_event I s = (r, s') \<Longrightarrow> accounted s \<le> accounted s'"
  using step_accounted [of s I r s'] by (auto simp: next_event_def accounted_def split: list.splits)

lemma serve_event_rx:
  assumes "serve_event H dial ev c = (q, c')" "q = None \<or> q = Some SBlocked"
  shows "(cn_rx c' = cn_rx c \<and> sv_buf (cn_sess c') = sv_buf (cn_sess c) \<and> (q = Some SBlocked \<longrightarrow> cn_rx c = []) \<or>
     (\<exists>d. d \<noteq> [] \<and> cn_rx c = Inr d # cn_rx c' \<and> sv_buf (cn_sess c') = sv_buf (cn_sess c) @ d)) \<and>
    sv_state (cn_sess c') = sv_state (cn_sess c) \<and> (q = Some SBlocked \<longrightarrow> ev = NeedData)"
  using assms
  by (auto simp: serve_event_def on_authorize_def on_request_def dial_target_def Let_def
      split: event.splits list.splits sum.splits option.splits if_splits)

text \<open>The chunks taken from the client, none of them empty, are accounted for.\<close>

definition rx_accounted :: "(py_exn + bytes) list \<Rightarrow> ('c, 'p) conn \<Rightarrow> bool" where
  "rx_accounted rx c \<longleftrightarrow>
     (\<exists>pre. rx = map Inr pre @ cn_rx c \<and> [] \<notin> set pre \<and>
        length (concat pre) \<le> accounted (cn_sess c))"

lemma serve_turn_accounted:
  assumes "rx_accounted rx c" "serve_turn I H dial c = (q, c')" "q = None \<or> q = Some SBlocked"
  shows "rx_accounted rx c' \<and>
    (q = Some SBlocked \<longrightarrow> cn_rx c' = [] \<and> (\<exists>s. next_event I (cn_sess c) = (Inr NeedData, s) \<and>
       accounted (cn_sess c') = accounted s))"
proof -
  obtain pre where pre: "rx = map Inr pre @ cn_rx c" "[] \<notin> set pre"
    "length (concat pre) \<le> accounted (cn_sess c)"
    using assms(1) unfolding rx_accounted_def by blast
  obtain ev s where n: "next_event I (cn_sess c) = (Inr ev, s)"
    and e: "serve_event H dial ev (cn_note (LSession (AEvent ev)) (c\<lparr>cn_sess := s\<rparr>)) = (q, c')"
    using assms(2,3) by (auto simp: serve_turn_def split: prod.splits sum.splits)
  have l: "length (concat pre) \<le> accounted s" using pre(3) next_event_accounted [OF n] by simp
  from serve_event_rx [OF e assms(3)] have
    "cn_rx c' = cn_rx c \<and> sv_buf (cn_sess c') = sv_buf s \<and> (q = Some SBlocked \<longrightarrow> cn_rx c = []) \<or>
     (\<exists>d. d \<noteq> [] \<and> cn_rx c = Inr d # cn_rx c' \<and> sv_buf (cn_sess c') = sv_buf s @ d)"
    and st: "sv_state (cn_sess c') = sv_state s" "q = Some SBlocked \<longrightarrow> ev = NeedData" by simp_all
  then show ?thesis
  proof (elim disjE exE)
    assume "cn_rx c' = cn_rx c \<and> sv_buf (cn_sess c') = sv_buf s \<and> (q = Some SBlocked \<longrightarrow> cn_rx c = [])"
    with pre l st n show ?thesis
      unfolding rx_accounted_def by (auto simp: accounted_def)
  next
    fix d assume d: "d \<noteq> [] \<and> cn_rx c = Inr d # cn_rx c' \<and> sv_buf (cn_sess c') = sv_buf s @ d"
    then have "q \<noteq> Some SBlocked" using e st(2) by (auto simp: serve_event_def)
    moreover have "rx_accounted rx c'"
      unfolding rx_accounted_def
      using pre l st d by (intro exI [of _ "pre @ [d]"]) (auto simp: accounted_def)
    ultimately show ?thesis by simp
  qed
qed

text \<open>A loop that blocks has taken everything there was, fewer than 1032 bytes.\<close>

lemma serve_loop_blocked:
  assumes l: "serve_loop I H dial c = (SBlocked, c')" and "accounted (cn_sess c) = 0" "sv_invar (cn_sess c)"
  shows "\<exists>chunks. cn_rx c = map Inr chunks \<and> [] \<notin> set chunks \<and> length (concat chunks) < 1032"
proof -
  let ?P = "\<lambda>x. rx_accounted (cn_rx c) x \<and> sv_invar (cn_sess x)"
  have start: "?P c" using assms(2,3) by (simp add: rx_accounted_def)
  have keep: "?P x \<Longrightarrow> serve_turn I H dial x = (None, x') \<Longrightarrow> ?P x'" for x x'
  proof (intro conjI)
    assume p: "?P x" and t: "serve_turn I H dial x = (None, x')"
    show "rx_accounted (cn_rx c) x'" using serve_turn_accounted [OF conjunct1 [OF p] t] by simp
    show "sv_invar (cn_sess x')" by (rule serve_turn_invar [OF t conjunct2 [OF p]])
  qed
  have "\<exists>c0. ?P c0 \<and> serve_turn I H dial c0 = (Some SBlocked, c')"
    by (rule serve_loop_last [where P = ?P, OF start l keep])
  then obtain c0 where c0: "?P c0" "serve_turn I H dial c0 = (Some SBlocked, c')"
    by (elim exE conjE) simp
  from serve_turn_accounted [OF c0(1) [THEN conjunct1] c0(2)] obtain s where
    a: "rx_accounted (cn_rx c) c'" "cn_rx c' = []" "next_event I (cn_sess c0) = (Inr NeedData, s)"
      "accounted (cn_sess c') = accounted s" by auto
  have "accounted s < 1032"
    using waits_within [OF c0(1) [THEN conjunct2] a(3)] by (auto simp: accounted_def)
  then show ?thesis using a unfolding rx_accounted_def by auto
qed

section \<open>A client that is never accepted\<close>

lemma fold_decide_rejected:
  "sv_rejected (fold decide ds s) = rejected_by (map ADecide ds) (sv_rejected s)"
proof (induction ds arbitrary: s)
  case (Cons d ds)
  have "rejected_by (map ADecide (d # ds)) v = rejected_by (map ADecide ds) (rejected_by [ADecide d] v)" for v
    using rejected_by_append [of "[ADecide d]" "map ADecide ds" v] by simp
  then show ?case using Cons.IH [of "decide d s"] by (simp add: decide_rejected)
qed simp

text \<open>A session in front of the authentication gate, or closed.\<close>

definition shut_out :: "('c, 'p) server_session \<Rightarrow> bool" where
  "shut_out s \<longleftrightarrow>
     sv_require_auth s \<and> queue_ok s \<and> sv_state s \<in> {PGreeting, PAuth, PAuthWait, PClosed}"

lemma shut_out_event:
  assumes "shut_out s" "sv_state s = PAuthWait \<Longrightarrow> sv_rejected s" "next_event I s = (Inr ev, s')"
  shows "shut_out s' \<and> \<not> forwards ev \<and>
    (sv_state s' = PAuthWait \<longrightarrow> (\<exists>u p. ev = Authorize u p) \<and> \<not> sv_rejected s' \<or>
       (\<exists>r. ev = Close r) \<and> sv_rejected s')"
proof (cases "sv_out s = []")
  case False
  have "queue_ok s" using assms(1) by (simp add: shut_out_def)
  from queue_event [OF this False assms(3)] show ?thesis
    using assms(1,2) by (auto simp: shut_out_def queue_ok_def)
next
  case o': True
  then have st: "server_step I s = (Inr ev, s')" using assms(3) by (simp add: next_event_def)
  show ?thesis
  proof (cases "sv_state s")
    case PGreeting
    then have "step_greeting s = (Inr ev, s')" using st by (simp add: server_step_def)
    then show ?thesis
      by (cases rule: step_greeting_cases [OF o', consumes 1])
         (use assms(1) PGreeting o' in \<open>auto simp: shut_out_def queue_ok_def\<close>)
  next
    case PAuth
    then have "step_auth s = (Inr ev, s')" using st by (simp add: server_step_def)
    then show ?thesis
      by (cases rule: step_auth_cases [OF o', consumes 1])
         (use assms(1) PAuth o' in \<open>auto simp: shut_out_def queue_ok_def\<close>)
  qed (use assms(1,2) st o' in \<open>auto simp: server_step_def step_auth_wait_cases shut_out_def queue_ok_def\<close>)
qed

fun reaches_out :: "('c, 'p) log_entry \<Rightarrow> bool" where
  "reaches_out (LDial t r) = True"
| "reaches_out (LRelay k) = True"
| "reaches_out (LSpliced x y) = True"
| "reaches_out _ = False"

definition kept_out :: "('c, 'p) conn \<Rightarrow> bool" where
  "kept_out c \<longleftrightarrow>
     shut_out (cn_sess c) \<and> (sv_state (cn_sess c) = PAuthWait \<longrightarrow> sv_rejected (cn_sess c)) \<and>
     cn_up c = None \<and> (\<forall>l \<in> set (cn_log c). \<not> reaches_out l)"

lemma kept_out_turn:
  assumes k: "kept_out c" and t: "serve_turn I H dial c = (q, c')"
    and h: "hk_authorize H = Some h"
      "\<And>s u p. rejected_by (map ADecide (hook_decisions (rep_value NOT_ALLOWED) (h s u p))) False"
  shows "kept_out c' \<and> q \<noteq> Some SRelay"
  using t
proof (cases rule: serve_turn_cases)
  case (raise e s)
  have "s = cn_sess c" "sv_state s \<noteq> PAuthWait \<or> sv_rejected s"
    using next_event_raises [OF raise(1)] k by (auto simp: kept_out_def shut_out_def)
  then show ?thesis using raise k by (auto simp: kept_out_def)
next
  case (event ev s)
  let ?c = "cn_note (LSession (AEvent ev)) (c\<lparr>cn_sess := s\<rparr>)"
  have n: "shut_out s \<and> \<not> forwards ev \<and>
    (sv_state s = PAuthWait \<longrightarrow> (\<exists>u p. ev = Authorize u p) \<and> \<not> sv_rejected s \<or>
       (\<exists>r. ev = Close r) \<and> sv_rejected s)"
    by (rule shut_out_event [OF _ _ event(1)]) (use k in \<open>auto simp: kept_out_def\<close>)
  have up: "cn_up c = None" "\<forall>l \<in> set (cn_log c). \<not> reaches_out l" using k by (auto simp: kept_out_def)
  show ?thesis
  proof (cases ev)
    case (Authorize u p)
    then have "c' = cn_decide (hook_decisions (rep_value NOT_ALLOWED) (h s u p)) ?c" "q = None"
      using event(2) h(1) by (auto simp: serve_event_def on_authorize_def)
    then show ?thesis
      using n up h(2) [of s u p] Authorize
      by (auto simp: kept_out_def cn_decide_def shut_out_def queue_ok_def fold_decide_rejected)
  next
    case NeedData
    then show ?thesis
      using event(2) n up
      by (auto simp: serve_event_def kept_out_def shut_out_def queue_ok_def
          split: list.splits sum.splits if_splits)
  qed (use event(2) n up in \<open>auto simp: serve_event_def kept_out_def split: list.splits option.splits\<close>)
qed

section \<open>One upstream, and a decision for every request\<close>

lemma next_event_queue:
  assumes "queue_ok s" "next_event I s = (r, s')"
  shows "queue_ok s'"
proof (cases "sv_out s = []")
  case True
  then have "server_step I s = (r, s')" using assms(2) by (simp add: next_event_def)
  from server_step_out [OF True this] show ?thesis by (auto simp: queue_ok_def)
next
  case False
  from queue_event [OF assms(1) False assms(2)] show ?thesis by (auto simp: queue_ok_def)
qed

lemma connect_phase:
  assumes "queue_ok s" "next_event I s = (Inr (Connect cmd h p), s')"
  shows "sv_state s = PRequest \<and> sv_state s' = PConnectWait \<and> \<not> sv_rejected s'"
proof (cases "sv_out s = []")
  case False
  from queue_event [OF assms(1) False assms(2)] show ?thesis by auto
next
  case o': True
  then have st: "server_step I s = (Inr (Connect cmd h p), s')" using assms(2) by (simp add: next_event_def)
  show ?thesis
  proof (cases "sv_state s")
    case PGreeting
    then have "step_greeting s = (Inr (Connect cmd h p), s')" using st by (simp add: server_step_def)
    then show ?thesis by (cases rule: step_greeting_cases [OF o', consumes 1]) auto
  next
    case PAuth
    then have "step_auth s = (Inr (Connect cmd h p), s')" using st by (simp add: server_step_def)
    then show ?thesis by (cases rule: step_auth_cases [OF o', consumes 1]) auto
  next
    case PRequest
    then have "step_request I s = (Inr (Connect cmd h p), s')" using st by (simp add: server_step_def)
    then show ?thesis by (cases rule: step_request_cases [OF o', consumes 1]) (use PRequest in auto)
  next
    case PConnectWait
    then have "step_connect_wait I s = (Inr (Connect cmd h p), s')" using st by (simp add: server_step_def)
    then show ?thesis by (cases rule: step_connect_wait_cases [OF o', consumes 1]) auto
  qed (use st o' in \<open>auto simp: server_step_def step_auth_wait_cases split: if_splits\<close>)
qed

fun opened :: "('c, 'p) log_entry \<Rightarrow> bool" where
  "opened (LDial t (Inr a)) = True"
| "opened _ = False"

fun dials :: "('c, 'p) log_entry \<Rightarrow> bool" where
  "dials (LDial t r) = True"
| "dials _ = False"

fun closes :: "('c, 'p) log_entry \<Rightarrow> bool" where
  "closes LDisconnect = True"
| "closes LCloseDown = True"
| "closes LCloseUp = True"
| "closes _ = False"

text \<open>What the driver promises the session before it asks for the verdict.\<close>

definition decided :: "('c, 'p) server_session \<Rightarrow> bool" where
  "decided s \<longleftrightarrow>
     sv_relay_raw s \<or> sv_rejected s \<or> sv_connect_failed s \<or> sv_connected_bnd s \<noteq> None"

definition conn_ok :: "('c, 'p) conn \<Rightarrow> bool" where
  "conn_ok c \<longleftrightarrow>
     queue_ok (cn_sess c) \<and>
     (sv_state (cn_sess c) = PConnectWait \<longrightarrow> decided (cn_sess c)) \<and>
     (sv_state (cn_sess c) \<le> PRequest \<longrightarrow> filter dials (cn_log c) = []) \<and>
     length (filter opened (cn_log c)) = (if cn_up c = None then 0 else 1) \<and>
     filter closes (cn_log c) = []"

lemma opened_dials: "filter dials log = [] \<Longrightarrow> filter opened log = []"
  by (induction log rule: induct_list012) (auto elim: opened.elims split: if_splits)

lemma cn_decide_log [simp]:
  "filter opened (cn_log (cn_decide ds c)) = filter opened (cn_log c)"
  "filter dials (cn_log (cn_decide ds c)) = filter dials (cn_log c)"
  "filter closes (cn_log (cn_decide ds c)) = filter closes (cn_log c)"
  by (simp_all add: cn_decide_def filter_empty_conv)

lemma decided_by [simp]:
  "decided (cn_sess (cn_decide [DConnected h p] c))"
  "decided (cn_sess (cn_decide [DConnectFailed r] c))"
  by (simp_all add: cn_decide_def decided_def sv_connected_def sv_set_connect_failed_def)

text \<open>The failures of a dial that no \<^verbatim>\<open>except\<close> clause catches.\<close>

definition dial_raised :: "py_exn \<Rightarrow> ('c, 'p) conn \<Rightarrow> bool" where
  "dial_raised e c \<longleftrightarrow> dial_rep e = None \<and> (\<exists>t. LDial t (Inl e) \<in> set (cn_log c))"

definition conn_weak :: "('c, 'p) conn \<Rightarrow> bool" where
  "conn_weak c \<longleftrightarrow>
     length (filter opened (cn_log c)) = (if cn_up c = None then 0 else 1) \<and>
     filter closes (cn_log c) = []"

lemma dial_target_ok:
  assumes "queue_ok (cn_sess c)" "sv_state (cn_sess c) = PConnectWait"
    and log: "filter dials (cn_log c) = []" "conn_weak c"
    and d: "dial_target dial c = (q, c')"
  shows "q = None \<and> conn_ok c' \<or> (\<exists>e. q = Some (SRaise e) \<and> dial_raised e c' \<and> conn_weak c')"
proof -
  have o: "filter opened (cn_log c) = []" by (rule opened_dials [OF log(1)])
  show ?thesis
  proof (cases "dial (sv_target (cn_sess c))")
    case (Inr a)
    then show ?thesis
      using d assms(1,2) log o
      by (cases a) (auto simp: dial_target_def Let_def conn_ok_def conn_weak_def queue_ok_def
          less_eq_sv_phase_def)
  next
    case (Inl e)
    show ?thesis
    proof (cases "dial_rep e")
      case None
      then show ?thesis
        using Inl d log(2) o
        by (auto simp: dial_target_def Let_def conn_weak_def dial_raised_def)
    next
      case (Some rep)
      then show ?thesis
        using Inl d assms(1,2) log o
        by (auto simp: dial_target_def Let_def conn_ok_def conn_weak_def queue_ok_def
            less_eq_sv_phase_def)
    qed
  qed
qed

lemma conn_ok_weak: "conn_ok c \<Longrightarrow> conn_weak c"
  by (simp add: conn_ok_def conn_weak_def)

lemma on_request_ok:
  assumes "queue_ok (cn_sess c)" "sv_state (cn_sess c) = PConnectWait"
    and log: "filter dials (cn_log c) = []" "conn_weak c"
    and r: "on_request H dial h p c = (q, c')"
  shows "q = None \<and> conn_ok c' \<or> (\<exists>e. q = Some (SRaise e) \<and> dial_raised e c' \<and> conn_weak c')"
proof -
  define u where "u = (case hk_on_connect H of None \<Rightarrow> c
    | Some k \<Rightarrow> cn_decide (hook_decisions (rep_value GENERAL_FAILURE) (k (cn_sess c) h p)) c)"
  have u: "queue_ok (cn_sess u)" "sv_state (cn_sess u) = PConnectWait"
    "filter dials (cn_log u) = []" "conn_weak u"
    using assms(1-4) by (auto simp: u_def queue_ok_def conn_weak_def split: option.split)
  have "(q, c') = (if sv_rejected (cn_sess u) then (None, u)
         else if sv_intercept (cn_sess u) then (None, cn_decide [DConnected h p] u)
         else dial_target dial u)"
    using r unfolding on_request_def Let_def u_def [symmetric] by simp
  then consider "q = None" "c' = u" "sv_rejected (cn_sess u)"
    | "q = None" "c' = cn_decide [DConnected h p] u"
    | "dial_target dial u = (q, c')"
    by (metis prod.inject)
  then show ?thesis
  proof cases
    case 1
    then have "conn_ok c'"
      using u by (simp add: conn_ok_def conn_weak_def decided_def less_eq_sv_phase_def)
    with 1 show ?thesis by simp
  next
    case 2
    then have "conn_ok c'"
      using u by (simp add: conn_ok_def conn_weak_def queue_ok_def less_eq_sv_phase_def)
    with 2 show ?thesis by simp
  next
    case 3
    then show ?thesis by (rule dial_target_ok [OF u])
  qed
qed

text \<open>What one turn keeps, and how it can raise.\<close>

lemma decided_receive [simp]: "decided (receive s d) = decided s" "queue_ok (receive s d) = queue_ok s"
  by (simp_all add: decided_def queue_ok_def)

definition unsendable :: "py_exn \<Rightarrow> bool" where
  "unsendable e \<longleftrightarrow> e = OverflowErr \<or> e = UnicodeEncodeErr \<or> (\<exists>m. e = ValueErr m)"

lemma undecided_raise:
  assumes "next_event I s = (Inl e, s')" "sv_state s = PConnectWait \<longrightarrow> decided s"
  shows "e = UnicodeDecodeErr \<or> unsendable e"
proof (cases "sv_state s = PConnectWait")
  case True
  have "sv_out s = []" using assms(1) by (auto simp: next_event_def split: list.splits)
  then have st: "step_connect_wait I s = (Inl e, s')"
    using assms(1) True by (simp add: next_event_def server_step_def)
  then show ?thesis
    using assms(2) True
    by (auto simp: step_connect_wait_def decided_def unsendable_def emit_send_def emit_def Let_def
        dest!: py_reply_Inl split: if_splits option.splits sum.splits list.splits)
next
  case False
  then show ?thesis using next_event_raises [OF assms(1)] by blast
qed

lemma connect_wait_leaves:
  assumes n: "next_event I s = (Inr ev, s')" and q: "queue_ok s" and w: "sv_state s' = PConnectWait"
  shows "(\<exists>r. ev = Close r) \<and> s' = s\<lparr>sv_out := []\<rparr> \<or> (\<exists>c h p. ev = Connect c h p)"
proof (cases "sv_out s = []")
  case False
  from queue_event [OF q False n] w show ?thesis by auto
next
  case o': True
  then have st: "server_step I s = (Inr ev, s')" using n by (simp add: next_event_def)
  show ?thesis
  proof (cases "sv_state s")
    case PGreeting
    then have "step_greeting s = (Inr ev, s')" using st by (simp add: server_step_def)
    then show ?thesis by (cases rule: step_greeting_cases [OF o', consumes 1]) (use w PGreeting in auto)
  next
    case PAuth
    then have "step_auth s = (Inr ev, s')" using st by (simp add: server_step_def)
    then show ?thesis by (cases rule: step_auth_cases [OF o', consumes 1]) (use w PAuth in auto)
  next
    case PRequest
    then have "step_request I s = (Inr ev, s')" using st by (simp add: server_step_def)
    then show ?thesis by (cases rule: step_request_cases [OF o', consumes 1]) (use w PRequest in auto)
  next
    case PConnectWait
    then have "step_connect_wait I s = (Inr ev, s')" using st by (simp add: server_step_def)
    then show ?thesis by (cases rule: step_connect_wait_cases [OF o', consumes 1]) (use w in auto)
  qed (use st o' w in \<open>auto simp: server_step_def step_auth_wait_cases split: if_splits\<close>)
qed

lemma decided_out [simp]: "decided (s\<lparr>sv_out := es\<rparr>) = decided s"
  by (simp add: decided_def)

text \<open>The exceptions of one turn of a connection over given chunks and send outcomes.\<close>

definition io_raised :: "py_exn \<Rightarrow> ('c, 'p) conn \<Rightarrow> bool" where
  "io_raised e c \<longleftrightarrow> Inl e \<in> set (cn_rx c) \<or> Some e \<in> set (cn_sends c)"

lemma conn_ok_upd [simp]:
  "conn_ok (c\<lparr>cn_rx := r\<rparr>) = conn_ok c" "conn_ok (c\<lparr>cn_sends := w\<rparr>) = conn_ok c"
  "conn_ok (cn_note (LSent d) c) = conn_ok c" "conn_ok (cn_note (LSession a) c) = conn_ok c"
  by (simp_all add: conn_ok_def)

lemma conn_ok_receive [simp]:
  "conn_ok (c\<lparr>cn_sess := receive (cn_sess c) d\<rparr>) = conn_ok c"
  by (simp add: conn_ok_def)

lemma conn_ok_decide:
  assumes "conn_ok c" "sv_state (cn_sess c) \<noteq> PConnectWait"
  shows "conn_ok (cn_decide ds c)"
  using assms by (simp add: conn_ok_def queue_ok_def)

lemma serve_event_plain:
  assumes ok: "conn_ok c" and "\<And>cmd h p. ev \<noteq> Connect cmd h p"
    and w: "sv_state (cn_sess c) = PConnectWait \<Longrightarrow> \<exists>r. ev = Close r"
    and e: "serve_event H dial ev c = (q, c')"
  shows "conn_ok c' \<and> (\<forall>x. q = Some (SRaise x) \<longrightarrow> io_raised x c)"
proof (cases ev)
  case (Authorize u p)
  then have "sv_state (cn_sess c) \<noteq> PConnectWait" using w by auto
  from conn_ok_decide [OF ok this] show ?thesis
    using e Authorize by (auto simp: serve_event_def on_authorize_def split: option.splits)
next
  case NeedData
  show ?thesis
  proof (cases "cn_rx c")
    case Nil
    then show ?thesis using e NeedData ok by (auto simp: serve_event_def)
  next
    case (Cons m r)
    then show ?thesis
      using e NeedData ok by (cases m) (auto simp: serve_event_def io_raised_def split: if_splits)
  qed
next
  case (Send d)
  show ?thesis
  proof (cases "cn_sends c")
    case Nil
    then show ?thesis using e Send ok by (auto simp: serve_event_def)
  next
    case (Cons m r)
    then show ?thesis
      using e Send ok by (cases m) (auto simp: serve_event_def io_raised_def)
  qed
qed (use assms in \<open>auto simp: serve_event_def\<close>)

lemma serve_turn_ok:
  assumes ok: "conn_ok c" and t: "serve_turn I H dial c = (q, c')"
  shows "conn_weak c' \<and> (q = None \<or> q = Some SRelay \<longrightarrow> conn_ok c')"
    and "q = Some (SRaise e) \<Longrightarrow> e = UnicodeDecodeErr \<or> unsendable e \<or> dial_raised e c' \<or> io_raised e c"
proof -
  have "(conn_ok c' \<or> conn_weak c' \<and> (\<exists>e. q = Some (SRaise e))) \<and>
    (\<forall>e. q = Some (SRaise e) \<longrightarrow> e = UnicodeDecodeErr \<or> unsendable e \<or> dial_raised e c' \<or> io_raised e c)"
    using t
  proof (cases rule: serve_turn_cases)
    case (raise e s)
    then show ?thesis
      using undecided_raise [OF raise(1)] ok by (auto simp: conn_ok_def conn_weak_def)
  next
    case (event ev s)
    let ?c = "cn_note (LSession (AEvent ev)) (c\<lparr>cn_sess := s\<rparr>)"
    have q: "queue_ok (cn_sess c)" using ok by (simp add: conn_ok_def)
    have qs: "queue_ok s" by (rule next_event_queue [OF q event(1)])
    have le: "sv_state (cn_sess c) \<le> sv_state s" by (rule next_event_phase [OF event(1)])
    show ?thesis
    proof (cases "\<exists>cmd h p. ev = Connect cmd h p")
      case True
      then obtain cmd h p where ev: "ev = Connect cmd h p" by blast
      from connect_phase [OF q event(1) [unfolded ev]] have
        "sv_state (cn_sess c) = PRequest" "sv_state s = PConnectWait" by simp_all
      moreover have "on_request H dial h p ?c = (q, c')" using event(2) ev by (simp add: serve_event_def)
      ultimately have "q = None \<and> conn_ok c' \<or> (\<exists>e. q = Some (SRaise e) \<and> dial_raised e c' \<and> conn_weak c')"
        using on_request_ok [of ?c H dial h p q c'] qs ok by (simp add: conn_ok_def conn_weak_def)
      then show ?thesis by auto
    next
      case False
      have w: "sv_state s = PConnectWait \<Longrightarrow> (\<exists>r. ev = Close r) \<and> s = (cn_sess c)\<lparr>sv_out := []\<rparr>"
        using connect_wait_leaves [OF event(1) q] False by blast
      have "sv_state s \<le> PRequest \<Longrightarrow> sv_state (cn_sess c) \<le> PRequest" using le by (rule order_trans)
      then have "conn_ok (c\<lparr>cn_sess := s\<rparr>)" using ok qs w by (auto simp: conn_ok_def)
      then have "conn_ok ?c" by simp
      from serve_event_plain [OF this _ _ event(2)] False w show ?thesis
        by (auto simp: io_raised_def)
    qed
  qed
  then show "conn_weak c' \<and> (q = None \<or> q = Some SRelay \<longrightarrow> conn_ok c')"
    "q = Some (SRaise e) \<Longrightarrow> e = UnicodeDecodeErr \<or> unsendable e \<or> dial_raised e c' \<or> io_raised e c"
    using conn_ok_weak by auto
qed

end
