(* ===== verification/DriverLog.thy ===== *)
theory DriverLog
  imports ServerDriverFacts
begin

text \<open>
  How the entries of a driver's log answer the events of the session: what has to stand behind an
  event, what an entry needs in front of it, and that one turn of the event loop keeps to both.
\<close>

section \<open>What an event is answered with\<close>

fun is_decision :: "('c, 'p) log_entry \<Rightarrow> bool" where
  "is_decision (LSession (ADecide d)) = True"
| "is_decision _ = False"

fun is_event :: "('c, 'p) log_entry \<Rightarrow> bool" where
  "is_event (LSession (AEvent ev)) = True"
| "is_event _ = False"

definition given :: "('c, 'p) decision list \<Rightarrow> ('c, 'p) log_entry list" where
  "given ds = map (\<lambda>d. LSession (ADecide d)) ds"

text \<open>What the hooks are owed: their decisions, and a rejection if they raise.\<close>

definition login_answer ::
  "('c, 'p) server_hooks \<Rightarrow> ('c, 'p) server_session \<Rightarrow> pystr option \<Rightarrow> pystr option \<Rightarrow> ('c, 'p) decision list" where
  "login_answer H s u p =
     (case hk_authorize H of
        None \<Rightarrow> [DOk None]
      | Some h \<Rightarrow> fst (h s u p) @ (if snd (h s u p) then [DReject 2] else []))"

definition request_answer ::
  "('c, 'p) server_hooks \<Rightarrow> ('c, 'p) server_session \<Rightarrow> pystr \<Rightarrow> int \<Rightarrow> ('c, 'p) decision list" where
  "request_answer H s host port =
     (case hk_on_connect H of
        None \<Rightarrow> []
      | Some h \<Rightarrow> fst (h s host port) @ (if snd (h s host port) then [DReject 1] else []))"

fun dial_answer :: "py_exn + pystr \<times> int \<Rightarrow> ('c, 'p) decision list" where
  "dial_answer (Inr (host, port)) = [DConnected host port]"
| "dial_answer (Inl e) = (case dial_rep e of Some k \<Rightarrow> [DConnectFailed k] | None \<Rightarrow> [])"

text \<open>The entries \<open>ys\<close> behind an event that left the session in \<open>s\<close>, when the driver goes on.\<close>

fun heeded ::
  "('c, 'p) server_hooks \<Rightarrow> dialer \<Rightarrow> ('c, 'p) server_session \<Rightarrow> event \<Rightarrow> ('c, 'p) log_entry list \<Rightarrow> bool" where
  "heeded H dial s (Send d) ys = (\<exists>zs. ys = LSent d # zs)"
| "heeded H dial s NeedData ys = (\<exists>d zs. d \<noteq> [] \<and> ys = LSession (ARecv d) # zs)"
| "heeded H dial s (Authorize u p) ys = (takeWhile is_decision ys = given (login_answer H s u p))"
| "heeded H dial s (Connect cmd host port) ys =
     (let ds = request_answer H s host port; t = fold decide ds s; r = dial (sv_target t)
      in if sv_rejected t then takeWhile is_decision ys = given ds
         else if sv_intercept t then takeWhile is_decision ys = given (ds @ [DConnected host port])
         else \<exists>zs. ys = given ds @ LDial (sv_target t) r # zs \<and>
           takeWhile is_decision zs = given (dial_answer r))"
| "heeded H dial s (Relay host port) ys =
     (\<exists>k zs. ys = LRelay k # zs \<and>
        (case sv_custom_pipe s of Some f \<Rightarrow> k = RPipe f | None \<Rightarrow> k = RSplice \<or> k = RNothing))"
| "heeded H dial s (Close why) ys = (session_log ys = [] \<and> (\<forall>d. LSent d \<notin> set ys))"

text \<open>
  Where the driver may stop instead: a send that failed, and a client that sends nothing more,
  has closed, or whose \<^verbatim>\<open>recv\<close> failed.
\<close>

definition answered ::
  "py_exn option list \<Rightarrow> ('c, 'p) server_hooks \<Rightarrow> dialer \<Rightarrow> ('c, 'p) server_session \<Rightarrow> event \<Rightarrow>
     ('c, 'p) log_entry list \<Rightarrow> bool" where
  "answered sends H dial s ev ys \<longleftrightarrow>
     heeded H dial s ev ys \<or>
     session_log ys = [] \<and> (\<forall>d. LSent d \<notin> set ys) \<and>
       (ev = NeedData \<or> (\<exists>d e. ev = Send d \<and> Some e \<in> set sends))"

section \<open>What an entry needs in front of it\<close>

fun prompts :: "('c, 'p) log_entry \<Rightarrow> bool" where
  "prompts (LSession (AEvent (Authorize u p))) = True"
| "prompts (LSession (AEvent (Connect cmd host port))) = True"
| "prompts (LSession (ADecide d)) = True"
| "prompts (LDial t r) = True"
| "prompts _ = False"

fun justified ::
  "inet_api \<Rightarrow> bool \<Rightarrow> dialer \<Rightarrow> ('c, 'p) log_entry list \<Rightarrow> ('c, 'p) log_entry \<Rightarrow> bool" where
  "justified I ra dial xs (LSent d) = (\<exists>pre. xs = pre @ [LSession (AEvent (Send d))])"
| "justified I ra dial xs (LSession (ARecv d)) = (d \<noteq> [] \<and> (\<exists>pre. xs = pre @ [LSession (AEvent NeedData)]))"
| "justified I ra dial xs (LSession (ADecide d)) = (\<exists>pre l. xs = pre @ [l] \<and> prompts l)"
| "justified I ra dial xs (LDial t r) =
     (r = dial t \<and> (\<exists>pre cmd host port ds. xs = pre @ LSession (AEvent (Connect cmd host port)) # given ds) \<and>
      (\<exists>s. sv_trace I ra (session_log xs) s \<and> sv_target s = t \<and> \<not> sv_rejected s \<and> \<not> sv_intercept s))"
| "justified I ra dial xs (LRelay k) = (\<exists>pre host port. xs = pre @ [LSession (AEvent (Relay host port))])"
| "justified I ra dial xs (LSpliced up down) = (\<exists>pre. xs = pre @ [LRelay RSplice])"
| "justified I ra dial xs _ = True"

fun justified_from ::
  "inet_api \<Rightarrow> bool \<Rightarrow> dialer \<Rightarrow> ('c, 'p) log_entry list \<Rightarrow> ('c, 'p) log_entry list \<Rightarrow> bool" where
  "justified_from I ra dial xs [] = True"
| "justified_from I ra dial xs (l # ls) = (justified I ra dial xs l \<and> justified_from I ra dial (xs @ [l]) ls)"

lemma justified_from_append [simp]:
  "justified_from I ra dial xs (ys @ zs) =
     (justified_from I ra dial xs ys \<and> justified_from I ra dial (xs @ ys) zs)"
  by (induction ys arbitrary: xs) auto

lemma justified_at: "justified_from I ra dial [] log \<Longrightarrow> log = xs @ l # ys \<Longrightarrow> justified I ra dial xs l"
  by simp

text \<open>The events of a log are answered.\<close>

definition all_answered ::
  "inet_api \<Rightarrow> bool \<Rightarrow> (('c, 'p) server_session \<Rightarrow> event \<Rightarrow> ('c, 'p) log_entry list \<Rightarrow> bool) \<Rightarrow>
     ('c, 'p) log_entry list \<Rightarrow> bool" where
  "all_answered I ra A log \<longleftrightarrow>
     (\<forall>xs ev ys. log = xs @ LSession (AEvent ev) # ys \<longrightarrow>
        (\<exists>s. sv_trace I ra (session_log xs @ [AEvent ev]) s \<and> A s ev ys))"

section \<open>Logs that grow\<close>

lemma given_simps [simp]:
  "given [] = []" "given (d # ds) = LSession (ADecide d) # given ds" "given (ds @ es) = given ds @ given es"
  "session_log (given ds) = map ADecide ds" "takeWhile is_decision (given ds @ ys) = given ds @ takeWhile is_decision ys"
  "takeWhile is_decision (given ds) = given ds" "filter is_event (given ds) = []"
  by (induction ds) (auto simp: given_def)

lemma cn_decide_log_given: "cn_log (cn_decide ds c) = cn_log c @ given ds"
  by (simp add: cn_decide_def given_def)

lemma takeWhile_stop: "\<not> P l \<Longrightarrow> takeWhile P (ys @ l # zs) = takeWhile P ys"
  by (induction ys) auto

lemma heeded_extend:
  assumes "heeded H dial s ev ys" "\<not> is_decision l" "\<And>h p. ev \<noteq> Relay h p" "\<And>r. ev \<noteq> Close r"
  shows "heeded H dial s ev (ys @ l # zs)"
proof (cases ev)
  case (Connect cmd host port)
  then show ?thesis
    using assms(1,2) by (auto simp: Let_def takeWhile_stop split: if_splits)
qed (use assms in \<open>auto simp: takeWhile_stop\<close>)

lemma session_log_quiet:
  "(\<forall>l \<in> set ys. \<forall>a. l \<noteq> LSession a) \<Longrightarrow> session_log (xs @ ys) = session_log xs"
proof -
  have "(\<forall>l \<in> set ys. \<forall>a. l \<noteq> LSession a) \<Longrightarrow> session_log ys = []"
    by (induction ys rule: session_log.induct) auto
  then show "(\<forall>l \<in> set ys. \<forall>a. l \<noteq> LSession a) \<Longrightarrow> session_log (xs @ ys) = session_log xs" by simp
qed

lemma split_at_event:
  assumes "log @ l # rest = xs @ LSession (AEvent ev) # ys" "filter is_event rest = []"
  shows "(\<exists>zs. log = xs @ LSession (AEvent ev) # zs \<and> ys = zs @ l # rest) \<or>
    xs = log \<and> l = LSession (AEvent ev) \<and> ys = rest"
proof -
  from assms(1) consider us where "log = xs @ us" "us @ l # rest = LSession (AEvent ev) # ys"
    | us where "log @ us = xs" "l # rest = us @ LSession (AEvent ev) # ys"
    by (auto simp: append_eq_append_conv2)
  then show ?thesis
  proof cases
    case (1 us)
    then show ?thesis by (cases us) auto
  next
    case (2 us)
    then show ?thesis using assms(2) by (cases us) (auto simp: filter_empty_conv)
  qed
qed

text \<open>One more event, answered in its own way, and then entries that are no events.\<close>

lemma all_answered_grow:
  assumes "all_answered I ra A log" "filter is_event rest = []"
    and "\<And>s ev ys. A s ev ys \<Longrightarrow> B s ev (ys @ l # rest)"
    and "\<And>ev. l = LSession (AEvent ev) \<Longrightarrow> \<exists>s. sv_trace I ra (session_log log @ [AEvent ev]) s \<and> B s ev rest"
  shows "all_answered I ra B (log @ l # rest)"
  unfolding all_answered_def
proof (intro allI impI)
  fix xs ev ys assume "log @ l # rest = xs @ LSession (AEvent ev) # ys"
  from split_at_event [OF this assms(2)] show "\<exists>s. sv_trace I ra (session_log xs @ [AEvent ev]) s \<and> B s ev ys"
    using assms(1,3,4) unfolding all_answered_def by blast
qed

section \<open>One turn\<close>

text \<open>The entries of one event handler, by how it ends.\<close>

definition turn_answered ::
  "stop option \<Rightarrow> ('c, 'p) conn \<Rightarrow> ('c, 'p) server_hooks \<Rightarrow> dialer \<Rightarrow> ('c, 'p) server_session \<Rightarrow> event \<Rightarrow>
     ('c, 'p) log_entry list \<Rightarrow> bool" where
  "turn_answered q c H dial s ev ys \<longleftrightarrow>
     (case q of
        None \<Rightarrow> heeded H dial s ev ys \<and> (\<forall>h p. ev \<noteq> Relay h p) \<and> (\<forall>r. ev \<noteq> Close r)
      | Some SRelay \<Rightarrow> ys = [] \<and> (\<exists>h p. ev = Relay h p)
      | Some _ \<Rightarrow>
          heeded H dial s ev ys \<and> (\<exists>cmd h p. ev = Connect cmd h p) \<or>
          ys = [] \<and> (ev = NeedData \<or> (\<exists>r. ev = Close r) \<or>
            (\<exists>d e. ev = Send d \<and> Some e \<in> set (cn_sends c))))"

lemma hook_answers:
  "hk_authorize H = Some h \<Longrightarrow> login_answer H s u p = hook_decisions 2 (h s u p)"
  "hk_on_connect H = Some k \<Longrightarrow> request_answer H s host port = hook_decisions 1 (k s host port)"
  by (simp_all add: login_answer_def request_answer_def hook_decisions_def)

lemma on_authorize_entries:
  "cn_log (on_authorize H u p c) = cn_log c @ given (login_answer H (cn_sess c) u p)"
  by (auto simp: on_authorize_def cn_decide_log_given hook_answers login_answer_def hook_decisions_def
      split: option.splits)

lemma dial_target_entries:
  assumes "dial_target dial c = (q, c')"
  shows "cn_log c' = cn_log c @ LDial (sv_target (cn_sess c)) (dial (sv_target (cn_sess c))) #
      given (dial_answer (dial (sv_target (cn_sess c))))"
    and "q = None \<or> (\<exists>e. q = Some (SRaise e))"
  using assms
  by (auto simp: dial_target_def Let_def cn_decide_log_given split: sum.splits option.splits)

lemma on_request_entries:
  assumes "on_request H dial host port c = (q, c')"
  defines "ds \<equiv> request_answer H (cn_sess c) host port"
  defines "t \<equiv> fold decide ds (cn_sess c)"
  shows "cn_log c' = cn_log c @ given ds @
      (if sv_rejected t then [] else if sv_intercept t then given [DConnected host port]
       else LDial (sv_target t) (dial (sv_target t)) # given (dial_answer (dial (sv_target t))))"
    and "q = None \<or> (\<exists>e. q = Some (SRaise e))"
proof -
  define u where "u = (case hk_on_connect H of None \<Rightarrow> c
    | Some h \<Rightarrow> cn_decide (hook_decisions (rep_value GENERAL_FAILURE) (h (cn_sess c) host port)) c)"
  have "cn_log u = cn_log c @ given ds"
    by (auto simp: u_def ds_def request_answer_def hook_decisions_def cn_decide_log_given split: option.split)
  moreover have "cn_sess u = t"
    by (auto simp: u_def ds_def t_def request_answer_def hook_decisions_def cn_decide_def split: option.split)
  ultimately have u: "cn_log u = cn_log c @ given ds" "cn_sess u = t" by simp_all
  have r: "(if sv_rejected t then (None, u)
         else if sv_intercept t then (None, cn_decide [DConnected host port] u)
         else dial_target dial u) = (q, c')"
    using assms(1) unfolding on_request_def Let_def u_def [symmetric] u(2) .
  show "q = None \<or> (\<exists>e. q = Some (SRaise e))"
    using r dial_target_entries(2) [of dial u q c'] by (auto split: if_splits)
  show "cn_log c' = cn_log c @ given ds @
      (if sv_rejected t then [] else if sv_intercept t then given [DConnected host port]
       else LDial (sv_target t) (dial (sv_target t)) # given (dial_answer (dial (sv_target t))))"
    using r u dial_target_entries(1) [of dial u q c'] by (auto simp: cn_decide_log_given split: if_splits)
qed

lemma serve_event_entries:
  assumes "serve_event H dial ev c = (q, c')"
  shows "\<exists>rest. cn_log c' = cn_log c @ rest \<and> filter is_event rest = [] \<and>
    turn_answered q c H dial (cn_sess c) ev rest"
proof (cases ev)
  case (Connect cmd host port)
  then have r: "on_request H dial host port c = (q, c')" using assms by (simp add: serve_event_def)
  define ds where "ds = request_answer H (cn_sess c) host port"
  define t where "t = fold decide ds (cn_sess c)"
  define rest where "rest = given ds @
      (if sv_rejected t then [] else if sv_intercept t then given [DConnected host port]
       else LDial (sv_target t) (dial (sv_target t)) # given (dial_answer (dial (sv_target t))))"
  have "cn_log c' = cn_log c @ rest"
    using on_request_entries(1) [OF r] by (simp add: rest_def t_def ds_def)
  moreover have "heeded H dial (cn_sess c) ev rest"
    by (simp add: Connect Let_def ds_def [symmetric] t_def [symmetric]) (simp add: rest_def)
  moreover have "filter is_event rest = []" by (simp add: rest_def)
  ultimately show ?thesis
    using on_request_entries(2) [OF r] by (auto simp: turn_answered_def Connect)
next
  case (Authorize u p)
  then have "q = None" "c' = on_authorize H u p c" using assms by (simp_all add: serve_event_def)
  then show ?thesis by (simp add: on_authorize_entries turn_answered_def Authorize)
next
  case (Send d)
  show ?thesis
  proof (cases "cn_sends c")
    case Nil
    then show ?thesis using assms Send by (auto simp: serve_event_def turn_answered_def)
  next
    case (Cons x xs)
    then show ?thesis using assms Send by (cases x) (auto simp: serve_event_def turn_answered_def)
  qed
next
  case NeedData
  show ?thesis
  proof (cases "cn_rx c")
    case Nil
    then show ?thesis using assms NeedData by (auto simp: serve_event_def turn_answered_def)
  next
    case (Cons x xs)
    then show ?thesis
      using assms NeedData by (cases x) (auto simp: serve_event_def turn_answered_def split: if_splits)
  qed
qed (use assms in \<open>auto simp: serve_event_def turn_answered_def\<close>)

text \<open>Every entry of the handler is justified by what is in front of it.\<close>

lemma justified_given: "prompts l \<Longrightarrow> justified_from I ra dial (xs @ [l]) (given ds)"
proof (induction ds arbitrary: xs l)
  case (Cons d ds)
  show ?case using Cons.prems Cons.IH [of "LSession (ADecide d)" "xs @ [l]"] by simp
qed simp

lemma serve_event_justified:
  assumes c: "cn_log c = pre @ [LSession (AEvent ev)]" "cn_traced I ra c"
    and e: "serve_event H dial ev c = (q, c')" and rest: "cn_log c' = cn_log c @ rest"
  shows "justified_from I ra dial (cn_log c) rest"
proof (cases ev)
  case (Connect cmd host port)
  then have r: "on_request H dial host port c = (q, c')" using e by (simp add: serve_event_def)
  define ds where "ds = request_answer H (cn_sess c) host port"
  define t where "t = fold decide ds (cn_sess c)"
  have l: "rest = given ds @
      (if sv_rejected t then [] else if sv_intercept t then given [DConnected host port]
       else LDial (sv_target t) (dial (sv_target t)) # given (dial_answer (dial (sv_target t))))"
    using on_request_entries(1) [OF r] rest by (simp add: t_def ds_def)
  have p: "prompts (LSession (AEvent ev))" by (simp add: Connect)
  note g = justified_given [OF p, of I ra dial pre]
  have "sv_trace I ra (session_log (cn_log c @ given ds)) t"
    using c(2) trace_decides unfolding cn_traced_def t_def by fastforce
  moreover have "\<exists>pre cmd host port es. cn_log c @ given ds =
      pre @ LSession (AEvent (Connect cmd host port)) # given es"
    by (rule exI [of _ pre], rule exI [of _ cmd], rule exI [of _ host], rule exI [of _ port], rule exI [of _ ds])
      (simp add: c(1) Connect)
  moreover have "justified_from I ra dial ((cn_log c @ given ds) @ [LDial x y]) (given es)" for x y es
    by (rule justified_given) simp
  ultimately show ?thesis
    using g [of ds] g [of "ds @ [DConnected host port]"] l c(1) by auto
next
  case (Authorize u p)
  then have "rest = given (login_answer H (cn_sess c) u p)"
    using e rest on_authorize_entries [of H u p c] by (auto simp: serve_event_def)
  then show ?thesis using justified_given [of "LSession (AEvent ev)"] c(1) Authorize by simp
next
  case (Send d)
  then show ?thesis
    using e rest c(1) by (auto simp: serve_event_def split: list.splits option.splits)
next
  case NeedData
  then show ?thesis
    using e rest c(1) by (auto simp: serve_event_def split: list.splits sum.splits if_splits)
qed (use e rest in \<open>auto simp: serve_event_def\<close>)

end
