(* ===== verification/ServerRuns.thy ===== *)
theory ServerRuns
  imports ServerDriverFacts InetText
begin

text \<open>
  Runs of the drivers with a client that needs no login: from the accepted connection to the
  dial, and from a dial that succeeded to the relay.
\<close>

lemma serve_loop_step: "serve_turn I H dial c = (None, c') \<Longrightarrow> serve_loop I H dial c = serve_loop I H dial c'"
  by (simp add: serve_loop.simps [of I H dial c])

lemma serve_loop_stop: "serve_turn I H dial c = (Some st, c') \<Longrightarrow> serve_loop I H dial c = (st, c')"
  by (simp add: serve_loop.simps [of I H dial c])

lemma poll_next: "sv_poll I s = (Some r, s') \<Longrightarrow> next_event I s = (r, s')"
  by (auto simp: sv_poll_def split: prod.splits if_splits)

lemma serve_turn_event:
  "sv_poll I (cn_sess c) = (Some (Inr ev), s) \<Longrightarrow>
     serve_turn I H dial c = serve_event H dial ev (cn_note (LSession (AEvent ev)) (c\<lparr>cn_sess := s\<rparr>))"
  by (drule poll_next) (simp add: serve_turn_def)

text \<open>What went out on the client's connection.\<close>

fun sent_bytes :: "('c, 'p) log_entry list \<Rightarrow> bytes" where
  "sent_bytes [] = []"
| "sent_bytes (LSent d # l) = d @ sent_bytes l"
| "sent_bytes (_ # l) = sent_bytes l"

lemma sent_bytes_append [simp]: "sent_bytes (xs @ ys) = sent_bytes xs @ sent_bytes ys"
  by (induction xs rule: sent_bytes.induct) auto

lemma sent_bytes_decide [simp]: "sent_bytes (cn_log (cn_decide ds c)) = sent_bytes (cn_log c)"
  by (induction ds arbitrary: c) (auto simp: cn_decide_def)

lemma sent_bytes_note [simp]: "\<not> (\<exists>d. l = LSent d) \<Longrightarrow> sent_bytes (cn_log (cn_note l c)) = sent_bytes (cn_log c)"
  by (cases l) (auto simp: cn_note_def)

lemma sent_bytes_teardown [simp]: "sent_bytes (cn_log (teardown H c)) = sent_bytes (cn_log c)"
  by (simp add: teardown_def)

text \<open>The connection as the dial finds it.\<close>

definition at_dial ::
  "inet_api \<Rightarrow> pystr \<Rightarrow> int \<Rightarrow> bytes \<Rightarrow> (py_exn + bytes) list \<Rightarrow> ('c, 'p) conn \<Rightarrow> bool" where
  "at_dial I host port early later c \<longleftrightarrow>
     sv_buf (cn_sess c) = early \<and> sv_target (cn_sess c) = Some (seen_host I host, port) \<and>
     sv_out (cn_sess c) = [] \<and> sv_state (cn_sess c) = PConnectWait \<and> sv_custom_pipe (cn_sess c) = None \<and>
     \<not> sv_rejected (cn_sess c) \<and> \<not> sv_relay_raw (cn_sess c) \<and> \<not> sv_connect_failed (cn_sess c) \<and>
     cn_rx c = later \<and> cn_sends c = [] \<and> cn_up c = None \<and> sent_bytes (cn_log c) = [5, 0]"

lemma serve_to_dial:
  assumes I: "posix_inet I" and H: "hk_authorize (H :: ('c, 'p) server_hooks) = None" "hk_on_connect H = None"
    and r: "py_request I 1 host port = Inr r"
  shows "\<exists>c. at_dial I host port early later c \<and>
    serve_loop I H dial (conn_init H (Inr ([5, 1, 0] @ r @ early) # later) []) =
      (case dial_target dial c of (Some st, c') \<Rightarrow> (st, c') | (None, c') \<Rightarrow> serve_loop I H dial c')"
proof -
  let ?d = "[5, 1, 0] @ r @ early"
  let ?s0 = "server_init False :: ('c, 'p) server_session"
  let ?c0 = "conn_init H (Inr ?d # later) []"
  have s0: "cn_sess ?c0 = ?s0" by (simp add: conn_init_def new_session_def H)
  have n0: "next_event I ?s0 = (Inr NeedData, ?s0)"
    by (simp add: next_event_def server_step_def step_greeting_def server_init_def
        py_parse_greeting_def parse_greeting_def)
  define c1 where "c1 = \<lparr>cn_sess = receive ?s0 ?d, cn_up = None, cn_rx = later, cn_sends = [],
      cn_log = [LSession (AEvent NeedData), LSession (ARecv ?d)]\<rparr>"
  have t0: "serve_turn I H dial ?c0 = (None, c1)"
    using n0 s0 by (simp add: serve_turn_def serve_event_def conn_init_def cn_note_def c1_def new_session_def H)
  define c2 where "c2 = \<lparr>cn_sess = (receive ?s0 ?d)\<lparr>sv_buf := r @ early, sv_state := PRequest\<rparr>,
      cn_up = None, cn_rx = later, cn_sends = [],
      cn_log = cn_log c1 @ [LSession (AEvent (Send [5, 0])), LSent [5, 0]]\<rparr>"
  have "sv_poll I (cn_sess c1) = (Some (Inr (Send [5, 0])), cn_sess c2)"
    using poll_greeting [of "cn_sess c1" 0 "r @ early" I]
    by (simp add: c1_def c2_def server_init_def receive_def)
  then have t1: "serve_turn I H dial c1 = (None, c2)"
    by (simp add: serve_turn_event serve_event_def cn_note_def) (simp add: c1_def c2_def)
  define c3 where "c3 = c2\<lparr>cn_sess := (cn_sess c2)\<lparr>sv_buf := early, sv_cmd := 1,
      sv_target := Some (seen_host I host, port), sv_rejected := False, sv_connected_bnd := None,
      sv_connect_failed := False, sv_state := PConnectWait\<rparr>,
      cn_log := cn_log c2 @ [LSession (AEvent (Connect 1 (seen_host I host) port))]\<rparr>"
  have "sv_poll I (cn_sess c2) = (Some (Inr (Connect 1 (seen_host I host) port)), cn_sess c3)"
    using poll_request [OF I _ _ _ r, of "cn_sess c2" early]
    by (simp add: c2_def c3_def server_init_def receive_def)
  then have t2: "serve_turn I H dial c2 = dial_target dial c3"
    by (simp add: serve_turn_event serve_event_def on_request_def H cn_note_def)
       (simp add: c3_def c2_def server_init_def receive_def)
  have "at_dial I host port early later c3"
    by (simp add: at_dial_def c3_def c2_def c1_def server_init_def receive_def)
  moreover have "serve_loop I H dial ?c0 = serve_loop I H dial c2"
    using serve_loop_step [OF t0] serve_loop_step [OF t1] by simp
  moreover have "serve_loop I H dial c2 =
      (case dial_target dial c3 of (Some st, c') \<Rightarrow> (st, c') | (None, c') \<Rightarrow> serve_loop I H dial c')"
    by (subst serve_loop.simps) (auto simp: t2 split: prod.split option.split)
  ultimately show ?thesis by auto
qed

text \<open>From a dial that succeeded to the relay.\<close>

lemma serve_dialled:
  assumes a: "at_dial I host port early later c" and d: "dial (Some (seen_host I host, port)) = Inr (bh, bp)"
    and w: "py_reply I 0 bh bp = Inr w"
  shows "\<exists>u. (case dial_target dial c of (Some st, c') \<Rightarrow> (st, c') | (None, c') \<Rightarrow> serve_loop I H dial c') =
      (SRelay, u) \<and>
    sv_buf (cn_sess u) = early \<and> sv_custom_pipe (cn_sess u) = None \<and> cn_rx u = later \<and> cn_sends u = [] \<and>
    cn_up u = Some (bh, bp) \<and> sent_bytes (cn_log u) = [5, 0] @ w"
proof -
  note a = a [unfolded at_dial_def]
  define c1 where "c1 = cn_decide [DConnected bh bp]
      ((cn_note (LDial (Some (seen_host I host, port)) (Inr (bh, bp))) c)\<lparr>cn_up := Some (bh, bp)\<rparr>)"
  have d1: "dial_target dial c = (None, c1)" using a d by (simp add: dial_target_def c1_def)
  have s1: "cn_sess c1 = (cn_sess c)\<lparr>sv_connected_bnd := Some (bh, bp)\<rparr>"
    by (simp add: c1_def cn_decide_def cn_note_def sv_connected_def)
  have k1: "cn_rx c1 = later" "cn_sends c1 = []" "cn_up c1 = Some (bh, bp)" "sent_bytes (cn_log c1) = [5, 0]"
    using a by (simp_all add: c1_def)
  define c2 where "c2 = c1\<lparr>cn_sess := (cn_sess c1)\<lparr>sv_state := PRelay, sv_out := [Relay (seen_host I host) port]\<rparr>,
      cn_log := cn_log c1 @ [LSession (AEvent (Send w)), LSent w]\<rparr>"
  have "sv_poll I (cn_sess c1) = (Some (Inr (Send w)), cn_sess c2)"
    using poll_grant [of "cn_sess c1" bh bp "seen_host I host" port I w] a w s1 by (simp add: c2_def)
  then have t1: "serve_turn I H dial c1 = (None, c2)"
    using k1(2) by (simp add: serve_turn_event serve_event_def cn_note_def) (simp add: c2_def)
  define c3 where "c3 = cn_note (LSession (AEvent (Relay (seen_host I host) port)))
      (c2\<lparr>cn_sess := (cn_sess c2)\<lparr>sv_out := []\<rparr>\<rparr>)"
  have "sv_poll I (cn_sess c2) = (Some (Inr (Relay (seen_host I host) port)), (cn_sess c2)\<lparr>sv_out := []\<rparr>)"
    by (rule poll_queue) (simp_all add: c2_def)
  then have t2: "serve_turn I H dial c2 = (Some SRelay, c3)"
    by (simp add: serve_turn_event serve_event_def c3_def)
  have "serve_loop I H dial c1 = (SRelay, c3)" by (simp add: serve_loop_step [OF t1] serve_loop_stop [OF t2])
  moreover have "sv_buf (cn_sess c3) = early \<and> sv_custom_pipe (cn_sess c3) = None \<and> cn_rx c3 = later \<and>
      cn_sends c3 = [] \<and> cn_up c3 = Some (bh, bp) \<and> sent_bytes (cn_log c3) = [5, 0] @ w"
    using a k1 s1 by (simp add: c3_def c2_def cn_note_def)
  ultimately show ?thesis using d1 by simp
qed

end
