(* ===== verification/ServerDriverProps.thy ===== *)
theory ServerDriverProps
  imports ServerRuns
begin

text \<open>
  The properties of the two server drivers: what a client that never logs in gets, how long they can be kept waiting, what they close, what can escape
  them, where they differ, and what the relay is given.
\<close>

section \<open>Concrete connections\<close>

text \<open>A server without hooks, a dial that always succeeds, and an upstream that answers and closes.\<close>

definition open_hooks :: "(unit, unit) server_hooks" where
  "open_hooks = \<lparr>hk_authorize = None, hk_on_connect = None, hk_on_disconnect = Some (\<lambda>_. True)\<rparr>"

definition demo_dial :: dialer where
  "demo_dial t = Inr (py_lit ''10.0.0.1'', 4242)"

definition demo_env :: "unit relay_env" where
  "demo_env = \<lparr>re_pipe = (\<lambda>_. None), re_up_rx = [Inr [7, 8], Inr []], re_up_sends = [],
     re_up_closing = [], re_down_closing = []\<rparr>"

text \<open>A client that asks for 1.2.3.4:80, then sends two bytes and closes.\<close>

definition demo_rx :: "(py_exn + bytes) list" where
  "demo_rx = [Inr [5, 1, 0], Inr [5, 1, 0, 1, 1, 2, 3, 4, 0, 80], Inr [84, 85], Inr []]"

text \<open>The outcome of a run and a test of its log.\<close>

definition run_check :: "(('c, 'p) log_entry list \<Rightarrow> bool) \<Rightarrow> outcome \<times> ('c, 'p) conn \<Rightarrow> outcome option" where
  "run_check P x = (if P (cn_log (snd x)) then Some (fst x) else None)"

lemma run_checkE: "run_check P x = Some out \<Longrightarrow> \<exists>c. x = (out, c) \<and> P (cn_log c)"
  by (cases x) (auto simp: run_check_def split: if_splits)

fun relays :: "('c, 'p) log_entry \<Rightarrow> bool" where
  "relays (LRelay k) = True"
| "relays _ = False"

lemma no_relays: "list_all (\<lambda>l. \<not> relays l) log \<Longrightarrow> \<forall>l \<in> set log. \<forall>k. l \<noteq> LRelay k"
  by (auto simp: list_all_iff)

section \<open>A client cannot pin a handler\<close>

text \<open>C14. A handler blocks before its relay only on a client that is open, silent and has sent
  fewer than 1032 bytes: a client that sends more, closes, or fails always gets the handler to
  return, to raise or to start the relay, whatever the bytes are.\<close>

theorem handler_not_pinned:
  assumes "threaded_handle I H dial E rx sends = (Hung, c) \<or> async_handle I H dial E rx sends = (Hung, c)"
    and "\<forall>l \<in> set (cn_log c). \<forall>k. l \<noteq> LRelay k"
  shows "\<exists>chunks. rx = map Inr chunks \<and> [] \<notin> set chunks \<and> length (concat chunks) < 1032"
proof -
  have *: ?thesis
    if h: "handle_with swallows relay I H dial (conn_init H rx sends) = (Hung, c)"
      and r: "\<And>u st v. relay u = (st, v) \<Longrightarrow> st = SBlocked \<Longrightarrow> \<exists>k. LRelay k \<in> set (cn_log v)" for swallows relay
  proof -
    from handle_with_cases [OF h] obtain st u st' v where
      l: "serve_loop I H dial (conn_init H rx sends) = (st, u)"
      and v: "if st = SRelay then relay u = (st', v) else st' = st \<and> v = u"
      and s: "st' = SBlocked" "c = v" by (fastforce split: stop.splits if_splits)
    have "st \<noteq> SRelay" using r [of u st' v] v s assms(2) by (metis (full_types))
    with v s l have b: "serve_loop I H dial (conn_init H rx sends) = (SBlocked, u)" by simp
    have a: "accounted (cn_sess (conn_init H rx sends)) = 0" "sv_invar (cn_sess (conn_init H rx sends))"
      "cn_rx (conn_init H rx sends) = rx"
      by (simp_all add: conn_init_def new_session_def accounted_def server_init_def sv_invar_def)
    from serve_loop_blocked [OF b a(1,2)] a(3) show ?thesis by simp
  qed
  have r: "threaded_relay E u = (st, v) \<or> async_relay E u = (st, v) \<Longrightarrow> st = SBlocked \<Longrightarrow>
      \<exists>k. LRelay k \<in> set (cn_log v)" for u st v
    by (auto simp: threaded_relay_def async_relay_def run_pipe_def splice_def async_splice_def Let_def
        split: option.splits if_splits prod.splits)
  show ?thesis
    using assms(1) * r unfolding threaded_handle_def async_handle_def by blast
qed

theorem handler_not_pinned_witness:
  "\<exists>c chunks. threaded_handle text_inet open_hooks demo_dial demo_env [Inr [5, 1]] [] = (Hung, c) \<and>
    [Inr [5, 1]] = (map Inr chunks :: (py_exn + bytes) list) \<and> length (concat chunks) < 1032"
proof -
  have "run_check (list_all (\<lambda>l. \<not> relays l))
      (threaded_handle text_inet open_hooks demo_dial demo_env [Inr [5, 1]] []) = Some Hung"
    by code_simp
  from run_checkE [OF this] obtain c where
    c: "threaded_handle text_inet open_hooks demo_dial demo_env [Inr [5, 1]] [] = (Hung, c)"
      "list_all (\<lambda>l. \<not> relays l) (cn_log c)" by blast
  from handler_not_pinned [OF disjI1 [OF c(1)] no_relays [OF c(2)]] obtain chunks where
    "[Inr [5, 1]] = (map Inr chunks :: (py_exn + bytes) list)" "length (concat chunks) < 1032" by (elim exE conjE) (rule that)
  with c(1) show ?thesis by (intro exI conjI)
qed

section \<open>The authentication gate, at the driver\<close>

text \<open>C8. A client that the authorize hook never accepts (it rejects, or raises, at every call)
  gets nowhere: neither driver dials, relays or runs a custom pipe for it, whatever it sends
  and whatever the other hooks do.\<close>

theorem rejected_client_gets_nothing:
  assumes "hk_authorize H = Some h"
    and "\<And>s u p. rejected_by (map ADecide (hook_decisions (rep_value NOT_ALLOWED) (h s u p))) False"
    and "threaded_handle I H dial E rx sends = (out, c) \<or> async_handle I H dial E rx sends = (out, c)"
  shows "\<forall>l \<in> set (cn_log c). \<not> reaches_out l"
proof -
  have *: "\<forall>l \<in> set (cn_log c). \<not> reaches_out l"
    if h: "handle_with swallows relay I H dial (conn_init H rx sends) = (out, c)" for swallows relay
  proof -
    let ?c = "conn_init H rx sends"
    from handle_with_cases [OF h] obtain st u st' v where l: "serve_loop I H dial ?c = (st, u)"
      and v: "if st = SRelay then relay u = (st', v) else st' = st \<and> v = u"
      and c: "c = v \<or> c = teardown H v" by (fastforce split: stop.splits)
    have start: "kept_out ?c"
      using assms(1)
      by (simp add: kept_out_def conn_init_def new_session_def shut_out_def queue_ok_def server_init_def)
    have keep: "kept_out x' \<and> q \<noteq> Some SRelay" if "kept_out x" "serve_turn I H dial x = (q, x')" for x q x'
      by (rule kept_out_turn [OF that assms(1,2)])
    have "\<exists>c0. kept_out c0 \<and> serve_turn I H dial c0 = (Some st, u)"
      by (rule serve_loop_last [where P = kept_out, OF start l]) (use keep in blast)
    then have "kept_out u" "st \<noteq> SRelay" using keep by blast+
    then have "kept_out v" using v by simp
    then show ?thesis using c by (auto simp: kept_out_def teardown_def)
  qed
  show ?thesis
    using assms(3) * unfolding threaded_handle_def async_handle_def by blast
qed

text \<open>A hook that first accepts and then raises, and a client that logs in and asks at once.\<close>

definition closed_hooks :: "(unit, unit) server_hooks" where
  "closed_hooks = \<lparr>hk_authorize = Some (\<lambda>_ _ _. ([DOk None], True)), hk_on_connect = None,
     hk_on_disconnect = None\<rparr>"

theorem rejected_client_gets_nothing_witness:
  "\<exists>c. threaded_handle text_inet closed_hooks demo_dial demo_env
      [Inr [5, 1, 2, 1, 1, 65, 1, 66, 5, 1, 0, 1, 1, 2, 3, 4, 0, 80]] [] = (Ended, c) \<and>
    list_all (\<lambda>l. \<not> reaches_out l) (cn_log c)"
proof -
  let ?rx = "[Inr [5, 1, 2, 1, 1, 65, 1, 66, 5, 1, 0, 1, 1, 2, 3, 4, 0, 80]]"
  have "run_check (\<lambda>_. True) (threaded_handle text_inet closed_hooks demo_dial demo_env ?rx []) = Some Ended"
    by code_simp
  from run_checkE [OF this] obtain c where
    c: "threaded_handle text_inet closed_hooks demo_dial demo_env ?rx [] = (Ended, c)" by blast
  have h: "hk_authorize closed_hooks = Some (\<lambda>_ _ _. ([DOk None], True))" by (simp add: closed_hooks_def)
  from rejected_client_gets_nothing [OF h _ disjI1 [OF c]] c show ?thesis
    by (simp add: hook_decisions_def list_all_iff)
qed

section \<open>Every socket is closed\<close>

lemma conn_init_ok: "conn_ok (conn_init H rx sends)"
  by (simp add: conn_ok_def conn_init_def new_session_def server_init_def queue_ok_def)

lemma handle_conn:
  assumes h: "handle_with swallows relay I H dial (conn_init H rx sends) = (out, c)"
    and r: "\<And>u st v. relay u = (st, v) \<Longrightarrow> cn_up v = cn_up u \<and> filter opened (cn_log v) = filter opened (cn_log u) \<and>
      filter closes (cn_log v) = filter closes (cn_log u)"
  shows "\<exists>v. conn_weak v \<and> (out = Hung \<and> c = v \<or> out \<noteq> Hung \<and> c = teardown H v)"
proof -
  from handle_with_cases [OF h] obtain st u st' v where
    l: "serve_loop I H dial (conn_init H rx sends) = (st, u)"
    and v: "if st = SRelay then relay u = (st', v) else st' = st \<and> v = u"
    and c: "out = Hung \<and> c = v \<or> out \<noteq> Hung \<and> c = teardown H v"
    by (fastforce split: stop.splits if_splits)
  have "\<exists>c0. conn_ok c0 \<and> serve_turn I H dial c0 = (Some st, u)"
    by (rule serve_loop_last [where P = conn_ok, OF conn_init_ok l]) (use serve_turn_ok(1) in blast)
  then have "conn_weak u" using serve_turn_ok(1) by blast
  then have "conn_weak v" using v r by (auto simp: conn_weak_def split: if_splits)
  with c show ?thesis by blast
qed

lemma relay_keeps_conn:
  "threaded_relay E u = (st, v) \<or> async_relay E u = (st, v) \<Longrightarrow>
     cn_up v = cn_up u \<and> filter opened (cn_log v) = filter opened (cn_log u) \<and>
     filter closes (cn_log v) = filter closes (cn_log u)"
  by (auto simp: threaded_relay_def async_relay_def run_pipe_def splice_def async_splice_def Let_def
      split: option.splits if_splits prod.splits)

lemma closes_counts:
  "filter closes log = [] \<Longrightarrow> count_list log LDisconnect = 0"
  "filter closes log = [] \<Longrightarrow> count_list log LCloseDown = 0"
  "filter closes log = [] \<Longrightarrow> count_list log LCloseUp = 0"
  by (auto simp: count_list_0_iff filter_empty_conv)

text \<open>C24. A handler that is done has run the disconnect hook exactly once (if there is one) and
  closed the client's connection exactly once; it has opened at most one upstream, and closed it
  as many times as it opened one. That holds on every path: refusals, exceptions of hooks, of the
  session and of the relay, failed sends.\<close>

theorem handler_closes_all:
  assumes "threaded_handle I H dial E rx sends = (out, c) \<or> async_handle I H dial E rx sends = (out, c)"
    and "out \<noteq> Hung"
  shows "count_list (cn_log c) LCloseDown = 1 \<and>
    count_list (cn_log c) LDisconnect = (if hk_on_disconnect H = None then 0 else 1) \<and>
    count_list (cn_log c) LCloseUp = length (filter opened (cn_log c)) \<and>
    length (filter opened (cn_log c)) \<le> 1"
proof -
  from assms(1) have "\<exists>v. conn_weak v \<and> (out = Hung \<and> c = v \<or> out \<noteq> Hung \<and> c = teardown H v)"
    unfolding threaded_handle_def async_handle_def
    by (elim disjE) (erule handle_conn, rule relay_keeps_conn, blast)+
  then obtain v where v: "conn_weak v" "c = teardown H v" using assms(2) by blast
  then show ?thesis
    by (auto simp: conn_weak_def teardown_def closes_counts)
qed

theorem handler_closes_all_witness:
  "\<exists>c. threaded_handle text_inet open_hooks demo_dial demo_env demo_rx [] = (Ended, c) \<and>
    count_list (cn_log c) LCloseDown = 1 \<and> count_list (cn_log c) LDisconnect = 1 \<and>
    count_list (cn_log c) LCloseUp = length (filter opened (cn_log c))"
proof -
  have "run_check (\<lambda>_. True) (threaded_handle text_inet open_hooks demo_dial demo_env demo_rx []) = Some Ended"
    by code_simp
  from run_checkE [OF this] obtain c where
    c: "threaded_handle text_inet open_hooks demo_dial demo_env demo_rx [] = (Ended, c)" by blast
  from handler_closes_all [OF disjI1 [OF c]] c show ?thesis by (simp add: open_hooks_def)
qed

section \<open>What escapes a handler\<close>

lemma serve_event_io:
  assumes "serve_event H dial ev c = (q, c')"
  shows "set (cn_rx c') \<subseteq> set (cn_rx c) \<and> set (cn_sends c') \<subseteq> set (cn_sends c)"
  using assms
  by (auto simp: serve_event_def on_authorize_def on_request_def dial_target_def Let_def
      split: event.splits list.splits sum.splits option.splits if_splits)

lemma serve_turn_io:
  assumes "serve_turn I H dial c = (q, c')"
  shows "set (cn_rx c') \<subseteq> set (cn_rx c) \<and> set (cn_sends c') \<subseteq> set (cn_sends c)"
  using assms
proof (cases rule: serve_turn_cases)
  case (event ev s)
  then show ?thesis using serve_event_io [OF event(2)] by simp
qed simp

text \<open>C25. The failures a handler can die of, short of its relay: bytes that are not UTF-8, a reply
  that cannot be built, an exception of the dial that no clause of \<^verbatim>\<open>_dial\<close> catches, or a
  foreign exception of the socket itself. In particular no exception of a hook escapes (hooks raise
  what \<^verbatim>\<open>except Exception\<close> catches), and a
  driver never asks the session for a verdict without having given it a decision (which would be
  its \<^verbatim>\<open>RuntimeError\<close>).\<close>

theorem handler_failures:
  assumes "threaded_handle I H dial E rx sends = (Failed e, c) \<or> async_handle I H dial E rx sends = (Failed e, c)"
    and "\<forall>l \<in> set (cn_log c). \<forall>k. l \<noteq> LRelay k"
  shows "e = UnicodeDecodeErr \<or> unsendable e \<or> dial_raised e c \<or>
    \<not> is_os_error e \<and> (Inl e \<in> set rx \<or> Some e \<in> set sends)"
proof -
  have *: ?thesis
    if h: "handle_with swallows relay I H dial (conn_init H rx sends) = (Failed e, c)"
      and sw: "\<And>x. is_os_error x \<Longrightarrow> swallows x"
      and r: "\<And>u st v. relay u = (st, v) \<Longrightarrow> \<exists>k. LRelay k \<in> set (cn_log v)" for swallows relay
  proof -
    let ?c = "conn_init H rx sends"
    let ?P = "\<lambda>x. conn_ok x \<and> set (cn_rx x) \<subseteq> set rx \<and> set (cn_sends x) \<subseteq> set sends"
    from handle_with_cases [OF h] obtain st u st' v where l: "serve_loop I H dial ?c = (st, u)"
      and v: "if st = SRelay then relay u = (st', v) else st' = st \<and> v = u"
      and s: "st' = SRaise e" "\<not> swallows e" "c = teardown H v"
      by (fastforce split: stop.splits if_splits)
    have log: "set (cn_log v) \<subseteq> set (cn_log c)" using s(3) by (auto simp: teardown_def)
    have "st \<noteq> SRelay" using r [of u st' v] v log assms(2) by (metis (full_types) subsetD)
    then have st: "st = SRaise e" "v = u" using v s(1) by simp_all
    have start: "?P ?c" using conn_init_ok [of H rx sends] by (simp add: conn_init_def)
    have keep: "?P x \<Longrightarrow> serve_turn I H dial x = (None, x') \<Longrightarrow> ?P x'" for x x'
      using serve_turn_ok(1) [of x I H dial None x'] serve_turn_io [of I H dial x None x'] by (simp; blast)
    have "\<exists>c0. ?P c0 \<and> serve_turn I H dial c0 = (Some st, u)"
      by (rule serve_loop_last [where P = ?P, OF start l keep])
    then obtain c0 where c0: "?P c0" "serve_turn I H dial c0 = (Some st, u)" by (elim exE conjE) simp
    have "e = UnicodeDecodeErr \<or> unsendable e \<or> dial_raised e u \<or> io_raised e c0"
      using serve_turn_ok(2) [OF conjunct1 [OF c0(1)] c0(2)] st(1) by simp
    moreover have "io_raised e c0 \<Longrightarrow> Inl e \<in> set rx \<or> Some e \<in> set sends"
      using c0(1) by (auto simp: io_raised_def)
    moreover have "dial_raised e u \<Longrightarrow> dial_raised e c"
      using log st(2) by (auto simp: dial_raised_def)
    ultimately show ?thesis using sw s(2) by blast
  qed
  have r: "threaded_relay E u = (st, v) \<or> async_relay E u = (st, v) \<Longrightarrow> \<exists>k. LRelay k \<in> set (cn_log v)" for u st v
    by (auto simp: threaded_relay_def async_relay_def run_pipe_def splice_def async_splice_def Let_def
        split: option.splits if_splits prod.splits)
  show ?thesis
    using assms(1) * r unfolding threaded_handle_def async_handle_def by blast
qed

theorem handler_failures_witness:
  "\<exists>c. threaded_handle text_inet open_hooks demo_dial demo_env
      [Inr [5, 1, 0], Inr [5, 1, 0, 3, 1, 255, 0, 80]] [] = (Failed UnicodeDecodeErr, c)
    \<and> (UnicodeDecodeErr = UnicodeDecodeErr \<or> unsendable UnicodeDecodeErr \<or> dial_raised UnicodeDecodeErr c)"
proof -
  let ?rx = "[Inr [5, 1, 0], Inr [5, 1, 0, 3, 1, 255, 0, 80]]"
  have "run_check (list_all (\<lambda>l. \<not> relays l))
      (threaded_handle text_inet open_hooks demo_dial demo_env ?rx []) = Some (Failed UnicodeDecodeErr)"
    by code_simp
  from run_checkE [OF this] obtain c where
    c: "threaded_handle text_inet open_hooks demo_dial demo_env ?rx [] = (Failed UnicodeDecodeErr, c)"
      "list_all (\<lambda>l. \<not> relays l) (cn_log c)" by blast
  from handler_failures [OF disjI1 [OF c(1)] no_relays [OF c(2)]] c(1) show ?thesis by auto
qed

section \<open>The relay\<close>

text \<open>What a source yields before it ends or fails.\<close>

fun chunks_of :: "(py_exn + bytes) list \<Rightarrow> bytes" where
  "chunks_of (Inr d # rx) = (if d = [] then [] else d @ chunks_of rx)"
| "chunks_of _ = []"

lemma copy_all:
  assumes "\<forall>x \<in> set sends. x = None"
  shows "snd (copy rx sends) = chunks_of rx"
  using assms
proof (induction rx sends rule: copy.induct)
  case (3 d rx sends)
  show ?case
  proof (cases sends)
    case Nil
    then show ?thesis using 3 by (auto split: prod.splits)
  next
    case (Cons x xs)
    then show ?thesis using 3 by (auto split: prod.splits)
  qed
qed auto

text \<open>A relay copies faithfully: what one direction of the default relay has delivered is always
  a front part of what its source sent, in order and unchanged, and all of it unless a send
  failed.\<close>

theorem copy_faithful:
  shows "\<exists>rest. chunks_of rx = snd (copy rx sends) @ rest \<and> (rest = [] \<or> (\<exists>e. Some e \<in> set sends))"
proof (induction rx sends rule: copy.induct)
  case (3 d rx sends)
  show ?case
  proof (cases "d = [] \<or> (\<exists>e r. sends = Some e # r)")
    case True
    then show ?thesis by auto
  next
    case False
    then have d: "d \<noteq> []" and c: "snd (copy (Inr d # rx) sends) = d @ snd (copy rx (drop 1 sends))"
      by (auto split: list.split option.split prod.split)
    have "\<exists>rest. chunks_of rx = snd (copy rx (drop 1 sends)) @ rest \<and>
        (rest = [] \<or> (\<exists>e. Some e \<in> set (drop 1 sends)))"
      using False by (cases sends) (use 3 d in auto)
    then obtain rest where "chunks_of rx = snd (copy rx (drop 1 sends)) @ rest"
      "rest = [] \<or> (\<exists>e. Some e \<in> set (drop 1 sends))" by blast
    then show ?thesis using d c by (auto dest: in_set_dropD)
  qed
qed auto

section \<open>The two drivers\<close>

text \<open>Sources and sinks whose failures both drivers treat alike.\<close>

definition plain_rx :: "(py_exn + bytes) list \<Rightarrow> bool" where
  "plain_rx rx \<longleftrightarrow> (\<forall>e. Inl e \<in> set rx \<longrightarrow> is_os_error e)"

lemma copy_pump:
  "plain_rx rx \<Longrightarrow> \<forall>x \<in> set sends. x = None \<Longrightarrow> pump rx [] sends = copy rx sends \<and>
     (\<forall>e. fst (copy rx sends) \<noteq> CopyRaised e)"
proof (induction rx sends rule: copy.induct)
  case (2 e rx sends)
  then show ?case by (auto simp: plain_rx_def pump_swallows_def)
next
  case (3 d rx sends)
  have p: "plain_rx rx" using "3.prems"(1) by (auto simp: plain_rx_def)
  show ?case
  proof (cases "d = []")
    case False
    have "pump rx [] (drop 1 sends) = copy rx (drop 1 sends) \<and>
        (\<forall>e. fst (copy rx (drop 1 sends)) \<noteq> CopyRaised e)"
      using "3.prems"(2) by (cases sends) (use "3.IH" p False in auto)
    then show ?thesis using False "3.prems"(2) by (cases sends) (auto split: prod.splits)
  qed simp
qed simp

definition dials_true :: "dialer \<Rightarrow> ('c, 'p) conn \<Rightarrow> bool" where
  "dials_true dial c \<longleftrightarrow> (\<forall>t r. LDial t r \<in> set (cn_log c) \<longrightarrow> r = dial t)"

lemma dials_true_simps [simp]:
  "dials_true dial (cn_decide ds c) = dials_true dial c"
  "dials_true dial (cn_note (LSession a) c) = dials_true dial c"
  "dials_true dial (cn_note (LSent d) c) = dials_true dial c"
  "dials_true dial (cn_note (LDial t (dial t)) c) = dials_true dial c"
  "dials_true dial (c\<lparr>cn_sess := s\<rparr>) = dials_true dial c"
  "dials_true dial (c\<lparr>cn_rx := r\<rparr>) = dials_true dial c"
  "dials_true dial (c\<lparr>cn_sends := w\<rparr>) = dials_true dial c"
  "dials_true dial (c\<lparr>cn_up := u\<rparr>) = dials_true dial c"
  by (auto simp: dials_true_def cn_decide_def)

lemma dial_target_true: "dial_target dial c = (q, c') \<Longrightarrow> dials_true dial c \<Longrightarrow> dials_true dial c'"
proof -
  assume d: "dial_target dial c = (q, c')" and t: "dials_true dial c"
  define c1 where "c1 = cn_note (LDial (sv_target (cn_sess c)) (dial (sv_target (cn_sess c)))) c"
  have "dials_true dial c1" using t by (simp add: c1_def)
  then show "dials_true dial c'"
    using d unfolding dial_target_def Let_def c1_def [symmetric]
    by (auto split: sum.splits option.splits)
qed

theorem copy_faithful_witness:
  "\<exists>rest. chunks_of [Inr [1, 2], Inr [3], Inr []] =
    snd (copy [Inr [1, 2], Inr [3], Inr []] [None, Some (OSErr 32)]) @ rest \<and> rest = [3]"
  using copy_faithful [of "[Inr [1, 2], Inr [3], Inr []]" "[None, Some (OSErr 32)]"] by simp

lemma serve_turn_true:
  assumes "dials_true dial c" "serve_turn I H dial c = (q, c')"
  shows "dials_true dial c'"
  using assms(2)
proof (cases rule: serve_turn_cases)
  case (event ev s)
  then show ?thesis
    using assms(1)
    by (auto simp: serve_event_def on_authorize_def on_request_def Let_def elim: dial_target_true
        split: event.splits list.splits sum.splits option.splits if_splits)
qed (use assms(1) in simp)

text \<open>The exceptions with which the event loop can stop.\<close>

lemma serve_loop_raises:
  assumes l: "serve_loop I H dial (conn_init H rx sends) = (st, u)"
  shows "set (cn_rx u) \<subseteq> set rx" "set (cn_sends u) \<subseteq> set sends"
    and "st = SRaise e \<Longrightarrow> e = UnicodeDecodeErr \<or> unsendable e \<or> (\<exists>t. dial t = Inl e) \<or>
      Inl e \<in> set rx \<or> Some e \<in> set sends"
proof -
  let ?P = "\<lambda>x. conn_ok x \<and> dials_true dial x \<and> set (cn_rx x) \<subseteq> set rx \<and> set (cn_sends x) \<subseteq> set sends"
  have start: "?P (conn_init H rx sends)"
    using conn_init_ok [of H rx sends] by (simp add: conn_init_def dials_true_def)
  have keep: "?P x \<Longrightarrow> serve_turn I H dial x = (None, x') \<Longrightarrow> ?P x'" for x x'
    using serve_turn_ok(1) [of x I H dial None x'] serve_turn_io [of I H dial x None x']
      serve_turn_true [of dial x I H None x'] by (simp; blast)
  have "\<exists>c0. ?P c0 \<and> serve_turn I H dial c0 = (Some st, u)"
    by (rule serve_loop_last [where P = ?P, OF start l keep])
  then obtain c0 where c0: "?P c0" "serve_turn I H dial c0 = (Some st, u)" by (elim exE conjE) simp
  from c0(1) serve_turn_io [OF c0(2)] show "set (cn_rx u) \<subseteq> set rx" "set (cn_sends u) \<subseteq> set sends"
    by blast+
  have "dials_true dial u" using c0 serve_turn_true by blast
  then have "dial_raised e u \<Longrightarrow> \<exists>t. dial t = Inl e" unfolding dials_true_def dial_raised_def by metis
  then show "st = SRaise e \<Longrightarrow> e = UnicodeDecodeErr \<or> unsendable e \<or> (\<exists>t. dial t = Inl e) \<or>
      Inl e \<in> set rx \<or> Some e \<in> set sends"
    using serve_turn_ok(2) [OF conjunct1 [OF c0(1)] c0(2), of e] c0(1) by (auto simp: io_raised_def)
qed

text \<open>C19. The threaded and the asyncio driver do the same: over a client and an upstream whose
  sends succeed and whose reads fail only with \<^verbatim>\<open>OSError\<close>, whose asyncio writers are never found closing, with the same hooks,
  dials and pipes (none of which raises \<^verbatim>\<open>IncompleteReadError\<close>), a run of the asyncio driver that does not end
  in an empty relay is the run of the threaded driver, with the same log and outcome.\<close>

theorem drivers_agree:
  assumes io: "plain_rx rx" "\<forall>x \<in> set sends. x = None" "plain_rx (re_up_rx E)"
      "\<forall>x \<in> set (re_up_sends E). x = None" "re_up_closing E = []" "re_down_closing E = []"
    and env: "\<And>t. dial t \<noteq> Inl IncompleteReadErr" "\<And>f. re_pipe E f \<noteq> Some IncompleteReadErr"
    and a: "async_handle I H dial E rx sends = (out, c)" "LRelay RNothing \<notin> set (cn_log c)"
  shows "threaded_handle I H dial E rx sends = (out, c)"
proof -
  let ?c = "conn_init H rx sends"
  obtain st u where l: "serve_loop I H dial ?c = (st, u)" by (cases "serve_loop I H dial ?c")
  note raises = serve_loop_raises(3) [OF l]
  have plain: "plain_rx (cn_rx u)" "\<forall>x \<in> set (cn_sends u). x = None"
    using serve_loop_raises(1,2) [OF l] io(1,2) by (auto simp: plain_rx_def)
  have st: "st = SRaise e \<Longrightarrow> e \<noteq> IncompleteReadErr" for e
    using raises [of e] io(1,2) env(1) by (auto simp: unsendable_def plain_rx_def)
  show ?thesis
  proof (cases "st = SRelay")
    case False
    then show ?thesis
      using a(1) l st
      by (cases st) (auto simp: threaded_handle_def async_handle_def handle_with_def)
  next
    case True
    obtain st' v where r: "async_relay E u = (st', v)" by (cases "async_relay E u")
    have log: "set (cn_log v) \<subseteq> set (cn_log c)"
      using a(1) l True r
      by (cases st') (auto simp: async_handle_def handle_with_def teardown_def)
    have "threaded_relay E u = (st', v) \<and> (\<forall>e. st' = SRaise e \<longrightarrow> e \<noteq> IncompleteReadErr)"
    proof (cases "sv_custom_pipe (cn_sess u)")
      case (Some f)
      then show ?thesis
        using r env(2) by (auto simp: async_relay_def threaded_relay_def run_pipe_def split: option.splits)
    next
      case None
      then have up: "cn_up u \<noteq> None" using r log a(2) by (auto simp: async_relay_def split: if_splits)
      note cp = copy_pump [OF plain(1) io(4)] copy_pump [OF io(3) plain(2)]
      show ?thesis
        using r None up cp io(5,6)
        by (cases "copy (cn_rx u) (re_up_sends E)"; cases "copy (re_up_rx E) (cn_sends u)")
           (auto simp: async_relay_def threaded_relay_def async_splice_def splice_def gather_end_def
             splice_end_def split: copy_end.splits)
    qed
    then show ?thesis
      using a(1) l True r
      by (cases st') (auto simp: threaded_handle_def async_handle_def handle_with_def)
  qed
qed

theorem drivers_agree_witness:
  "\<exists>c. async_handle text_inet open_hooks demo_dial demo_env demo_rx [] = (Ended, c) \<and>
    threaded_handle text_inet open_hooks demo_dial demo_env demo_rx [] = (Ended, c)"
proof -
  have "run_check (\<lambda>log. LRelay RNothing \<notin> set log)
      (async_handle text_inet open_hooks demo_dial demo_env demo_rx []) = Some Ended"
    by code_simp
  from run_checkE [OF this] obtain c where
    c: "async_handle text_inet open_hooks demo_dial demo_env demo_rx [] = (Ended, c)"
      "LRelay RNothing \<notin> set (cn_log c)" by blast
  have io: "plain_rx demo_rx" "\<forall>x \<in> set ([] :: py_exn option list). x = None" "plain_rx (re_up_rx demo_env)"
    "\<forall>x \<in> set (re_up_sends demo_env). x = None" "re_up_closing demo_env = []" "re_down_closing demo_env = []"
    "demo_dial t \<noteq> Inl IncompleteReadErr" "re_pipe demo_env f \<noteq> Some IncompleteReadErr" for t f
    by (auto simp: plain_rx_def demo_rx_def demo_env_def demo_dial_def)
  from drivers_agree [OF io c] c(1) show ?thesis by blast
qed

end
