(* ===== verification/ServerIntake.thy ===== *)
theory ServerIntake
  imports ServerTrace
begin

text \<open>
  What the server session takes of the bytes it is given: exactly the messages of the client's side
  of the handshake, one after the other. The rest stays in its buffer.
\<close>

fun received :: "('c, 'p) action list \<Rightarrow> bytes list" where
  "received [] = []"
| "received (ARecv d # tr) = d # received tr"
| "received (_ # tr) = received tr"

lemma received_append [simp]: "received (xs @ ys) = received xs @ received ys"
  by (induction xs rule: received.induct) auto

lemma received_decides [simp]: "received (map ADecide ds) = []"
  by (induction ds) auto

text \<open>One whole message, and nothing behind it.\<close>

definition is_greeting :: "bytes \<Rightarrow> bool" where
  "is_greeting g \<longleftrightarrow> parse_greeting g \<noteq> None \<and> greeting_len g = length g"

definition is_login :: "bytes \<Rightarrow> bool" where
  "is_login a \<longleftrightarrow> parse_userpass a \<noteq> None \<and> userpass_len a = length a"

definition is_request :: "bytes \<Rightarrow> bool" where
  "is_request r \<longleftrightarrow> request_len r = Some (length r)"

text \<open>The messages in front of a request, and all of a handshake.\<close>

definition prelude_ok :: "bool \<Rightarrow> bytes \<Rightarrow> bool" where
  "prelude_ok ra m \<longleftrightarrow> (\<exists>g a. m = g @ a \<and> is_greeting g \<and> (if ra then is_login a else a = []))"

definition client_side :: "bool \<Rightarrow> bytes \<Rightarrow> bool" where
  "client_side ra hs \<longleftrightarrow> (\<exists>m r. hs = m @ r \<and> prelude_ok ra m \<and> is_request r)"

fun taken :: "bool \<Rightarrow> sv_phase \<Rightarrow> bytes \<Rightarrow> bool" where
  "taken ra PGreeting hs \<longleftrightarrow> hs = []"
| "taken ra PAuth hs \<longleftrightarrow> ra \<and> is_greeting hs"
| "taken ra PAuthWait hs \<longleftrightarrow> prelude_ok ra hs"
| "taken ra PRequest hs \<longleftrightarrow> prelude_ok ra hs"
| "taken ra PConnectWait hs \<longleftrightarrow> client_side ra hs"
| "taken ra PRelay hs \<longleftrightarrow> client_side ra hs"
| "taken ra PClosed hs \<longleftrightarrow> True"

lemma front_message:
  "parse_greeting xs = Some m \<Longrightarrow> is_greeting (take (greeting_len xs) xs)"
  "parse_userpass xs = Some v \<Longrightarrow> is_login (take (userpass_len xs) xs)"
  "message_len xs = Some n \<Longrightarrow> n \<le> length xs \<Longrightarrow> is_request (take n xs)"
proof -
  assume p: "parse_greeting xs = Some m"
  show "is_greeting (take (greeting_len xs) xs)"
    using greeting_parser.used_exact [OF p] greeting_parser.used_bound [OF p]
      greeting_parser.used_extends [OF greeting_parser.used_exact [OF p], of "drop (greeting_len xs) xs"]
    by (simp add: is_greeting_def min_absorb2)
next
  assume p: "parse_userpass xs = Some v"
  show "is_login (take (userpass_len xs) xs)"
    using userpass_parser.used_exact [OF p] userpass_parser.used_bound [OF p]
      userpass_parser.used_extends [OF userpass_parser.used_exact [OF p], of "drop (userpass_len xs) xs"]
    by (simp add: is_login_def min_absorb2)
next
  assume p: "message_len xs = Some n" "n \<le> length xs"
  show "is_request (take n xs)"
    using message_len_take [OF p(1) order_refl] p(2) by (simp add: is_request_def request_len_len min_absorb2)
qed

lemma step_takes:
  assumes o': "sv_out s = []" and st: "server_step I s = (r, s')" and t: "taken (sv_require_auth s) (sv_state s) hs"
  shows "\<exists>m. sv_buf s = m @ sv_buf s' \<and> taken (sv_require_auth s) (sv_state s') (hs @ m)"
proof (cases "sv_state s")
  case PGreeting
  then have "step_greeting s = (r, s')" using st by (simp add: server_step_def)
  then show ?thesis
  proof (cases rule: step_greeting_cases [OF o', consumes 1, case_names wait version no_auth userpass none])
    case (no_auth m)
    then show ?thesis
      using front_message(1) [OF no_auth(1)] t PGreeting
      by (intro exI [of _ "take (greeting_len (sv_buf s)) (sv_buf s)"]) (simp add: prelude_ok_def)
  next
    case (userpass m)
    then show ?thesis
      using front_message(1) [OF userpass(1)] t PGreeting
      by (intro exI [of _ "take (greeting_len (sv_buf s)) (sv_buf s)"]) simp
  next
    case (none m)
    then show ?thesis by (intro exI [of _ "take (greeting_len (sv_buf s)) (sv_buf s)"]) simp
  qed (use t PGreeting in auto)
next
  case PAuth
  then have "step_auth s = (r, s')" using st by (simp add: server_step_def)
  then show ?thesis
  proof (cases rule: step_auth_cases [OF o', consumes 1, case_names wait large undecodable authorize])
    case (authorize u p)
    then obtain v where "parse_userpass (sv_buf s) = Some v" using py_parse_userpass_Some by blast
    with authorize show ?thesis
      using front_message(2) [of "sv_buf s" v] t PAuth
      by (intro exI [of _ "take (userpass_len (sv_buf s)) (sv_buf s)"]) (auto simp: prelude_ok_def)
  qed (use t PAuth in auto)
next
  case PAuthWait
  then show ?thesis using st t by (auto simp: server_step_def step_auth_wait_cases [OF o'] split: if_splits)
next
  case PRequest
  then have "step_request I s = (r, s')" using st by (simp add: server_step_def)
  then show ?thesis
  proof (cases rule: step_request_cases [OF o', consumes 1, case_names wait undecodable atyp malformed command connect])
    case (command n c h p w)
    then show ?thesis by (intro exI [of _ "take n (sv_buf s)"]) simp
  next
    case (connect n h p)
    then show ?thesis
      using front_message(3) [OF connect(1,2)] t PRequest
      by (intro exI [of _ "take n (sv_buf s)"]) (auto simp: client_side_def)
  qed (use t PRequest in auto)
next
  case PConnectWait
  then have "step_connect_wait I s = (r, s')" using st by (simp add: server_step_def)
  then show ?thesis
    by (cases rule: step_connect_wait_cases [OF o', consumes 1]) (use t PConnectWait in auto)
qed (use st t in \<open>auto simp: server_step_def\<close>)

lemma next_event_takes:
  assumes "next_event I s = (r, s')" "taken (sv_require_auth s) (sv_state s) hs"
  shows "\<exists>m. sv_buf s = m @ sv_buf s' \<and> taken (sv_require_auth s) (sv_state s') (hs @ m)"
  using assms step_takes [of s I r s' hs] by (auto simp: next_event_def split: list.splits)

lemma next_event_require_auth: "next_event I s = (r, s') \<Longrightarrow> sv_require_auth s' = sv_require_auth s"
  using server_step_require_auth [of I s r s'] by (auto simp: next_event_def split: list.splits)

lemma trace_takes:
  "sv_trace I ra tr s \<Longrightarrow>
     sv_require_auth s = ra \<and> (\<exists>hs. concat (received tr) = hs @ sv_buf s \<and> taken ra (sv_state s) hs)"
proof (induction rule: sv_trace.induct)
  case trace_start
  then show ?case by (simp add: server_init_def)
next
  case (trace_act tr s a s')
  then obtain hs where hs: "concat (received tr) = hs @ sv_buf s" "taken (sv_require_auth s) (sv_state s) hs"
    "sv_require_auth s = ra" by blast
  have *: ?case if n: "next_event I s = (r, s')" and e: "received [a] = []" for r
    using next_event_takes [OF n hs(2)] next_event_require_auth [OF n] hs e by auto
  show ?case
    using trace_act.hyps(2) hs * by (cases a) auto
qed

end
