(* ===== verification/DriverContract.thy ===== *)
theory DriverContract
  imports DriverLog ServerDriverProps ServerIntake
begin

text \<open>
  What the two drivers owe the session and the client, over whole runs: every event of the session
  is answered, nothing is sent, decided, dialled or relayed unasked, and the session is given the
  client's chunks in order.
\<close>

section \<open>The loop\<close>

text \<open>An event the driver goes on from, and the last one of a loop that stops.\<close>

definition going ::
  "('c, 'p) server_hooks \<Rightarrow> dialer \<Rightarrow> ('c, 'p) server_session \<Rightarrow> event \<Rightarrow> ('c, 'p) log_entry list \<Rightarrow> bool" where
  "going H dial s ev ys \<longleftrightarrow> heeded H dial s ev ys \<and> (\<forall>h p. ev \<noteq> Relay h p) \<and> (\<forall>r. ev \<noteq> Close r)"

definition stopping ::
  "py_exn option list \<Rightarrow> ('c, 'p) server_hooks \<Rightarrow> dialer \<Rightarrow> stop \<Rightarrow> ('c, 'p) conn \<Rightarrow> ('c, 'p) server_session \<Rightarrow>
     event \<Rightarrow> ('c, 'p) log_entry list \<Rightarrow> bool" where
  "stopping sends H dial st u s ev ys \<longleftrightarrow>
     answered sends H dial s ev ys \<and> (\<forall>h p. ev \<noteq> Relay h p) \<or>
     st = SRelay \<and> ys = [] \<and> s = cn_sess u \<and> (\<exists>h p. ev = Relay h p) \<and>
       (\<exists>pre. cn_log u = pre @ [LSession (AEvent ev)])"

definition upheld :: "inet_api \<Rightarrow> bool \<Rightarrow> ('c, 'p) server_hooks \<Rightarrow> dialer \<Rightarrow> ('c, 'p) conn \<Rightarrow> bool" where
  "upheld I ra H dial c \<longleftrightarrow>
     cn_traced I ra c \<and> all_answered I ra (going H dial) (cn_log c) \<and> justified_from I ra dial [] (cn_log c)"

lemma going_extend: "going H dial s ev ys \<Longrightarrow> \<not> is_decision l \<Longrightarrow> going H dial s ev (ys @ l # zs)"
  by (simp add: going_def heeded_extend)

lemma going_stopping: "going H dial s ev ys \<Longrightarrow> stopping sends H dial st u s ev ys"
  by (simp add: going_def stopping_def answered_def)

lemma serve_turn_entries:
  assumes u: "upheld I ra H dial c" and t: "serve_turn I H dial c = (q, c')"
    and sends: "set (cn_sends c) \<subseteq> set sends"
    and A: "A = (case q of None \<Rightarrow> going H dial | Some st \<Rightarrow> stopping sends H dial st c')"
  shows "cn_traced I ra c' \<and> all_answered I ra A (cn_log c') \<and> justified_from I ra dial [] (cn_log c')"
  using t
proof (cases rule: serve_turn_cases)
  case (raise e s)
  have "all_answered I ra A (cn_log c @ [LSession (ARaise e)])"
    by (rule all_answered_grow [where A = "going H dial"])
      (use u raise(2) in \<open>auto simp: upheld_def A intro!: going_stopping going_extend\<close>)
  then show ?thesis
    using u raise serve_turn_traced [OF _ t] by (simp add: upheld_def)
next
  case (event ev s)
  let ?c = "cn_note (LSession (AEvent ev)) (c\<lparr>cn_sess := s\<rparr>)"
  have tr: "cn_traced I ra c" using u by (simp add: upheld_def)
  have c: "cn_traced I ra ?c" using traced_act [OF tr, of "AEvent ev" s] event(1) by simp
  from serve_event_entries [OF event(2)] obtain rest where
    rest: "cn_log c' = cn_log ?c @ rest" "filter is_event rest = []" "turn_answered q ?c H dial s ev rest"
    by auto
  have new: "A s ev rest"
    using rest(3) sends event(2) rest(1)
    by (cases q) (auto simp: A turn_answered_def going_def stopping_def answered_def serve_event_def split: stop.splits)
  have "all_answered I ra A (cn_log c @ LSession (AEvent ev) # rest)"
  proof (rule all_answered_grow [where A = "going H dial"])
    show "all_answered I ra (going H dial) (cn_log c)" using u by (simp add: upheld_def)
    show "A t ev' (ys @ LSession (AEvent ev) # rest)" if "going H dial t ev' ys" for t ev' ys
      using going_extend [OF that] by (auto simp: A going_stopping split: option.split)
    show "\<exists>t. sv_trace I ra (session_log (cn_log c) @ [AEvent ev']) t \<and> A t ev' rest"
      if "LSession (AEvent ev) = LSession (AEvent ev')" for ev'
      using that new c by (auto simp: cn_traced_def)
  qed (rule rest(2))
  moreover have "justified_from I ra dial (cn_log ?c) rest"
    by (rule serve_event_justified [OF _ c event(2) rest(1)]) simp
  ultimately show ?thesis
    using u rest(1) serve_turn_traced [OF tr t] by (simp add: upheld_def)
qed

lemma serve_loop_entries:
  assumes l: "serve_loop I H dial (conn_init H rx sends) = (st, u)"
  defines "ra \<equiv> hk_authorize H \<noteq> None"
  shows "cn_traced I ra u \<and> all_answered I ra (stopping sends H dial st u) (cn_log u) \<and>
    justified_from I ra dial [] (cn_log u)"
proof -
  let ?P = "\<lambda>c. upheld I ra H dial c \<and> set (cn_sends c) \<subseteq> set sends"
  have start: "?P (conn_init H rx sends)"
    using conn_init_traced [of I H rx sends]
    by (simp add: upheld_def ra_def all_answered_def) (simp add: conn_init_def)
  have keep: "?P c \<Longrightarrow> serve_turn I H dial c = (None, c') \<Longrightarrow> ?P c'" for c c'
    using serve_turn_entries [of I ra H dial c None c' sends "going H dial"] serve_turn_io [of I H dial c None c']
    unfolding upheld_def by (simp; blast)
  have "\<exists>c0. ?P c0 \<and> serve_turn I H dial c0 = (Some st, u)"
    by (rule serve_loop_last [where P = ?P, OF start l keep])
  then obtain c0 where c0: "upheld I ra H dial c0" "serve_turn I H dial c0 = (Some st, u)"
    "set (cn_sends c0) \<subseteq> set sends" by (elim exE conjE) simp
  show ?thesis by (rule serve_turn_entries [OF c0]) simp
qed

section \<open>The chunks of the client\<close>

definition tapped :: "(py_exn + bytes) list \<Rightarrow> ('c, 'p) conn \<Rightarrow> bool" where
  "tapped rx c \<longleftrightarrow> rx = map Inr (received (session_log (cn_log c))) @ cn_rx c"

lemma serve_event_reads:
  assumes "serve_event H dial ev c = (q, c')"
  shows "(\<exists>got. received (session_log (cn_log c')) = received (session_log (cn_log c)) @ got \<and>
      (if q = None \<or> q = Some SRelay then cn_rx c = map Inr got @ cn_rx c' else got = []))"
proof (cases ev)
  case (Connect cmd host port)
  then have r: "on_request H dial host port c = (q, c')" using assms by (simp add: serve_event_def)
  have "cn_rx c' = cn_rx c"
    using r by (auto simp: on_request_def dial_target_def Let_def split: option.splits sum.splits if_splits)
  then show ?thesis using on_request_entries(1) [OF r] by auto
next
  case (Authorize u p)
  have "cn_rx (on_authorize H u p c) = cn_rx c" by (simp add: on_authorize_def split: option.split)
  then show ?thesis using assms Authorize by (auto simp: serve_event_def on_authorize_entries)
qed (use assms in \<open>auto simp: serve_event_def split: list.splits sum.splits option.splits if_splits\<close>)

text \<open>What a handler tells the session without a \<^verbatim>\<open>NeedData\<close> are decisions.\<close>

lemma serve_event_decides:
  fixes c :: "('c, 'p) conn"
  assumes "serve_event H dial ev c = (q, c')" "ev \<noteq> NeedData"
  shows "\<exists>ds. session_log (cn_log c') = session_log (cn_log c) @ map ADecide ds"
proof (cases ev)
  case (Connect cmd host port)
  then have r: "on_request H dial host port c = (q, c')" using assms by (simp add: serve_event_def)
  define ds where "ds = request_answer H (cn_sess c) host port"
  define es :: "('c, 'p) decision list" where "es = (if sv_rejected (fold decide ds (cn_sess c)) then []
    else if sv_intercept (fold decide ds (cn_sess c)) then [DConnected host port]
    else dial_answer (dial (sv_target (fold decide ds (cn_sess c)))))"
  have "session_log (cn_log c') = session_log (cn_log c) @ map ADecide (ds @ es)"
    using on_request_entries(1) [OF r] by (simp add: ds_def es_def)
  then show ?thesis by blast
next
  case (Authorize u p)
  then have "session_log (cn_log c') = session_log (cn_log c) @ map ADecide (login_answer H (cn_sess c) u p)"
    using assms(1) on_authorize_entries [of H u p c] by (auto simp: serve_event_def)
  then show ?thesis by blast
next
  case (Send d)
  then have "session_log (cn_log c') = session_log (cn_log c) @ map ADecide []"
    using assms(1) by (auto simp: serve_event_def split: list.splits option.splits)
  then show ?thesis by blast
qed (use assms in \<open>auto simp: serve_event_def intro: exI [of _ "[]"]\<close>)

text \<open>A client that is waited for when the run ends has no chunk to come: it is silent, has closed or failed.\<close>

definition at_end :: "(py_exn + bytes) list \<Rightarrow> ('c, 'p) action list \<Rightarrow> bool" where
  "at_end rest tr \<longleftrightarrow> (\<exists>pre. tr = pre @ [AEvent NeedData]) \<longrightarrow> (\<forall>d zs. rest = Inr d # zs \<longrightarrow> d = [])"

lemma not_at_wait: "ev \<noteq> NeedData \<Longrightarrow> at_end rest (tr @ AEvent ev # map ADecide ds)"
  by (cases ds rule: rev_cases) (auto simp: at_end_def)

lemma serve_turn_tapped:
  assumes "tapped rx c" "serve_turn I H dial c = (q, c')"
  shows "(q = None \<or> q = Some SRelay \<longrightarrow> tapped rx c') \<and>
    (q \<noteq> None \<longrightarrow> (\<exists>rest. rx = map Inr (received (session_log (cn_log c'))) @ rest \<and>
      at_end rest (session_log (cn_log c'))))"
  using assms(2)
proof (cases rule: serve_turn_cases)
  case (raise e s)
  then show ?thesis using assms(1) by (auto simp: tapped_def at_end_def)
next
  case (event ev s)
  let ?c = "cn_note (LSession (AEvent ev)) (c\<lparr>cn_sess := s\<rparr>)"
  from serve_event_reads [OF event(2)] obtain got where
    g: "received (session_log (cn_log c')) = received (session_log (cn_log ?c)) @ got"
      "if q = None \<or> q = Some SRelay then cn_rx ?c = map Inr got @ cn_rx c' else got = []"
    by blast
  then have got: "received (session_log (cn_log c')) = received (session_log (cn_log c)) @ got"
      "if q = None \<or> q = Some SRelay then cn_rx c = map Inr got @ cn_rx c' else got = []"
    by (simp, auto split: if_splits)
  have "\<exists>rest. rx = map Inr (received (session_log (cn_log c'))) @ rest \<and> at_end rest (session_log (cn_log c'))"
    if q: "q \<noteq> None"
  proof (cases "ev = NeedData")
    case True
    then have "got = []" "\<forall>d zs. cn_rx c = Inr d # zs \<longrightarrow> d = []"
      using event(2) q got by (auto simp: serve_event_def split: list.splits sum.splits if_splits)
    then show ?thesis using assms(1) got(1) by (auto simp: tapped_def at_end_def)
  next
    case False
    from serve_event_decides [OF event(2) False] obtain ds where
      "session_log (cn_log c') = session_log (cn_log c) @ AEvent ev # map ADecide ds" by auto
    then show ?thesis using assms(1) got not_at_wait [OF False] by (auto simp: tapped_def split: if_splits)
  qed
  moreover have "q = None \<or> q = Some SRelay \<Longrightarrow> tapped rx c'"
    using assms(1) got by (auto simp: tapped_def)
  ultimately show ?thesis by blast
qed

lemma serve_loop_tapped:
  assumes l: "serve_loop I H dial (conn_init H rx sends) = (st, u)"
  shows "(st = SRelay \<longrightarrow> tapped rx u) \<and>
    (\<exists>rest. rx = map Inr (received (session_log (cn_log u))) @ rest \<and> at_end rest (session_log (cn_log u)))"
proof -
  have start: "tapped rx (conn_init H rx sends)" by (simp add: tapped_def conn_init_def)
  have "\<exists>c0. tapped rx c0 \<and> serve_turn I H dial c0 = (Some st, u)"
    by (rule serve_loop_last [where P = "tapped rx", OF start l]) (use serve_turn_tapped in blast)
  then show ?thesis using serve_turn_tapped by blast
qed

section \<open>How a run can be over\<close>

fun last_words :: "py_exn option list \<Rightarrow> ('c, 'p) action \<Rightarrow> bool" where
  "last_words sends (AEvent NeedData) = True"
| "last_words sends (AEvent (Send d)) = (\<exists>e. Some e \<in> set sends)"
| "last_words sends (AEvent (Relay host port)) = True"
| "last_words sends (AEvent (Close why)) = True"
| "last_words sends (ARaise e) = True"
| "last_words sends _ = False"

definition run_over :: "py_exn option list \<Rightarrow> ('c, 'p) log_entry list \<Rightarrow> bool" where
  "run_over sends log \<longleftrightarrow>
     (\<exists>tr a. session_log log = tr @ [a] \<and> last_words sends a) \<or>
     (\<exists>t e. LDial t (Inl e) \<in> set log \<and> dial_rep e = None)"

lemma on_request_raises:
  "on_request H dial host port c = (Some st, c') \<Longrightarrow> \<exists>t e. LDial t (Inl e) \<in> set (cn_log c') \<and> dial_rep e = None"
  by (auto simp: on_request_def dial_target_def Let_def split: option.splits sum.splits if_splits) blast+

lemma serve_turn_over:
  assumes "serve_turn I H dial c = (Some st, c')" "set (cn_sends c) \<subseteq> set sends"
  shows "run_over sends (cn_log c')"
  using assms(1)
proof (cases rule: serve_turn_cases)
  case (event ev s)
  then show ?thesis
    using assms(2)
    by (cases ev) (auto simp: serve_event_def run_over_def dest: on_request_raises
        split: list.splits sum.splits option.splits if_splits)
qed (auto simp: run_over_def)

lemma serve_loop_over:
  assumes l: "serve_loop I H dial (conn_init H rx sends) = (st, u)"
  shows "run_over sends (cn_log u)"
proof -
  let ?P = "\<lambda>c. set (cn_sends c) \<subseteq> set sends"
  have "\<exists>c0. ?P c0 \<and> serve_turn I H dial c0 = (Some st, u)"
    by (rule serve_loop_last [where P = ?P, OF _ l])
      (simp add: conn_init_def, use serve_turn_io in blast)
  then show ?thesis using serve_turn_over by blast
qed

section \<open>The whole run\<close>

lemma relay_entries:
  assumes "threaded_relay E u = (st, v) \<or> async_relay E u = (st, v)"
  shows "\<exists>k rest. cn_log v = cn_log u @ LRelay k # rest \<and> cn_sess v = cn_sess u \<and>
    (case sv_custom_pipe (cn_sess u) of Some f \<Rightarrow> k = RPipe f | None \<Rightarrow> k = RSplice \<or> k = RNothing) \<and>
    (rest = [] \<or> k = RSplice \<and> (\<exists>up down. rest = [LSpliced up down]))"
  using assms
  by (auto simp: threaded_relay_def async_relay_def run_pipe_def splice_def async_splice_def Let_def
      split: option.splits if_splits prod.splits)

fun closing :: "('c, 'p) log_entry \<Rightarrow> bool" where
  "closing LDisconnect = True"
| "closing LCloseDown = True"
| "closing LCloseUp = True"
| "closing _ = False"

lemma teardown_entries:
  "\<exists>cs. cn_log (teardown H c) = cn_log c @ cs \<and> list_all closing cs \<and> cn_sess (teardown H c) = cn_sess c"
  by (simp add: teardown_def)

fun quiet :: "('c, 'p) log_entry \<Rightarrow> bool" where
  "quiet (LSession a) = False"
| "quiet (LSent d) = False"
| "quiet _ = True"

lemma quiet_tail:
  assumes "list_all quiet ys"
  shows "session_log ys = []" "\<forall>d. LSent d \<notin> set ys" "filter is_event ys = []"
    "\<And>l zs. ys = l # zs \<Longrightarrow> \<not> is_decision l"
proof -
  show "session_log ys = []" using assms by (induction ys rule: session_log.induct) auto
  show "\<forall>d. LSent d \<notin> set ys" using assms by (auto simp: list_all_iff)
  show "filter is_event ys = []" using assms by (auto simp: list_all_iff filter_empty_conv elim!: is_event.elims)
  show "ys = l # zs \<Longrightarrow> \<not> is_decision l" for l zs using assms by (auto elim!: is_decision.elims)
qed

lemma closing_quiet: "list_all closing cs \<Longrightarrow> list_all quiet cs"
  by (auto simp: list_all_iff elim!: closing.elims)

lemma answered_tail:
  assumes "answered sends H dial s ev ys" "\<And>h p. ev \<noteq> Relay h p" "list_all quiet tail"
  shows "answered sends H dial s ev (ys @ tail)"
proof (cases tail)
  case (Cons l zs)
  show ?thesis
    using assms(1,2) quiet_tail [OF assms(3)] heeded_extend [of H dial s ev ys l zs] Cons
    by (cases ev) (auto simp: answered_def)
qed (use assms(1) in simp)

lemma all_answered_tail:
  assumes "all_answered I ra A log" "list_all quiet tail" "\<And>s ev ys. A s ev ys \<Longrightarrow> B s ev (ys @ tail)"
  shows "all_answered I ra B (log @ tail)"
proof (cases tail)
  case Nil
  then have "A t ev ys \<Longrightarrow> B t ev ys" for t ev ys using assms(3) by simp
  then show ?thesis using assms(1) Nil unfolding all_answered_def by (simp; blast)
next
  case (Cons l zs)
  show ?thesis
    unfolding Cons
    by (rule all_answered_grow [OF assms(1)]) (use assms(2,3) Cons quiet_tail [OF assms(2)] quiet_tail(3) [of zs] in auto)
qed

lemma justified_closing: "list_all closing cs \<Longrightarrow> justified_from I ra dial xs cs"
proof (induction cs arbitrary: xs)
  case (Cons l cs)
  then show ?case by (cases l) auto
qed simp

lemma serve_loop_relay:
  assumes l: "serve_loop I H dial c = (SRelay, u)"
  shows "\<exists>pre h p. cn_log u = pre @ [LSession (AEvent (Relay h p))]"
proof -
  have "\<exists>c0. True \<and> serve_turn I H dial c0 = (Some SRelay, u)"
    by (rule serve_loop_last [where P = "\<lambda>_. True", OF TrueI l]) simp
  then obtain c0 where "serve_turn I H dial c0 = (Some SRelay, u)" by blast
  then show ?thesis
  proof (cases rule: serve_turn_cases)
    case (event ev s)
    then have "\<exists>h p. ev = Relay h p" "cn_log u = cn_log c0 @ [LSession (AEvent ev)]"
      using serve_event_entries [OF event(2)] by (auto simp: turn_answered_def)
    then show ?thesis by blast
  qed simp
qed

text \<open>What the relay adds to the log.\<close>

lemma relay_contract:
  assumes l: "serve_loop I H dial c = (SRelay, u)"
    and r: "threaded_relay E u = (st, v) \<or> async_relay E u = (st, v)"
  shows "\<exists>rs. cn_log v = cn_log u @ rs \<and> cn_sess v = cn_sess u \<and> list_all quiet rs \<and>
    justified_from I ra dial (cn_log u) rs \<and>
    (\<forall>s ev ys cs. list_all quiet cs \<longrightarrow> stopping sends H dial SRelay u s ev ys \<longrightarrow>
       answered sends H dial s ev (ys @ rs @ cs))"
proof -
  from relay_entries [OF r] obtain k rest where e: "cn_log v = cn_log u @ LRelay k # rest" "cn_sess v = cn_sess u"
    "case sv_custom_pipe (cn_sess u) of Some f \<Rightarrow> k = RPipe f | None \<Rightarrow> k = RSplice \<or> k = RNothing"
    "rest = [] \<or> k = RSplice \<and> (\<exists>up down. rest = [LSpliced up down])" by blast
  have q: "list_all quiet (LRelay k # rest)" using e(4) by auto
  have "justified_from I ra dial (cn_log u) (LRelay k # rest)"
    using serve_loop_relay [OF l] e(4) by auto
  moreover have "answered sends H dial s ev (ys @ (LRelay k # rest) @ cs)"
    if "list_all quiet cs" "stopping sends H dial SRelay u s ev ys" for s ev ys cs
    using that q answered_tail [of sends H dial s ev ys "(LRelay k # rest) @ cs"] e(3)
    by (auto simp: stopping_def) (simp add: answered_def)
  ultimately show ?thesis using e(1,2) q by blast
qed

lemma handle_contract:
  assumes h: "handle_with swallows relay I H dial (conn_init H rx sends) = (out, c)"
    and r: "\<And>u st v. relay u = (st, v) \<Longrightarrow> threaded_relay E u = (st, v) \<or> async_relay E u = (st, v)"
  defines "ra \<equiv> hk_authorize H \<noteq> None"
  shows "sv_trace I ra (session_log (cn_log c)) (cn_sess c)"
    and "\<exists>rest. rx = map Inr (received (session_log (cn_log c))) @ rest \<and> at_end rest (session_log (cn_log c))"
    and "run_over sends (cn_log c)"
    and "all_answered I ra (answered sends H dial) (cn_log c)" "justified_from I ra dial [] (cn_log c)"
proof -
  from handle_with_cases [OF h] obtain st u st' v where
    l: "serve_loop I H dial (conn_init H rx sends) = (st, u)"
    and v: "if st = SRelay then relay u = (st', v) else st' = st \<and> v = u"
    and c: "c = v \<or> c = teardown H v" by (fastforce split: stop.splits)
  obtain cs where cs: "cn_log c = cn_log v @ cs" "list_all closing cs" "cn_sess c = cn_sess v"
    using c teardown_entries [of H v] by (metis append_Nil2 list.pred_inject(1))
  note u = serve_loop_entries [OF l, folded ra_def]
  have "\<exists>rs. cn_log v = cn_log u @ rs \<and> cn_sess v = cn_sess u \<and> list_all quiet rs \<and>
      justified_from I ra dial (cn_log u) rs \<and>
      (\<forall>s ev ys cs. list_all quiet cs \<longrightarrow> stopping sends H dial st u s ev ys \<longrightarrow>
         answered sends H dial s ev (ys @ rs @ cs))"
  proof (cases "st = SRelay")
    case True
    then have "threaded_relay E u = (st', v) \<or> async_relay E u = (st', v)" using v r by simp
    from relay_contract [OF l [unfolded True] this] True show ?thesis by simp
  next
    case False
    then show ?thesis using v by (auto simp: stopping_def intro: answered_tail)
  qed
  then obtain rs where rs: "cn_log v = cn_log u @ rs" "cn_sess v = cn_sess u" "list_all quiet rs"
    "justified_from I ra dial (cn_log u) rs"
    "\<And>s ev ys cs. list_all quiet cs \<Longrightarrow> stopping sends H dial st u s ev ys \<Longrightarrow>
       answered sends H dial s ev (ys @ rs @ cs)" by blast
  have q: "list_all quiet (rs @ cs)" using rs(3) closing_quiet [OF cs(2)] by simp
  have log: "cn_log c = cn_log u @ rs @ cs" "session_log (cn_log c) = session_log (cn_log u)" "cn_sess c = cn_sess u"
    using cs rs quiet_tail(1) [OF q] by simp_all
  show "sv_trace I ra (session_log (cn_log c)) (cn_sess c)" using u log by (simp add: cn_traced_def)
  show "\<exists>rest. rx = map Inr (received (session_log (cn_log c))) @ rest \<and> at_end rest (session_log (cn_log c))"
    using serve_loop_tapped [OF l] log(2) by simp
  show "run_over sends (cn_log c)"
    using serve_loop_over [OF l] log by (auto simp: run_over_def)
  show "all_answered I ra (answered sends H dial) (cn_log c)"
    unfolding log(1) by (rule all_answered_tail [where A = "stopping sends H dial st u", OF _ q]) (use u rs(5) [OF closing_quiet [OF cs(2)]] in auto)
  show "justified_from I ra dial [] (cn_log c)"
    using u rs(4) justified_closing [OF cs(2)] log(1) by simp
qed

lemma run_contract:
  assumes "threaded_handle I H dial E rx sends = (out, c) \<or> async_handle I H dial E rx sends = (out, c)"
  defines "ra \<equiv> hk_authorize H \<noteq> None"
  shows "sv_trace I ra (session_log (cn_log c)) (cn_sess c)"
    and "\<exists>rest. rx = map Inr (received (session_log (cn_log c))) @ rest \<and> at_end rest (session_log (cn_log c))"
    and "run_over sends (cn_log c)"
    and "all_answered I ra (answered sends H dial) (cn_log c)" "justified_from I ra dial [] (cn_log c)"
proof -
  obtain swallows relay where h: "handle_with swallows relay I H dial (conn_init H rx sends) = (out, c)"
    and r: "\<And>u st v. relay u = (st, v) \<Longrightarrow> threaded_relay E u = (st, v) \<or> async_relay E u = (st, v)"
    using assms(1) unfolding threaded_handle_def async_handle_def by blast
  note k = handle_contract [where E = E, OF h r, folded ra_def]
  show "sv_trace I ra (session_log (cn_log c)) (cn_sess c)" by (rule k(1))
  show "\<exists>rest. rx = map Inr (received (session_log (cn_log c))) @ rest \<and> at_end rest (session_log (cn_log c))"
    by (rule k(2))
  show "run_over sends (cn_log c)" by (rule k(3))
  show "all_answered I ra (answered sends H dial) (cn_log c)" by (rule k(4))
  show "justified_from I ra dial [] (cn_log c)" by (rule k(5))
qed

text \<open>C7. Both drivers do for the session what it asks for, and nothing else. In every run, whatever
  the client sends, the hooks decide, the dial gives and the relay does:
  the session's receives, decisions, events and exceptions are a trace of a fresh session whose
  policy is the presence of the authorize hook;
  it was given the chunks of the client in order and from the first, and a run that is over while it
  waits has no chunk left;
  a run is over only at a \<open>Close\<close>, a \<open>Relay\<close>, an exception, a failed send, the end of the client,
  or an exception of the dial that no clause of \<^verbatim>\<open>_dial\<close> catches;
  behind each event stands what it asks for: the bytes of a \<open>Send\<close> are sent (or a send failed and
  the run is over); an \<open>Authorize\<close> is followed by exactly the decisions of the hook, with a rejection
  if it raised; a \<open>Connect\<close> by those of its hook, and then, if these leave the session neither
  rejected nor intercepted, by the dial of the session's target and its outcome; a \<open>Relay\<close> by the
  session's pipe or the default relay; behind a \<open>Close\<close> nothing is sent;
  and nothing is sent, decided, dialled or relayed without the event that asks for it, nor dialled
  for a session that is rejected or intercepted.\<close>

theorem drivers_run_traces:
  assumes "threaded_handle I H dial E rx sends = (out, c) \<or> async_handle I H dial E rx sends = (out, c)"
  shows "sv_trace I (hk_authorize H \<noteq> None) (session_log (cn_log c)) (cn_sess c) \<and>
    (\<exists>rest. rx = map Inr (received (session_log (cn_log c))) @ rest \<and> at_end rest (session_log (cn_log c))) \<and>
    run_over sends (cn_log c) \<and>
    (\<forall>xs ev ys. cn_log c = xs @ LSession (AEvent ev) # ys \<longrightarrow>
       (\<exists>s. sv_trace I (hk_authorize H \<noteq> None) (session_log xs @ [AEvent ev]) s \<and>
          answered sends H dial s ev ys)) \<and>
    (\<forall>xs l ys. cn_log c = xs @ l # ys \<longrightarrow> justified I (hk_authorize H \<noteq> None) dial xs l)"
  using run_contract [OF assms] justified_at unfolding all_answered_def by blast

text \<open>An accepted run of the asyncio driver; the entry behind the \<open>Connect\<close> is the dial.\<close>

theorem drivers_run_traces_witness:
  "\<exists>c. async_handle text_inet open_hooks demo_dial demo_env demo_rx [] = (Ended, c) \<and>
    sv_trace text_inet False (session_log (cn_log c)) (cn_sess c) \<and> run_over [] (cn_log c)"
proof -
  have "run_check (\<lambda>_. True) (async_handle text_inet open_hooks demo_dial demo_env demo_rx []) = Some Ended"
    by code_simp
  from run_checkE [OF this] obtain c where
    c: "async_handle text_inet open_hooks demo_dial demo_env demo_rx [] = (Ended, c)" by blast
  from drivers_run_traces [OF disjI2 [OF c]] c show ?thesis by (simp add: open_hooks_def)
qed

end
