(* ===== verification/ServerRelayProps.thy ===== *)
theory ServerRelayProps
  imports DriverContract ServerVerdicts
begin

text \<open>
  What the relay of a driver is given and delivers, what the client is told when the dial fails,
  and runs with a client that needs no login, byte for byte.
\<close>

section \<open>Relays stand behind the loop\<close>

fun relayed :: "('c, 'p) log_entry \<Rightarrow> bool" where
  "relayed (LRelay k) = True"
| "relayed (LSpliced up down) = True"
| "relayed _ = False"

lemma serve_turn_unrelayed:
  "serve_turn I H dial c = (q, c') \<Longrightarrow> filter relayed (cn_log c') = filter relayed (cn_log c)"
  by (auto simp: serve_turn_def serve_event_def on_authorize_def on_request_def dial_target_def Let_def
      cn_decide_log_given given_def filter_empty_conv
      split: prod.splits event.splits list.splits sum.splits option.splits if_splits)

lemma serve_loop_unrelayed:
  assumes "serve_loop I H dial (conn_init H rx sends) = (st, u)"
  shows "filter relayed (cn_log u) = []"
  by (rule serve_loop_inv [where P = "\<lambda>c. filter relayed (cn_log c) = []", OF _ assms])
    (simp_all add: conn_init_def serve_turn_unrelayed)

lemma relay_phase:
  assumes q: "queue_ok s" and n: "next_event I s = (Inr (Relay h p), s')"
  shows "sv_state s' = PRelay"
proof (cases "sv_out s = []")
  case False
  from queue_event [OF q False n] show ?thesis by auto
next
  case o': True
  with n have st: "server_step I s = (Inr (Relay h p), s')" by (simp add: next_event_def)
  have "sv_state s \<in> {PRequest, PConnectWait, PRelay}" by (rule forwards_phase [OF q n]) simp
  then show ?thesis
  proof (elim insertE emptyE)
    assume "sv_state s = PRequest"
    then have "step_request I s = (Inr (Relay h p), s')" using st by (simp add: server_step_def)
    then show ?thesis by (cases rule: step_request_cases [OF o', consumes 1]) auto
  next
    assume "sv_state s = PConnectWait"
    then have "step_connect_wait I s = (Inr (Relay h p), s')" using st by (simp add: server_step_def)
    then show ?thesis by (cases rule: step_connect_wait_cases [OF o', consumes 1]) auto
  qed (use st in \<open>simp add: server_step_def\<close>)
qed

lemma serve_loop_relay_phase:
  assumes l: "serve_loop I H dial (conn_init H rx sends) = (SRelay, u)"
  shows "sv_state (cn_sess u) = PRelay"
proof -
  have "\<exists>c0. conn_ok c0 \<and> serve_turn I H dial c0 = (Some SRelay, u)"
    by (rule serve_loop_last [where P = conn_ok, OF conn_init_ok l]) (use serve_turn_ok(1) in blast)
  then obtain c0 where c0: "conn_ok c0" "serve_turn I H dial c0 = (Some SRelay, u)" by blast
  from c0(2) show ?thesis
  proof (cases rule: serve_turn_cases)
    case (event ev s)
    then obtain h p where "ev = Relay h p" "cn_sess u = s"
      using serve_event_entries [OF event(2)] by (auto simp: turn_answered_def serve_event_def)
    with event(1) c0(1) show ?thesis using relay_phase [of "cn_sess c0" I h p s] by (simp add: conn_ok_def)
  qed simp
qed

section \<open>What the relay is given\<close>

lemma pump_faithful:
  "\<exists>rest. chunks_of rx = snd (pump rx clos drains) @ rest \<and>
     (rest = [] \<or> True \<in> set clos \<or> (\<exists>e. Some e \<in> set drains))"
proof (induction rx clos drains rule: pump.induct)
  case (3 d rx clos drains)
  show ?case
  proof (cases "d = [] \<or> take 1 clos = [True] \<or> (\<exists>e r. drains = Some e # r)")
    case True
    then show ?thesis by (cases clos) auto
  next
    case False
    then have c: "snd (pump (Inr d # rx) clos drains) = d @ snd (pump rx (drop 1 clos) (drop 1 drains))"
      by (auto split: list.split option.split prod.split)
    have "\<exists>rest. chunks_of rx = snd (pump rx (drop 1 clos) (drop 1 drains)) @ rest \<and>
        (rest = [] \<or> True \<in> set (drop 1 clos) \<or> (\<exists>e. Some e \<in> set (drop 1 drains)))"
      using False by (cases drains) (use 3 in auto)
    then obtain rest where rest: "chunks_of rx = snd (pump rx (drop 1 clos) (drop 1 drains)) @ rest"
      "rest = [] \<or> True \<in> set clos \<or> (\<exists>e. Some e \<in> set drains)"
      using set_drop_subset [of 1 clos] set_drop_subset [of 1 drains] by blast
    have "chunks_of (Inr d # rx) = snd (pump (Inr d # rx) clos drains) @ rest"
      unfolding c using rest(1) False by simp
    with rest(2) show ?thesis by blast
  qed
qed auto

text \<open>Both relays at once: what each direction delivers of what its source sends.\<close>

definition carried :: "(py_exn + bytes) list \<Rightarrow> bool list \<Rightarrow> py_exn option list \<Rightarrow> bytes \<Rightarrow> bool" where
  "carried rx clos sends out \<longleftrightarrow>
     (\<exists>lost. chunks_of rx = out @ lost \<and> (lost = [] \<or> True \<in> set clos \<or> (\<exists>e. Some e \<in> set sends)))"

lemma relay_carries:
  assumes r: "threaded_relay E u = (st, v) \<or> async_relay E u = (st, v)"
    and s: "LSpliced up down \<in> set (cn_log v)" "filter relayed (cn_log u) = []"
  shows "carried (cn_rx u) (re_up_closing E) (re_up_sends E) up \<and>
    carried (re_up_rx E) (re_down_closing E) (cn_sends u) down"
proof -
  have u: "LSpliced up down \<notin> set (cn_log u)" using s(2) by (auto simp: filter_empty_conv)
  have "up = snd (copy (cn_rx u) (re_up_sends E)) \<and> down = snd (copy (re_up_rx E) (cn_sends u)) \<or>
    up = snd (pump (cn_rx u) (re_up_closing E) (re_up_sends E)) \<and>
    down = snd (pump (re_up_rx E) (re_down_closing E) (cn_sends u))"
    using r s(1) u
    by (auto simp: threaded_relay_def async_relay_def run_pipe_def splice_def async_splice_def Let_def
        split: option.splits if_splits prod.splits)
  then show ?thesis
    unfolding carried_def
    using copy_faithful [of "cn_rx u" "re_up_sends E"] copy_faithful [of "re_up_rx E" "cn_sends u"]
      pump_faithful [of "cn_rx u" "re_up_closing E" "re_up_sends E"]
      pump_faithful [of "re_up_rx E" "re_down_closing E" "cn_sends u"]
    by (elim disjE conjE) (simp; blast)+
qed

lemma handle_carries:
  assumes h: "handle_with swallows relay I H dial (conn_init H rx sends) = (out, c)"
    and r: "\<And>u st v. relay u = (st, v) \<Longrightarrow> threaded_relay E u = (st, v) \<or> async_relay E u = (st, v)"
    and s: "LSpliced up down \<in> set (cn_log c)"
  shows "\<exists>got rest hs. rx = map Inr got @ rest \<and> concat got = hs @ sv_buf (cn_sess c) \<and>
    client_side (hk_authorize H \<noteq> None) hs \<and> carried rest (re_up_closing E) (re_up_sends E) up \<and>
    carried (re_up_rx E) (re_down_closing E) sends down"
proof -
  from handle_with_cases [OF h] obtain st u st' v where
    l: "serve_loop I H dial (conn_init H rx sends) = (st, u)"
    and v: "if st = SRelay then relay u = (st', v) else st' = st \<and> v = u"
    and c: "c = v \<or> c = teardown H v" by (fastforce split: stop.splits)
  have cv: "LSpliced up down \<in> set (cn_log v)" "cn_sess c = cn_sess v"
    using c s by (auto simp: teardown_def split: if_splits)
  note un = serve_loop_unrelayed [OF l]
  have st: "st = SRelay" using cv(1) un v by (auto simp: filter_empty_conv split: if_splits)
  have rv: "threaded_relay E u = (st', v) \<or> async_relay E u = (st', v)" using v st r by simp
  have sess: "cn_sess v = cn_sess u" using relay_entries [OF rv] by blast
  obtain got where got: "rx = map Inr got @ cn_rx u" "got = received (session_log (cn_log u))"
    using serve_loop_tapped [OF l] st by (simp add: tapped_def)
  have "sv_trace I (hk_authorize H \<noteq> None) (session_log (cn_log u)) (cn_sess u)"
    using serve_loop_entries [OF l] by (simp add: cn_traced_def)
  from trace_takes [OF this] serve_loop_relay_phase [OF l [unfolded st]] got(2) obtain hs where
    "concat got = hs @ sv_buf (cn_sess u)" "client_side (hk_authorize H \<noteq> None) hs" by auto
  moreover have "carried (re_up_rx E) (re_down_closing E) sends down"
    using relay_carries [OF rv cv(1) un] serve_loop_raises(2) [OF l] unfolding carried_def by blast
  ultimately show ?thesis
    using relay_carries [OF rv cv(1) un] got(1) cv(2) sess by auto
qed

text \<open>C15. What the default relay of either driver is given, in every run that reaches it, whatever the
  hooks, the login, the dial and the chunks were: the session has been given the first chunks of the
  client, of which it took exactly the messages of the handshake; what stood behind the request in
  them stays in its buffer, where nothing reads it again. The upstream is sent a front part of what
  the client sends in the chunks that come after those, and all of it unless a send to the upstream
  failed or its writer was closing; and likewise the client of what the upstream sends. So tunnel data
  that a client sends along with its request, without waiting for the reply, is lost.\<close>

theorem relay_drops_early_data:
  assumes "threaded_handle I H dial E rx sends = (out, c) \<or> async_handle I H dial E rx sends = (out, c)"
    and "LSpliced up down \<in> set (cn_log c)"
  shows "\<exists>got rest hs. rx = map Inr got @ rest \<and> concat got = hs @ sv_buf (cn_sess c) \<and>
    client_side (hk_authorize H \<noteq> None) hs \<and> carried rest (re_up_closing E) (re_up_sends E) up \<and>
    carried (re_up_rx E) (re_down_closing E) sends down"
proof -
  obtain swallows relay where h: "handle_with swallows relay I H dial (conn_init H rx sends) = (out, c)"
    and r: "\<And>u st v. relay u = (st, v) \<Longrightarrow> threaded_relay E u = (st, v) \<or> async_relay E u = (st, v)"
    using assms(1) unfolding threaded_handle_def async_handle_def by blast
  show ?thesis by (rule handle_carries [OF h r assms(2)])
qed

text \<open>The bytes 71, 69, 84 behind the request are lost; 84, 85 from the next chunk arrive.\<close>

theorem relay_drops_early_data_witness:
  "\<exists>c got rest hs. threaded_handle text_inet open_hooks demo_dial demo_env
      [Inr [5, 1, 0, 5, 1, 0, 1, 1, 2, 3, 4, 0, 80, 71, 69, 84], Inr [84, 85], Inr []] [] = (Ended, c) \<and>
    LSpliced [84, 85] [7, 8] \<in> set (cn_log c) \<and> sv_buf (cn_sess c) = [71, 69, 84] \<and>
    concat got = hs @ [71, 69, 84] \<and> client_side False hs \<and> carried rest [] [] [84, 85]"
proof -
  let ?run = "threaded_handle text_inet open_hooks demo_dial demo_env
      [Inr [5, 1, 0, 5, 1, 0, 1, 1, 2, 3, 4, 0, 80, 71, 69, 84], Inr [84, 85], Inr []] []"
  have "fst ?run = Ended" "LSpliced [84, 85] [7, 8] \<in> set (cn_log (snd ?run))"
    "sv_buf (cn_sess (snd ?run)) = [71, 69, 84]" by code_simp+
  then obtain c where c: "?run = (Ended, c)" "LSpliced [84, 85] [7, 8] \<in> set (cn_log c)"
    "sv_buf (cn_sess c) = [71, 69, 84]" by (metis prod.collapse)
  have e: "re_up_closing demo_env = []" "re_up_sends demo_env = []" "(hk_authorize open_hooks \<noteq> None) = False"
    by (simp_all add: demo_env_def open_hooks_def)
  from relay_drops_early_data [OF disjI1 [OF c(1)] c(2), unfolded e c(3)] c show ?thesis by blast
qed

section \<open>A dial that fails, in any run\<close>

text \<open>The connection behind a dial that failed with \<open>k\<close>.\<close>

definition dial_failed :: "(pystr \<times> int) option \<Rightarrow> py_exn \<Rightarrow> int \<Rightarrow> ('c, 'p) conn \<Rightarrow> bool" where
  "dial_failed t e k c \<longleftrightarrow>
     (\<exists>pre. cn_log c = pre @ [LDial t (Inl e), LSession (ADecide (DConnectFailed k))]) \<and>
     sv_state (cn_sess c) = PConnectWait \<and> sv_out (cn_sess c) = [] \<and> \<not> sv_rejected (cn_sess c) \<and>
     sv_connect_failed (cn_sess c) \<and> sv_rep (cn_sess c) = k"

lemma dial_fails_at:
  assumes ok: "conn_ok c" and t: "serve_turn I H dial c = (q, c')"
    and n: "LDial t (Inl e) \<in> set (cn_log c')" "LDial t (Inl e) \<notin> set (cn_log c)" and k: "dial_rep e = Some k"
  shows "q = None \<and> dial_failed t e k c'"
  using t
proof (cases rule: serve_turn_cases)
  case (event ev s)
  let ?c = "cn_note (LSession (AEvent ev)) (c\<lparr>cn_sess := s\<rparr>)"
  have "\<exists>cmd host port. ev = Connect cmd host port"
    using event(2) n by (cases ev)
      (auto simp: serve_event_def on_authorize_def cn_decide_log_given given_def
        split: list.splits sum.splits option.splits if_splits)
  then obtain cmd host port where ev: "ev = Connect cmd host port" by blast
  have "queue_ok (cn_sess c)" using ok by (simp add: conn_ok_def)
  from connect_fresh [OF this event(1) [unfolded ev]] have s: "sv_out s = []" "sv_state s = PConnectWait"
    by simp_all
  have r: "on_request H dial host port ?c = (q, c')" using event(2) ev by (simp add: serve_event_def)
  define u where "u = (case hk_on_connect H of None \<Rightarrow> ?c
    | Some h \<Rightarrow> cn_decide (hook_decisions (rep_value GENERAL_FAILURE) (h (cn_sess ?c) host port)) ?c)"
  have u: "sv_out (cn_sess u) = []" "sv_state (cn_sess u) = PConnectWait" "LDial t (Inl e) \<notin> set (cn_log u)"
    using s n(2) by (auto simp: u_def cn_decide_log_given given_def split: option.split)
  have d: "(if sv_rejected (cn_sess u) then (None, u)
         else if sv_intercept (cn_sess u) then (None, cn_decide [DConnected host port] u)
         else dial_target dial u) = (q, c')"
    using r unfolding on_request_def Let_def u_def [symmetric] .
  have nr: "\<not> sv_rejected (cn_sess u)" and dt: "dial_target dial u = (q, c')"
    using d n(1) u(3) by (auto simp: cn_decide_log_given split: if_splits)
  from dial_target_entries(1) [OF dt] n(1) u(3) have tt: "sv_target (cn_sess u) = t" "dial t = Inl e"
    by (auto simp: given_def)
  show ?thesis
    using dt tt k u(1,2) nr
    by (auto simp: dial_target_def Let_def dial_failed_def cn_decide_log_given)
      (simp_all add: cn_decide_def sv_set_connect_failed_def)
qed (use n in simp)

lemma loop_dial_fails:
  assumes l: "serve_loop I H dial (conn_init H rx sends) = (st, u)"
    and n: "LDial t (Inl e) \<in> set (cn_log u)" and k: "dial_rep e = Some k"
  shows "\<exists>c. dial_failed t e k c \<and> serve_loop I H dial c = (st, u) \<and> set (cn_sends c) \<subseteq> set sends"
proof -
  let ?Q = "\<exists>c. dial_failed t e k c \<and> serve_loop I H dial c = (st, u) \<and> set (cn_sends c) \<subseteq> set sends"
  let ?P = "\<lambda>c. serve_loop I H dial c = (st, u) \<and> set (cn_sends c) \<subseteq> set sends \<and>
    (?Q \<or> conn_ok c \<and> LDial t (Inl e) \<notin> set (cn_log c))"
  have start: "?P (conn_init H rx sends)"
    using l conn_init_ok [of H rx sends] by (simp add: conn_init_def)
  have keep: "?P c \<Longrightarrow> serve_turn I H dial c = (None, c') \<Longrightarrow> ?P c'" for c c'
    using dial_fails_at [of c I H dial None c' t e k] k serve_turn_io [of I H dial c None c']
      serve_turn_ok(1) [of c I H dial None c'] serve_loop_step [of I H dial c c'] by (auto; blast)
  have "\<exists>c0. ?P c0 \<and> serve_turn I H dial c0 = (Some st, u)"
    by (rule serve_loop_last [where P = ?P, OF start l keep])
  then show ?thesis using dial_fails_at [OF _ _ n _ k] by blast
qed

lemma dial_failed_raw:
  assumes "dial_failed t e k c" "sv_relay_raw (cn_sess c)" "serve_loop I H dial c = (st, u)"
  shows "st = SRelay \<and> sv_relay_raw (cn_sess u)"
proof -
  obtain h p where n: "next_event I (cn_sess c) = (Inr (Relay h p), (cn_sess c)\<lparr>sv_state := PRelay\<rparr>)"
    using assms(1,2) by (auto simp: dial_failed_def next_event_def server_step_def step_connect_wait_def Let_def)
  have "serve_turn I H dial c = (Some SRelay, cn_note (LSession (AEvent (Relay h p)))
      (c\<lparr>cn_sess := (cn_sess c)\<lparr>sv_state := PRelay\<rparr>\<rparr>))"
    by (simp add: serve_turn_def n serve_event_def)
  from serve_loop_stop [OF this] show ?thesis using assms(2,3) by auto
qed

lemma dial_failed_answer:
  assumes f: "dial_failed t e k c" "\<not> sv_relay_raw (cn_sess c)" and w: "py_reply I k (py_lit ''0.0.0.0'') 0 = Inr w"
    and l: "serve_loop I H dial c = (st, u)"
  shows "st = SReturn \<and> cn_log u = cn_log c @
      [LSession (AEvent (Send w)), LSent w, LSession (AEvent (Close ''upstream failed''))] \<or>
    (\<exists>x. st = SRaise x \<and> Some x \<in> set (cn_sends c) \<and> cn_log u = cn_log c @ [LSession (AEvent (Send w))])"
proof -
  define s where "s = (cn_sess c)\<lparr>sv_state := PClosed, sv_out := [Close ''upstream failed'']\<rparr>"
  define c1 where "c1 = cn_note (LSession (AEvent (Send w))) (c\<lparr>cn_sess := s\<rparr>)"
  have n: "next_event I (cn_sess c) = (Inr (Send w), s)"
    using f w by (simp add: dial_failed_def next_event_def server_step_def step_connect_wait_def queue_simps s_def)
  have t: "serve_turn I H dial c = serve_event H dial (Send w) c1" by (simp add: serve_turn_def n c1_def)
  have c1: "cn_sends c1 = cn_sends c" "cn_log c1 = cn_log c @ [LSession (AEvent (Send w))]" "cn_sess c1 = s"
    by (simp_all add: c1_def)
  show ?thesis
  proof (cases "\<exists>x r. cn_sends c = Some x # r")
    case True
    then obtain x r where x: "cn_sends c = Some x # r" by blast
    have "serve_turn I H dial c = (Some (SRaise x), c1\<lparr>cn_sends := r\<rparr>)"
      unfolding t by (simp add: serve_event_def c1 x)
    from serve_loop_stop [OF this] l x c1 show ?thesis by auto
  next
    case False
    define c2 where "c2 = cn_note (LSent w) (c1\<lparr>cn_sends := drop 1 (cn_sends c)\<rparr>)"
    have t1: "serve_turn I H dial c = (None, c2)"
      unfolding t using False by (auto simp: serve_event_def c1 c2_def split: list.split option.split)
    define c3 where "c3 = cn_note (LSession (AEvent (Close ''upstream failed''))) (c2\<lparr>cn_sess := s\<lparr>sv_out := []\<rparr>\<rparr>)"
    have "next_event I (cn_sess c2) = (Inr (Close ''upstream failed''), s\<lparr>sv_out := []\<rparr>)"
      by (simp add: c2_def c1 next_event_def s_def)
    then have t2: "serve_turn I H dial c2 = (Some SReturn, c3)" by (simp add: serve_turn_def serve_event_def c3_def)
    have "serve_loop I H dial c = (SReturn, c3)" by (simp add: serve_loop_step [OF t1] serve_loop_stop [OF t2])
    then show ?thesis using l c1 by (simp add: c3_def c2_def)
  qed
qed

lemma handle_dial_fails:
  assumes h: "handle_with swallows relay I H dial (conn_init H rx sends) = (out, c)"
    and r: "\<And>u st v. relay u = (st, v) \<Longrightarrow> threaded_relay E u = (st, v) \<or> async_relay E u = (st, v)"
    and n: "LDial t (Inl e) \<in> set (cn_log c)" "dial_rep e = Some k" "\<not> sv_relay_raw (cn_sess c)"
  shows "\<exists>w pre post. py_reply I k (py_lit ''0.0.0.0'') 0 = Inr w \<and> cn_log c = pre @ LDial t (Inl e) # post \<and>
    filter relayed (cn_log c) = [] \<and>
    (out = Ended \<and> sent_bytes post = w \<or> (\<exists>x. Some x \<in> set sends) \<and> sent_bytes post = [])"
proof -
  from handle_with_cases [OF h] obtain st u st' v where
    l: "serve_loop I H dial (conn_init H rx sends) = (st, u)"
    and v: "if st = SRelay then relay u = (st', v) else st' = st \<and> v = u"
    and c: "case st' of SBlocked \<Rightarrow> out = Hung \<and> c = v
      | SRaise e \<Rightarrow> out = (if swallows e then Ended else Failed e) \<and> c = teardown H v
      | _ \<Rightarrow> out = Ended \<and> c = teardown H v" by blast
  have cv: "c = v \<or> c = teardown H v" using c by (auto split: stop.splits)
  obtain rs where rs: "cn_log v = cn_log u @ rs" "cn_sess v = cn_sess u" "\<forall>l \<in> set rs. relayed l"
  proof (cases "st = SRelay")
    case True
    then have rv: "threaded_relay E u = (st', v) \<or> async_relay E u = (st', v)" using v r by simp
    from relay_entries [OF this] that show ?thesis by auto
  qed (use v that [of "[]"] in auto)
  have "LDial t (Inl e) \<notin> set rs" using rs(3) by auto
  then have "LDial t (Inl e) \<in> set (cn_log u)"
    using n(1) cv rs(1) by (auto simp: teardown_def split: if_splits)
  from loop_dial_fails [OF l this n(2)] obtain c1 where
    c1: "dial_failed t e k c1" "serve_loop I H dial c1 = (st, u)" "set (cn_sends c1) \<subseteq> set sends" by blast
  have "sv_relay_raw (cn_sess c) = sv_relay_raw (cn_sess u)" using cv rs(2) by (auto simp: teardown_def)
  then have raw: "\<not> sv_relay_raw (cn_sess c1)" using dial_failed_raw [OF c1(1) _ c1(2)] n(3) by blast
  have "k \<in> {3, 4, 5, 6}" using n(2) by (auto simp: dial_rep_def split: if_splits)
  then obtain w where w: "py_reply I k (py_lit ''0.0.0.0'') 0 = Inr w" using py_reply_fixed [of k I] by force
  note a = dial_failed_answer [OF c1(1) raw w c1(2)]
  have st: "st \<noteq> SRelay" using a by auto
  then have vu: "v = u" "st' = st" using v by simp_all
  obtain cs where cs: "cn_log c = cn_log u @ cs" "list_all closing cs"
    using cv vu teardown_entries [of H u] by (metis append_Nil2 list.pred_inject(1))
  have quiet: "sent_bytes cs = []" "filter relayed cs = []"
    using cs(2) by (induction cs rule: sent_bytes.induct) (auto elim: closing.elims)
  obtain pre where pre: "cn_log c1 = pre @ [LDial t (Inl e), LSession (ADecide (DConnectFailed k))]"
    using c1(1) by (auto simp: dial_failed_def)
  have sub: "Some x \<in> set (cn_sends c1) \<Longrightarrow> Some x \<in> set sends" for x using c1(3) by blast
  have "\<exists>post. cn_log c = pre @ LDial t (Inl e) # post \<and>
      (out = Ended \<and> sent_bytes post = w \<or> (\<exists>x. Some x \<in> set sends) \<and> sent_bytes post = [])"
    using a c vu pre cs(1) quiet(1) by (auto dest!: sub split: if_splits)
  moreover have "filter relayed (cn_log c) = []" using serve_loop_unrelayed [OF l] cs(1) quiet(2) by simp
  ultimately show ?thesis using w by blast
qed

text \<open>C29. A dial that fails is answered with the right code, in every run of either driver, whatever
  the hooks, the login, the target and the chunks were, unless a hook has called \<^verbatim>\<open>relay_raw\<close>, with
  which it takes the reply upon itself: behind the refused, timed out, unroutable or otherwise failing
  dial the driver sends one reply, with the code of the failure and the null address, and returns; or
  a send fails and nothing more is sent. There is no relay.\<close>

theorem dial_failure_reply:
  assumes "threaded_handle I H dial E rx sends = (out, c) \<or> async_handle I H dial E rx sends = (out, c)"
    and "LDial t (Inl e) \<in> set (cn_log c)" "dial_rep e = Some k" "\<not> sv_relay_raw (cn_sess c)"
  shows "\<exists>w pre post. py_reply I k (py_lit ''0.0.0.0'') 0 = Inr w \<and> cn_log c = pre @ LDial t (Inl e) # post \<and>
    filter relayed (cn_log c) = [] \<and>
    (out = Ended \<and> sent_bytes post = w \<or> (\<exists>x. Some x \<in> set sends) \<and> sent_bytes post = [])"
proof -
  obtain swallows relay where h: "handle_with swallows relay I H dial (conn_init H rx sends) = (out, c)"
    and r: "\<And>u st v. relay u = (st, v) \<Longrightarrow> threaded_relay E u = (st, v) \<or> async_relay E u = (st, v)"
    using assms(1) unfolding threaded_handle_def async_handle_def by blast
  show ?thesis by (rule handle_dial_fails [OF h r assms(2-4)])
qed

text \<open>The client logs in, and its request arrives in two pieces.\<close>

definition login_hooks :: "(unit, unit) server_hooks" where
  "login_hooks = \<lparr>hk_authorize = Some (\<lambda>_ _ _. ([DOk None], False)), hk_on_connect = Some (\<lambda>_ _ _. ([], False)),
     hk_on_disconnect = None\<rparr>"

theorem dial_failure_reply_witness:
  "\<exists>c t w pre post. async_handle text_inet login_hooks (\<lambda>_. Inl ConnRefusedErr) demo_env
      [Inr [5, 1, 2, 1, 1, 65, 1, 66, 5, 1, 0], Inr [1, 1, 2, 3, 4, 0, 80]] [] = (Ended, c) \<and>
    py_reply text_inet 5 (py_lit ''0.0.0.0'') 0 = Inr w \<and>
    cn_log c = pre @ LDial t (Inl ConnRefusedErr) # post \<and> sent_bytes post = w"
proof -
  let ?run = "async_handle text_inet login_hooks (\<lambda>_. Inl ConnRefusedErr) demo_env
      [Inr [5, 1, 2, 1, 1, 65, 1, 66, 5, 1, 0], Inr [1, 1, 2, 3, 4, 0, 80]] []"
  let ?t = "Some (seen_host text_inet (py_lit ''1.2.3.4''), 80 :: int)"
  have "fst ?run = Ended" "LDial ?t (Inl ConnRefusedErr) \<in> set (cn_log (snd ?run))"
    "\<not> sv_relay_raw (cn_sess (snd ?run))" by code_simp+
  then obtain c where c: "?run = (Ended, c)" "LDial ?t (Inl ConnRefusedErr) \<in> set (cn_log c)"
    "\<not> sv_relay_raw (cn_sess c)" by (metis prod.collapse)
  have "dial_rep ConnRefusedErr = Some 5" by (simp add: dial_rep_def)
  from dial_failure_reply [OF disjI2 [OF c(1)] c(2) this c(3)] c(1) show ?thesis by auto
qed

text \<open>A dial that fails with anything but an \<^verbatim>\<open>OSError\<close> kills the handler without an answer: the
  client has been sent its method selection and nothing else, and the exception leaves
  \<^verbatim>\<open>_handle\<close>. The name resolver does that for a domain with an empty or an overlong label
  (\<^verbatim>\<open>UnicodeError\<close> of the \<^verbatim>\<open>idna\<close> codec), which a client chooses.\<close>

theorem dial_exception_escapes:
  assumes "posix_inet I" and "hk_authorize H = None" "hk_on_connect H = None"
    and "py_request I 1 host port = Inr r"
    and "dial (Some (seen_host I host, port)) = Inl e" "dial_rep e = None" "e \<noteq> IncompleteReadErr"
  shows "\<exists>c d. threaded_handle I H dial E (Inr ([5, 1, 0] @ r @ early) # later) [] = (Failed e, c) \<and>
    async_handle I H dial E (Inr ([5, 1, 0] @ r @ early) # later) [] = (Failed e, d) \<and>
    sent_bytes (cn_log c) = [5, 0] \<and> sent_bytes (cn_log d) = [5, 0]"
proof -
  have os: "\<not> is_os_error e" using assms(6) by (auto simp: dial_rep_def split: if_splits)
  have "\<exists>c. handle_with swallows relay I H dial (conn_init H (Inr ([5, 1, 0] @ r @ early) # later) []) =
      (if swallows e then Ended else Failed e, c) \<and> sent_bytes (cn_log c) = [5, 0]" for swallows relay
  proof -
    from serve_to_dial [OF assms(1-4), where dial = dial and early = early and later = later]
    obtain c where c: "at_dial I host port early later c"
      and l: "serve_loop I H dial (conn_init H (Inr ([5, 1, 0] @ r @ early) # later) []) =
        (case dial_target dial c of (Some st, c') \<Rightarrow> (st, c') | (None, c') \<Rightarrow> serve_loop I H dial c')" by blast
    have "dial_target dial c =
        (Some (SRaise e), cn_note (LDial (Some (seen_host I host, port)) (Inl e)) c)"
      using c assms(5,6) by (simp add: dial_target_def at_dial_def)
    then show ?thesis using c l by (simp add: handle_with_def at_dial_def)
  qed
  from this [of is_os_error "threaded_relay E"] this [of "\<lambda>e. is_os_error e \<or> e = IncompleteReadErr" "async_relay E"]
  show ?thesis using os assms(7) unfolding threaded_handle_def async_handle_def by auto
qed

theorem dial_exception_escapes_witness:
  "\<exists>c. threaded_handle text_inet open_hooks (\<lambda>_. Inl UnicodeErr) demo_env
      [Inr [5, 1, 0, 5, 1, 0, 1, 1, 2, 3, 4, 0, 80]] [] = (Failed UnicodeErr, c) \<and>
    sent_bytes (cn_log c) = [5, 0]"
proof -
  have r: "py_request text_inet 1 (py_lit ''1.2.3.4'') 80 = Inr [5, 1, 0, 1, 1, 2, 3, 4, 0, 80]" by code_simp
  have h: "hk_authorize open_hooks = None" "hk_on_connect open_hooks = None" by (simp_all add: open_hooks_def)
  have d: "(\<lambda>_ :: (pystr \<times> int) option. Inl UnicodeErr :: py_exn + pystr \<times> int)
      (Some (seen_host text_inet (py_lit ''1.2.3.4''), 80)) = Inl UnicodeErr"
    "dial_rep UnicodeErr = None" "UnicodeErr \<noteq> IncompleteReadErr" by (simp_all add: dial_rep_def)
  from dial_exception_escapes [OF text_inet.posix_inet_axioms h r d, of demo_env "[]" "[]"] show ?thesis by auto
qed

section \<open>A dial that succeeds\<close>

lemma served_connection:
  assumes "posix_inet I" and "hk_authorize H = None" "hk_on_connect H = None"
    and "py_request I 1 host port = Inr r"
    and "dial (Some (seen_host I host, port)) = Inr (bh, bp)" "py_reply I 0 bh bp = Inr w"
    and "\<forall>x \<in> set (re_up_sends E). x = None"
    and "threaded_handle I H dial E (Inr ([5, 1, 0] @ r @ early) # later) [] = (out, c)"
  shows "sent_bytes (cn_log c) = [5, 0] @ w \<and> sv_buf (cn_sess c) = early \<and>
    LSpliced (chunks_of later) (chunks_of (re_up_rx E)) \<in> set (cn_log c)"
proof -
  from serve_to_dial [OF assms(1-4), where dial = dial and early = early and later = later]
  obtain c1 where c1: "at_dial I host port early later c1"
    and l: "serve_loop I H dial (conn_init H (Inr ([5, 1, 0] @ r @ early) # later) []) =
      (case dial_target dial c1 of (Some st, c') \<Rightarrow> (st, c') | (None, c') \<Rightarrow> serve_loop I H dial c')" by blast
  from serve_dialled [where dial = dial and H = H, OF c1 assms(5,6)] l obtain u where
    l: "serve_loop I H dial (conn_init H (Inr ([5, 1, 0] @ r @ early) # later) []) = (SRelay, u)"
    and u: "sv_buf (cn_sess u) = early" "sv_custom_pipe (cn_sess u) = None" "cn_rx u = later" "cn_sends u = []"
      "cn_up u = Some (bh, bp)" "sent_bytes (cn_log u) = [5, 0] @ w" by auto
  have copies: "snd (copy later (re_up_sends E)) = chunks_of later"
    "snd (copy (re_up_rx E) []) = chunks_of (re_up_rx E)"
    using copy_all [OF assms(7)] copy_all [of "[]"] by simp_all
  obtain st where r: "threaded_relay E u =
      (st, cn_note (LSpliced (chunks_of later) (chunks_of (re_up_rx E))) (cn_note (LRelay RSplice) u))"
    using u copies
    by (cases "copy later (re_up_sends E)"; cases "copy (re_up_rx E) []")
       (auto simp: threaded_relay_def splice_def)
  show ?thesis
    using assms(8) l r u
    by (cases st) (auto simp: threaded_handle_def handle_with_def teardown_def split: if_splits)
qed

end
