(* ===== verification/SyncClientProps.thy ===== *)
theory SyncClientProps
  imports SyncClient InetText
begin

text \<open>
  The properties of the blocking clients: what they take from the socket, that the two agree,
  what becomes of the socket on every path, and how long they can take.
\<close>

section \<open>The two connects, unfolded\<close>

text \<open>The three ways a connect that has a socket ends.\<close>

lemma optimistic_cases:
  assumes "optimistic_connect I (Inr s) c host port cmd = (q, c', so)" "c_sock c = None"
    and "session_init (c_user c) (c_pass c) = Inr sess"
    and "pipelined I sock_sendall (optimistic_loop I (sk_now s + c_timeout c)) sess host port cmd s
      = (p, s')"
  shows "(case p of Inl e \<Rightarrow> q = Inl e \<and> c' = c \<and> so = Some (sock_close s')
    | Inr (rp, sess') \<Rightarrow> (q, c', so) = finish (c\<lparr>c_leftover := leftover sess'\<rparr>) s' rp)"
  using assms by (auto simp: optimistic_connect_def Let_def split: sum.splits prod.splits)

lemma staged_cases:
  assumes "staged_connect I (Inr s) c host port cmd = (q, c', so)" "c_sock c = None"
    and "staged_negotiate I sock_sendall (recv_exact (sk_now s + c_timeout c))
      (c_user c) (c_pass c) host port cmd s = (p, s')"
  shows "(case p of Inl e \<Rightarrow> q = Inl e \<and> c' = c \<and> so = Some (sock_close s')
    | Inr rp \<Rightarrow> (q, c', so) = finish c s' rp)"
  using assms by (auto simp: staged_connect_def Let_def split: sum.splits prod.splits)

lemma finish_ok:
  "(Inr r, c', so) = finish c s rp \<longleftrightarrow>
     reply_ok r \<and> rp = r \<and> so = Some s \<and>
     c' = c\<lparr>c_sock := Some s, c_bound := Some (r_host r, r_port r)\<rparr>"
  by (auto simp: finish_def)

section \<open>Concrete runs\<close>

definition demo_sock :: sock where
  "demo_sock = \<lparr>sk_now = 0, sk_timeout = 10,
     sk_rx = [(0, Inr [5, 0, 5]), (0, Inr [0, 0, 1, 9, 9, 9, 9, 0, 53, 84, 85])],
     sk_sends = [], sk_tx = [], sk_open = True\<rparr>"

definition demo_client :: client where
  "demo_client = \<lparr>c_user = None, c_pass = None, c_timeout = 10, c_sock = None, c_bound = None,
     c_leftover = []\<rparr>"

definition returns :: "connect_result \<Rightarrow> bool" where
  "returns x = (case x of (Inr _, _, Some _) \<Rightarrow> True | _ \<Rightarrow> False)"

lemma returnsE: "returns x \<Longrightarrow> \<exists>r c s. x = (Inr r, c, Some s)"
  by (auto simp: returns_def split: prod.splits sum.splits option.splits)

definition raised :: "connect_result \<Rightarrow> (py_exn \<times> int) option" where
  "raised x = (case x of (Inl e, _, Some s) \<Rightarrow> Some (e, sk_now s) | _ \<Rightarrow> None)"

lemma raisedE: "raised x = Some (e, t) \<Longrightarrow> \<exists>c s. x = (Inl e, c, Some s) \<and> sk_now s = t"
  by (auto simp: raised_def split: prod.splits sum.splits option.splits)

lemma demo_runs:
  "returns (staged_connect text_inet (Inr demo_sock) demo_client (py_lit ''h'') 80 1)"
  "returns (optimistic_connect text_inet (Inr demo_sock) demo_client (py_lit ''h'') 80 1)"
  by code_simp+

section \<open>What is taken from the socket\<close>

lemma staged_stream:
  assumes "staged_connect I (Inr s) c host port cmd = (Inr r, c', Some s')"
  shows "\<exists>m w v. rx_stream (sk_rx s) = m @ w @ rx_stream (sk_rx s') \<and>
    (m = [5, 0] \<or> c_user c \<noteq> None \<and> m = [5, 2, 1, 0]) \<and> reply_size w = Some (length w) \<and>
    py_parse_reply I w = Inr (Some v) \<and> r = mk_reply v \<and> reply_ok r \<and>
    c' = c\<lparr>c_sock := Some s', c_bound := Some (r_host r, r_port r)\<rparr>"
proof -
  have none: "c_sock c = None" using assms by (auto simp: staged_connect_def split: if_splits)
  obtain p t where n: "staged_negotiate I sock_sendall (recv_exact (sk_now s + c_timeout c))
      (c_user c) (c_pass c) host port cmd s = (p, t)" by fastforce
  from staged_cases [OF assms none n] have f: "p = Inr r" "reply_ok r" "t = s'"
    "c' = c\<lparr>c_sock := Some s', c_bound := Some (r_host r, r_port r)\<rparr>"
    by (auto simp: finish_ok split: sum.splits)
  show ?thesis
    using sync_exact.staged_exact [OF n [unfolded f(1,3)]] f(2,4) by (auto simp: reply_size_len)
qed

lemma optimistic_stream:
  assumes "optimistic_connect I (Inr s) c host port cmd = (Inr r, c', Some s')"
  shows "\<exists>w v. rx_stream (sk_rx s) =
      accept_bytes (c_user c \<noteq> None) @ w @ c_leftover c' @ rx_stream (sk_rx s') \<and>
    reply_size w = Some (length w) \<and> py_parse_reply I w = Inr (Some v) \<and>
    r = mk_reply v \<and> reply_ok r \<and> c_sock c' = Some s' \<and> c_bound c' = Some (r_host r, r_port r)"
proof -
  obtain sess where none: "c_sock c = None" and i: "session_init (c_user c) (c_pass c) = Inr sess"
    using assms by (auto simp: optimistic_connect_def split: if_splits sum.splits)
  obtain p t where n: "pipelined I sock_sendall (optimistic_loop I (sk_now s + c_timeout c)) sess
      host port cmd s = (p, t)" by fastforce
  from optimistic_cases [OF assms none i n] obtain sess' where f: "p = Inr (r, sess')" "reply_ok r"
    "t = s'" "c' = c\<lparr>c_leftover := leftover sess', c_sock := Some s',
      c_bound := Some (r_host r, r_port r)\<rparr>"
    by (auto simp: finish_ok split: sum.splits)
  show ?thesis
    using sync_greedy.pipelined_exact [OF i n [unfolded f(1,3)]] f(2,4) by (auto simp: reply_size_len)
qed

text \<open>C22. The staged client never reads into the tunnel: when \<^verbatim>\<open>Client.connect\<close> returns, it
  has taken from the socket exactly the method selection (with the auth reply when it logged in)
  and the one reply it returns; everything the peer sent behind it is still on the socket,
  \<^verbatim>\<open>leftover\<close> is untouched and \<^verbatim>\<open>bound\<close> is the reply's address.\<close>

theorem staged_connect_exact:
  assumes "staged_connect I (Inr s) c host port cmd = (Inr r, c', Some s')"
  shows "\<exists>m w v. rx_stream (sk_rx s) = m @ w @ rx_stream (sk_rx s') \<and>
    (m = [5, 0] \<or> c_user c \<noteq> None \<and> m = [5, 2, 1, 0]) \<and> reply_size w = Some (length w) \<and>
    py_parse_reply I w = Inr (Some v) \<and> r = mk_reply v \<and> reply_ok r \<and>
    c' = c\<lparr>c_sock := Some s', c_bound := Some (r_host r, r_port r)\<rparr>"
  using assms by (rule staged_stream)

theorem staged_connect_exact_witness:
  "\<exists>r c s m w. staged_connect text_inet (Inr demo_sock) demo_client (py_lit ''h'') 80 1
      = (Inr r, c, Some s) \<and>
    rx_stream (sk_rx demo_sock) = m @ w @ rx_stream (sk_rx s) \<and> reply_size w = Some (length w) \<and>
    c_sock c = Some s"
proof -
  obtain r c s where
    x: "staged_connect text_inet (Inr demo_sock) demo_client (py_lit ''h'') 80 1 = (Inr r, c, Some s)"
    using returnsE [OF demo_runs(1)] by blast
  obtain m w where "rx_stream (sk_rx demo_sock) = m @ w @ rx_stream (sk_rx s)"
    "reply_size w = Some (length w)"
    "c = demo_client\<lparr>c_sock := Some s, c_bound := Some (r_host r, r_port r)\<rparr>"
    using staged_connect_exact [OF x] by blast
  with x show ?thesis by auto
qed

text \<open>C23. The optimistic client loses no tunnel byte: when \<^verbatim>\<open>OptimisticClient.connect\<close>
  returns, what the peer sends is the expected method selection (and auth reply), the one reply
  it returns, then its \<^verbatim>\<open>leftover\<close>, then what is still on the socket, in that order and with
  nothing between.\<close>

theorem optimistic_connect_keeps_tunnel:
  assumes "optimistic_connect I (Inr s) c host port cmd = (Inr r, c', Some s')"
  shows "\<exists>w v. rx_stream (sk_rx s) =
      accept_bytes (c_user c \<noteq> None) @ w @ c_leftover c' @ rx_stream (sk_rx s') \<and>
    reply_size w = Some (length w) \<and> py_parse_reply I w = Inr (Some v) \<and>
    r = mk_reply v \<and> reply_ok r \<and> c_sock c' = Some s' \<and> c_bound c' = Some (r_host r, r_port r)"
  using assms by (rule optimistic_stream)

theorem optimistic_connect_keeps_tunnel_witness:
  "\<exists>r c s w. optimistic_connect text_inet (Inr demo_sock) demo_client (py_lit ''h'') 80 1
      = (Inr r, c, Some s) \<and>
    rx_stream (sk_rx demo_sock) = accept_bytes False @ w @ c_leftover c @ rx_stream (sk_rx s) \<and>
    reply_size w = Some (length w)"
proof -
  obtain r c s where
    x: "optimistic_connect text_inet (Inr demo_sock) demo_client (py_lit ''h'') 80 1 = (Inr r, c, Some s)"
    using returnsE [OF demo_runs(2)] by blast
  obtain w where "rx_stream (sk_rx demo_sock) = accept_bytes (c_user demo_client \<noteq> None) @ w @
      c_leftover c @ rx_stream (sk_rx s)" "reply_size w = Some (length w)"
    using optimistic_connect_keeps_tunnel [OF x] by blast
  with x show ?thesis by (auto simp: demo_client_def)
qed

section \<open>The two clients agree\<close>

text \<open>Both clients over a socket that holds a granting answer.\<close>

lemma granted_connects:
  assumes I: "posix_inet I" and none: "c_sock c = None" "c_leftover c = []"
    and i: "session_init (c_user c) (c_pass c) = Inr sess"
    and p: "optimistic_pipeline I sess host port cmd = Inr p"
    and w: "py_reply I 0 bh bp = Inr w"
    and ready: "sync_prompt (sk_now s + c_timeout c) s"
    and st: "rx_stream (sk_rx s) = accept_bytes (c_user c \<noteq> None) @ w @ tunnel"
  shows "\<exists>r c1 s1 c2 s2. staged_connect I (Inr s) c host port cmd = (Inr r, c1, Some s1) \<and>
    optimistic_connect I (Inr s) c host port cmd = (Inr r, c2, Some s2) \<and>
    r = \<lparr>r_rep = 0, r_host = seen_host I bh, r_port = bp\<rparr> \<and> c_bound c1 = c_bound c2 \<and>
    c_leftover c1 @ rx_stream (sk_rx s1) = tunnel \<and> c_leftover c2 @ rx_stream (sk_rx s2) = tunnel"
proof -
  let ?v = "(0, seen_host I bh, bp)" and ?d = "sk_now s + c_timeout c"
  note b = py_reply_built [OF I w, of "[]", unfolded append_Nil2]
  obtain q where q: "codec_request I cmd host port = Inr q"
    and auth: "c_user c = None \<or>
      (\<exists>u q a. c_user c = Some u \<and> c_pass c = Some q \<and> py_userpass_auth u q = Inr a)"
    using pipeline_parts [OF i p] by (auto simp: codec_request_def)
  have ok: "reply_ok (mk_reply ?v)" by (simp add: reply_ok_def)
  obtain s1 where s1: "staged_negotiate I sock_sendall (recv_exact ?d) (c_user c) (c_pass c) host port
      cmd s = (Inr (mk_reply ?v), s1)" "rx_stream (sk_rx s1) = tunnel"
    using sync_ready.staged_prompt [OF ready st b(2) b(1) q auth] by blast
  obtain sess' s2 where s2: "pipelined I sock_sendall (optimistic_loop I ?d) sess host port cmd s =
      (Inr (mk_reply ?v, sess'), s2)" "leftover sess' @ rx_stream (sk_rx s2) = tunnel"
    using sync_greedy.pipelined_prompt [OF i p ready st b(2) b(1)] by blast
  show ?thesis
    using s1 s2 none i ok by (simp add: staged_connect_def optimistic_connect_def finish_def)
qed

text \<open>C5. The optimistic client is the staged client, faster: over a socket on which the answer of a
  granting server and any tunnel bytes have arrived, cut into chunks in any way, both return the
  same reply and the same bound address, and the tunnel they hand over (\<^verbatim>\<open>leftover\<close>, then
  the socket) is the same.\<close>

theorem clients_agree:
  assumes I: "posix_inet I" and none: "c_sock c = None" "c_leftover c = []"
    and i: "session_init (c_user c) (c_pass c) = Inr sess"
    and p: "optimistic_pipeline I sess host port cmd = Inr p"
    and w: "py_reply I 0 bh bp = Inr w"
    and ready: "sync_prompt (sk_now s + c_timeout c) s"
    and st: "rx_stream (sk_rx s) = accept_bytes (c_user c \<noteq> None) @ w @ tunnel"
  shows "\<exists>r c1 s1 c2 s2. staged_connect I (Inr s) c host port cmd = (Inr r, c1, Some s1) \<and>
    optimistic_connect I (Inr s) c host port cmd = (Inr r, c2, Some s2) \<and>
    r = \<lparr>r_rep = 0, r_host = seen_host I bh, r_port = bp\<rparr> \<and> c_bound c1 = c_bound c2 \<and>
    c_leftover c1 @ rx_stream (sk_rx s1) = tunnel \<and> c_leftover c2 @ rx_stream (sk_rx s2) = tunnel"
  using assms by (rule granted_connects)

theorem clients_agree_witness:
  "\<exists>r c1 s1 c2 s2.
     staged_connect text_inet (Inr demo_sock) demo_client (py_lit ''h'') 80 1 = (Inr r, c1, Some s1) \<and>
     optimistic_connect text_inet (Inr demo_sock) demo_client (py_lit ''h'') 80 1 = (Inr r, c2, Some s2) \<and>
     c_leftover c1 @ rx_stream (sk_rx s1) = [84, 85] \<and> c_leftover c2 @ rx_stream (sk_rx s2) = [84, 85]"
proof -
  obtain sess where i: "session_init (c_user demo_client) (c_pass demo_client) = Inr sess"
    by (simp add: session_init_def demo_client_def)
  have "\<not> isl (bind_res (session_init None None)
      (\<lambda>s. optimistic_pipeline text_inet s (py_lit ''h'') 80 1))" by code_simp
  then obtain p where p: "optimistic_pipeline text_inet sess (py_lit ''h'') 80 1 = Inr p"
    using i by (cases "optimistic_pipeline text_inet sess (py_lit ''h'') 80 1") (auto simp: demo_client_def)
  have w: "py_reply text_inet 0 (py_lit ''9.9.9.9'') 53 = Inr [5, 0, 0, 1, 9, 9, 9, 9, 0, 53]"
    by code_simp
  have h: "c_sock demo_client = None" "c_leftover demo_client = []"
    "sync_prompt (sk_now demo_sock + c_timeout demo_client) demo_sock"
    "rx_stream (sk_rx demo_sock) = accept_bytes (c_user demo_client \<noteq> None) @
       [5, 0, 0, 1, 9, 9, 9, 9, 0, 53] @ [84, 85]"
    by (simp_all add: demo_client_def demo_sock_def sync_prompt_def accept_bytes_def)
  show ?thesis
    using clients_agree [OF text_inet.posix_inet_axioms h(1,2) i p w h(3,4)] by blast
qed

section \<open>The socket on every path\<close>

lemma connect_socket:
  assumes "f = staged_connect I \<or> f = optimistic_connect I" and "sk_open s"
    and "f (Inr s) c host port cmd = (q, c', so)"
  shows "case q of
      Inl e \<Rightarrow> c_sock c' = c_sock c \<and> c_bound c' = c_bound c \<and> (case so of None \<Rightarrow> True | Some s' \<Rightarrow> \<not> sk_open s')
    | Inr r \<Rightarrow> reply_ok r \<and> c_sock c = None \<and> (\<exists>s'. so = Some s' \<and> sk_open s' \<and> c_sock c' = so)"
proof -
  let ?d = "sk_now s + c_timeout c"
  have fin: "(q, c', so) = finish c1 s' rp \<Longrightarrow> sk_open s' \<Longrightarrow> c_sock c1 = c_sock c \<Longrightarrow>
      c_bound c1 = c_bound c \<Longrightarrow> c_sock c = None \<Longrightarrow> ?thesis" for c1 s' rp
    by (auto simp: finish_def sock_close_def split: if_splits)
  show ?thesis
  proof (cases "c_sock c")
    case (Some t)
    then show ?thesis using assms(1,3) by (auto simp: staged_connect_def optimistic_connect_def)
  next
    case None
    obtain p s' where n: "staged_negotiate I sock_sendall (recv_exact ?d) (c_user c) (c_pass c)
        host port cmd s = (p, s')" by fastforce
    have o: "sk_open s'"
      using sync_kept.timely_staged [where deadline = ?d and b = True] assms(2) n
      unfolding sync_kept.timely_def by blast
    from assms(1) show ?thesis
    proof
      assume f: "f = staged_connect I"
      from staged_cases [OF assms(3) [unfolded f] None n] fin [OF _ o] None show ?thesis
        by (cases p) (auto simp: sock_close_def)
    next
      assume f: "f = optimistic_connect I"
      show ?thesis
      proof (cases "session_init (c_user c) (c_pass c)")
        case (Inl e)
        then show ?thesis using assms(3) f None by (auto simp: optimistic_connect_def)
      next
        case (Inr sess)
        obtain p2 s2 where n2: "pipelined I sock_sendall (optimistic_loop I ?d) sess host port cmd s
            = (p2, s2)" by fastforce
        have o2: "sk_open s2"
          by (rule pipelined_keeps [where P = sk_open, OF assms(2) _ _ n2])
             (auto dest: sock_open_kept optimistic_loop_open)
        from optimistic_cases [OF assms(3) [unfolded f] None Inr n2] fin [OF _ o2] None show ?thesis
          by (cases p2) (auto simp: sock_close_def)
      qed
    qed
  qed
qed

text \<open>C26. No descriptor leaks: when either \<^verbatim>\<open>connect\<close> raises, for whatever reason, the socket it
  opened is closed and the client keeps the socket it had, if any; when it returns, the client
  holds the socket it opened, which is still open, and the reply granted the request.\<close>

theorem connect_owns_socket:
  assumes "f = staged_connect I \<or> f = optimistic_connect I" and "sk_open s"
    and "f (Inr s) c host port cmd = (q, c', so)"
  shows "case q of
      Inl e \<Rightarrow> c_sock c' = c_sock c \<and> c_bound c' = c_bound c \<and> (case so of None \<Rightarrow> True | Some s' \<Rightarrow> \<not> sk_open s')
    | Inr r \<Rightarrow> reply_ok r \<and> c_sock c = None \<and> (\<exists>s'. so = Some s' \<and> sk_open s' \<and> c_sock c' = so)"
  using assms by (rule connect_socket)

text \<open>A proxy that closes in the middle of its reply.\<close>

definition cut_sock :: sock where
  "cut_sock = demo_sock\<lparr>sk_rx := [(0, Inr [5, 0, 5]), (1, Inr [])]\<rparr>"

lemma cut_run:
  "\<exists>c s. optimistic_connect text_inet (Inr cut_sock) demo_client (py_lit ''h'') 80 1 =
      (Inl (Socks5Err ''proxy closed connection during handshake''), c, Some s)"
proof -
  have "raised (optimistic_connect text_inet (Inr cut_sock) demo_client (py_lit ''h'') 80 1) =
      Some (Socks5Err ''proxy closed connection during handshake'', 1)" by code_simp
  from raisedE [OF this] show ?thesis by blast
qed

theorem connect_owns_socket_witness:
  "\<exists>c s. optimistic_connect text_inet (Inr cut_sock) demo_client (py_lit ''h'') 80 1 =
      (Inl (Socks5Err ''proxy closed connection during handshake''), c, Some s) \<and>
    \<not> sk_open s \<and> c_sock c = c_sock demo_client"
proof -
  obtain c s where x: "optimistic_connect text_inet (Inr cut_sock) demo_client (py_lit ''h'') 80 1 =
      (Inl (Socks5Err ''proxy closed connection during handshake''), c, Some s)"
    using cut_run by blast
  have "sk_open cut_sock" by (simp add: cut_sock_def demo_sock_def)
  from connect_owns_socket [OF disjI2 [OF refl] this x] x show ?thesis by simp
qed

section \<open>A client object over its life\<close>

text \<open>Every state a client object can reach through its methods, over any sockets.\<close>

inductive client_reach :: "inet_api \<Rightarrow> client \<Rightarrow> bool" for I where
  reach_init: "client_init u p t = Inr c \<Longrightarrow> client_reach I c"
| reach_connect: "client_reach I c \<Longrightarrow> f = staged_connect I \<or> f = optimistic_connect I \<Longrightarrow>
    sk_open s \<Longrightarrow> dial = Inl e \<or> dial = Inr s \<Longrightarrow> f dial c host port cmd = (q, c', so) \<Longrightarrow>
    client_reach I c'"
| reach_close: "client_reach I c \<Longrightarrow> client_close c = (c', so) \<Longrightarrow> client_reach I c'"

inductive_cases client_reachE: "client_reach I c"

definition client_typed :: "client \<Rightarrow> bool" where
  "client_typed c \<longleftrightarrow>
     (c_user c = None \<longleftrightarrow> c_pass c = None) \<and>
     (case c_sock c of None \<Rightarrow> True | Some s \<Rightarrow> sk_open s \<and> c_bound c \<noteq> None)"

lemma connect_keeps_credentials:
  assumes "f = staged_connect I \<or> f = optimistic_connect I" "f dial c host port cmd = (q, c', so)"
  shows "c_user c' = c_user c \<and> c_pass c' = c_pass c"
    and "c_sock c' \<noteq> c_sock c \<Longrightarrow> c_bound c' \<noteq> None"
  using assms
  by (auto simp: staged_connect_def optimistic_connect_def finish_def Let_def
      split: if_splits sum.splits prod.splits)

text \<open>C30. The type of a client object: however its methods are called, the user name and the
  password are given together or not at all, and a client that holds a socket holds an open one
  and knows its bound address.\<close>

theorem client_typed_always: "client_reach I c \<Longrightarrow> client_typed c"
proof (induction rule: client_reach.induct)
  case (reach_init u p t c)
  then show ?case by (auto simp: client_init_def client_typed_def split: if_splits)
next
  case (reach_connect c f s dial e host port cmd q c' so)
  note cred = connect_keeps_credentials [OF reach_connect(2,5)]
  show ?case
  proof (cases "c_sock c' = c_sock c \<and> c_bound c' = c_bound c")
    case True
    with cred(1) reach_connect.IH show ?thesis
      by (auto simp: client_typed_def split: option.splits)
  next
    case False
    then have "dial = Inr s"
      using reach_connect(2,4,5)
      by (auto simp: staged_connect_def optimistic_connect_def split: if_splits sum.splits)
    from connect_socket [OF reach_connect(2,3) reach_connect(5) [unfolded this]] False
    obtain s' where "sk_open s'" "c_sock c' = Some s'" "c_sock c = None"
      by (auto split: sum.splits)
    with cred reach_connect.IH show ?thesis by (simp add: client_typed_def)
  qed
next
  case (reach_close c c' so)
  then show ?case by (auto simp: client_close_def client_typed_def split: option.splits)
qed

text \<open>A client that connected, was closed, and failed to connect again.\<close>

theorem client_typed_always_witness:
  "\<exists>c. client_reach text_inet c \<and> c_sock c = None \<and> client_typed c"
proof -
  obtain r c s where
    x: "staged_connect text_inet (Inr demo_sock) demo_client (py_lit ''h'') 80 1 = (Inr r, c, Some s)"
    using returnsE [OF demo_runs(1)] by blast
  obtain q c2 s2 where y: "optimistic_connect text_inet (Inr cut_sock) (fst (client_close c))
      (py_lit ''h'') 80 1 = (q, c2, s2)" by (metis prod_cases3)
  have "client_init None None 10 = Inr demo_client" by (simp add: client_init_def demo_client_def)
  from reach_init [OF this] have "client_reach text_inet demo_client" .
  from reach_connect [OF this disjI1 [OF refl] _ disjI2 [OF refl] x]
  have "client_reach text_inet c" by (simp add: demo_sock_def)
  from reach_close [OF this, of "fst (client_close c)" "snd (client_close c)"]
  have r: "client_reach text_inet (fst (client_close c))" by simp
  have "c_sock (fst (client_close c)) = None" by (simp add: client_close_def split: option.split)
  with client_typed_always [OF r] r show ?thesis by blast
qed

section \<open>How long a connect takes\<close>

text \<open>C31. The timeout of the optimistic client is a total: with a timeout of \<open>T\<close>, which
  \<^verbatim>\<open>create_connection\<close> also set on the socket, \<^verbatim>\<open>connect\<close> has returned or raised at most
  \<open>T\<close> after the connection was made, however the peer dribbles its bytes.\<close>

theorem optimistic_connect_deadline:
  assumes "optimistic_connect I (Inr s) c host port cmd = (q, c', Some s')"
    and "sk_timeout s = c_timeout c" "0 \<le> c_timeout c"
  shows "sk_now s' \<le> sk_now s + c_timeout c"
proof -
  let ?T = "c_timeout c" and ?d = "sk_now s + c_timeout c"
  obtain sess where none: "c_sock c = None" and i: "session_init (c_user c) (c_pass c) = Inr sess"
    using assms(1) by (auto simp: optimistic_connect_def split: if_splits sum.splits)
  obtain p t where n: "pipelined I sock_sendall (optimistic_loop I ?d) sess host port cmd s = (p, t)"
    by fastforce
  have "sk_now t \<le> ?d"
  proof (cases "optimistic_pipeline I sess host port cmd")
    case (Inl e)
    then show ?thesis using n assms(3) by (simp add: pipelined_def io_bind_def)
  next
    case (Inr m)
    obtain a u where a: "sock_sendall m s = (a, u)" by (cases "sock_sendall m s")
    have u: "sync_ok ?d ?T u"
      using a assms(2,3)
      by (auto simp: sock_sendall_def sync_ok_def split: list.splits if_splits option.splits)
    have chunk: "sync_ok ?d ?T v \<Longrightarrow> sync_chunk ?d v = (x, v') \<Longrightarrow> sync_ok ?d ?T v'" for v x v'
      by (rule sync_chunk_ok)
    have "a = Inr () \<Longrightarrow> sync_ok ?d ?T t"
      using sync_greedy.run_timely [of "sync_ok ?d ?T" ?d "sync_ok ?d ?T" u I sess p t] chunk u n a Inr
      by (simp add: pipelined_def io_bind_def)
    moreover have "a \<noteq> Inr () \<Longrightarrow> t = u"
      using n a Inr by (cases a) (simp_all add: pipelined_def io_bind_def)
    ultimately show ?thesis using u by (auto simp: sync_ok_def)
  qed
  moreover have "sk_now s' = sk_now t"
    using optimistic_cases [OF assms(1) none i n]
    by (auto simp: finish_def sock_close_def split: sum.splits if_splits)
  ultimately show ?thesis by simp
qed

text \<open>C32. The staged client is in time when it returns, but only then: each \<^verbatim>\<open>sendall\<close> runs
  under the timeout that was left before the last \<^verbatim>\<open>recv\<close>, so a call that raises can take up
  to twice the timeout (the witness is such a call).\<close>

theorem staged_connect_deadline:
  assumes "staged_connect I (Inr s) c host port cmd = (q, c', Some s')"
    and "sk_timeout s = c_timeout c" "0 \<le> c_timeout c"
  shows "sk_now s' \<le> sk_now s + 2 * c_timeout c \<and>
    (\<forall>r. q = Inr r \<longrightarrow> sk_now s' \<le> sk_now s + c_timeout c)"
proof -
  let ?T = "c_timeout c" and ?d = "sk_now s + c_timeout c"
  have none: "c_sock c = None" using assms(1) by (auto simp: staged_connect_def split: if_splits)
  obtain p t where n: "staged_negotiate I sock_sendall (recv_exact ?d) (c_user c) (c_pass c)
      host port cmd s = (p, t)" by fastforce
  have "sync_ok ?d ?T s" using assms(2,3) by (simp add: sync_ok_def)
  with assms(3) n sync_timed.timely_staged [where deadline = ?d and T = ?T]
  have t: "sync_late ?d ?T t" "p = Inr x \<Longrightarrow> sync_ok ?d ?T t" for x
    unfolding sync_timed.timely_def by blast+
  have "sk_now s' = sk_now t" "\<And>r. q = Inr r \<Longrightarrow> \<exists>x. p = Inr x"
    using staged_cases [OF assms(1) none n]
    by (auto simp: finish_def sock_close_def split: sum.splits if_splits)
  with t show ?thesis by (auto simp: sync_late_def sync_ok_def)
qed

text \<open>The proxy answers the greeting one tick before the end; sending the request then takes ten.\<close>

definition slow_sock :: sock where
  "slow_sock = demo_sock\<lparr>sk_rx := [(9, Inr [5, 0])], sk_sends := [(0, None), (10, None)]\<rparr>"

theorem staged_connect_deadline_witness:
  "\<exists>c s. staged_connect text_inet (Inr slow_sock) demo_client (py_lit ''h'') 80 1 =
      (Inl (Socks5Err ''handshake timed out''), c, Some s) \<and>
    sk_now s = 19 \<and> sk_now s \<le> sk_now slow_sock + 2 * c_timeout demo_client"
proof -
  have "raised (staged_connect text_inet (Inr slow_sock) demo_client (py_lit ''h'') 80 1) =
      Some (Socks5Err ''handshake timed out'', 19)" by code_simp
  from raisedE [OF this] obtain c s where x: "staged_connect text_inet (Inr slow_sock) demo_client (py_lit ''h'') 80 1 =
      (Inl (Socks5Err ''handshake timed out''), c, Some s)" "sk_now s = 19"
    by blast
  have "sk_timeout slow_sock = c_timeout demo_client" "0 \<le> c_timeout demo_client"
    by (simp_all add: slow_sock_def demo_sock_def demo_client_def)
  from staged_connect_deadline [OF x(1) this] x show ?thesis by blast
qed

theorem optimistic_connect_deadline_witness:
  "\<exists>c s. optimistic_connect text_inet (Inr cut_sock) demo_client (py_lit ''h'') 80 1 =
      (Inl (Socks5Err ''proxy closed connection during handshake''), c, Some s) \<and>
    sk_now s \<le> sk_now cut_sock + c_timeout demo_client"
proof -
  obtain c s where x: "optimistic_connect text_inet (Inr cut_sock) demo_client (py_lit ''h'') 80 1 =
      (Inl (Socks5Err ''proxy closed connection during handshake''), c, Some s)"
    using cut_run by blast
  have "sk_timeout cut_sock = c_timeout demo_client" "0 \<le> c_timeout demo_client"
    by (simp_all add: cut_sock_def demo_sock_def demo_client_def)
  from optimistic_connect_deadline [OF x this] x show ?thesis by blast
qed

end
