(* ===== verification/EndToEnd.thy ===== *)
theory EndToEnd
  imports ServerRelayProps SyncClientProps
begin

text \<open>
  The blocking client against the threaded server: the bytes that the driver sends when it is
  given the client's pipeline are the bytes that make the client's \<^verbatim>\<open>connect\<close> return.
\<close>

text \<open>C2. The library talks to itself: a threaded server without hooks that gets the pipeline of an
  optimistic client without a login as its first chunk, and whose dial and sends succeed, sends bytes over which that client's \<^verbatim>\<open>connect\<close>
  (they arrive in time, cut in any way) returns SUCCEEDED with the address the server's upstream
  socket is bound to, and hands over an empty tunnel.\<close>

theorem driver_serves_client:
  assumes I: "posix_inet I" and H: "hk_authorize H = None" "hk_on_connect H = None"
    and cl: "client_init None None T = Inr cl" and i: "session_init None None = Inr sess"
    and p: "optimistic_pipeline I sess host port 1 = Inr pipe"
    and dial: "dial (Some (seen_host I host, port)) = Inr (bh, bp)" "py_reply I 0 bh bp = Inr w"
    and up: "\<forall>x \<in> set (re_up_sends E). x = None"
    and run: "threaded_handle I H dial E (Inr pipe # later) [] = (out, c)"
    and ready: "sync_prompt (sk_now s + T) s" "rx_stream (sk_rx s) = sent_bytes (cn_log c)"
  shows "\<exists>r cl' s'. optimistic_connect I (Inr s) cl host port 1 = (Inr r, cl', Some s') \<and>
    r = \<lparr>r_rep = 0, r_host = seen_host I bh, r_port = bp\<rparr> \<and> reply_ok r \<and>
    c_leftover cl' @ rx_stream (sk_rx s') = []"
proof -
  obtain r where r: "py_request I 1 host port = Inr r" "pipe = [5, 1, 0] @ r"
    using pipeline_parts [OF i p] by auto
  have "threaded_handle I H dial E (Inr ([5, 1, 0] @ r @ []) # later) [] = (out, c)"
    using run r(2) by simp
  from served_connection [OF I H r(1) dial up this] have sent: "sent_bytes (cn_log c) = [5, 0] @ w"
    by simp
  have c: "c_sock cl = None" "c_leftover cl = []" "c_user cl = None" "c_pass cl = None" "c_timeout cl = T"
    using cl by (auto simp: client_init_def)
  have st: "rx_stream (sk_rx s) = accept_bytes (None \<noteq> (None :: pystr option)) @ w @ []"
    using ready(2) sent by (simp add: accept_bytes_def)
  note granted = granted_connects [OF I c(1,2) _ p dial(2), unfolded c(3-5)]
  from granted [OF i ready(1) st] show ?thesis by (auto simp: reply_ok_def)
qed

theorem driver_serves_client_witness:
  "\<exists>pipe out c s r cl cl' s'.
     threaded_handle text_inet open_hooks demo_dial demo_env (Inr pipe # [Inr []]) [] = (out, c) \<and>
     rx_stream (sk_rx s) = sent_bytes (cn_log c) \<and>
     optimistic_connect text_inet (Inr s) cl (py_lit ''1.2.3.4'') 80 1 = (Inr r, cl', Some s') \<and>
     reply_ok r"
proof -
  obtain sess where i: "session_init None None = Inr sess" by (simp add: session_init_def)
  have "\<not> isl (bind_res (session_init None None)
      (\<lambda>s. optimistic_pipeline text_inet s (py_lit ''1.2.3.4'') 80 1))" by code_simp
  then obtain pipe where p: "optimistic_pipeline text_inet sess (py_lit ''1.2.3.4'') 80 1 = Inr pipe"
    using i by (cases "optimistic_pipeline text_inet sess (py_lit ''1.2.3.4'') 80 1") auto
  obtain cl where cl: "client_init None None 10 = Inr cl" by (simp add: client_init_def)
  have h: "hk_authorize open_hooks = None" "hk_on_connect open_hooks = None"
    "demo_dial (Some (seen_host text_inet (py_lit ''1.2.3.4''), 80)) = Inr (py_lit ''10.0.0.1'', 4242)"
    "\<forall>x \<in> set (re_up_sends demo_env). x = None"
    by (simp_all add: open_hooks_def demo_dial_def demo_env_def)
  have w: "py_reply text_inet 0 (py_lit ''10.0.0.1'') 4242 = Inr [5, 0, 0, 1, 10, 0, 0, 1, 16, 146]"
    by code_simp
  obtain out c where run: "threaded_handle text_inet open_hooks demo_dial demo_env (Inr pipe # [Inr []]) [] = (out, c)"
    by (cases "threaded_handle text_inet open_hooks demo_dial demo_env (Inr pipe # [Inr []]) []")
  define s where "s = \<lparr>sk_now = 0, sk_timeout = 10,
     sk_rx = map (\<lambda>b. (0, Inr [b])) (sent_bytes (cn_log c)), sk_sends = [], sk_tx = [], sk_open = True\<rparr>"
  have rx: "rx_stream (map (\<lambda>b. (0, Inr [b])) bs) = bs" for bs by (induction bs) auto
  have ready: "sync_prompt (sk_now s + 10) s" "rx_stream (sk_rx s) = sent_bytes (cn_log c)"
    by (auto simp: s_def sync_prompt_def rx)
  from driver_serves_client [where dial = demo_dial, OF text_inet.posix_inet_axioms h(1,2) cl i p h(3) w h(4) run ready]
  show ?thesis using run ready(2) by blast
qed

end
