(* ===== verification/CommandLine.thy ===== *)
theory CommandLine
  imports SyncClientProps
begin

text \<open>
  \<^verbatim>\<open>optisocks5/cli.py\<close>: the \<^verbatim>\<open>connect\<close>, \<^verbatim>\<open>fetch\<close> and \<^verbatim>\<open>probe\<close> commands over the blocking clients, and
  the parsing of their arguments. \<^verbatim>\<open>urlparse\<close>, \<^verbatim>\<open>int\<close> on text and the sockets that are opened for a
  proxy's address are arguments. What is printed is reduced to its outcome: times are left out.
\<close>

section \<open>Arguments\<close>

record parsed_url =
  u_hostname :: "pystr option"
  u_port :: "py_exn + int option"
  u_username :: "pystr option"
  u_password :: "pystr option"

type_synonym url_parser = "pystr \<Rightarrow> parsed_url"
type_synonym int_parser = "pystr \<Rightarrow> py_exn + int"

text \<open>\<^verbatim>\<open>sub in s\<close> on text.\<close>

fun has_sub :: "pystr \<Rightarrow> pystr \<Rightarrow> bool" where
  "has_sub p [] = (p = [])"
| "has_sub p (x # s) = (take (length p) (x # s) = p \<or> has_sub p s)"

text \<open>The rejected URL, quoted in the message of the code, is left out of it.\<close>

definition parse_proxy ::
  "url_parser \<Rightarrow> pystr \<Rightarrow> py_exn + pystr \<times> int \<times> pystr option \<times> pystr option" where
  "parse_proxy urlparse url =
     (let u = urlparse (if has_sub (py_lit ''://'') url then url else py_lit ''socks5://'' @ url) in
      case u_hostname u of
        None \<Rightarrow> Inl (SystemExitErr ''proxy must be host:port'')
      | Some host \<Rightarrow>
          (case u_port u of
             Inl e \<Rightarrow> Inl e
           | Inr None \<Rightarrow> Inl (SystemExitErr ''proxy must be host:port'')
           | Inr (Some port) \<Rightarrow> Inr (host, port, u_username u, u_password u)))"

text \<open>\<^verbatim>\<open>s.partition(c)\<close> for one character; with a single \<open>c\<close> in the text, also \<^verbatim>\<open>rsplit(c, 1)\<close>.\<close>

definition partition_at :: "nat \<Rightarrow> pystr \<Rightarrow> pystr \<times> bool \<times> pystr" where
  "partition_at c s = (takeWhile (\<lambda>x. x \<noteq> c) s, c \<in> set s, drop 1 (dropWhile (\<lambda>x. x \<noteq> c) s))"

definition colon :: nat where "colon = 58"
definition lbracket :: nat where "lbracket = 91"
definition rbracket :: nat where "rbracket = 93"

definition split_target :: "int_parser \<Rightarrow> pystr \<Rightarrow> int \<Rightarrow> py_exn + pystr \<times> int" where
  "split_target to_int target default_port =
     (if take 1 target = [lbracket] then
        (let (host, sep, rest) = partition_at rbracket (drop 1 target)
         in if sep \<and> take 1 rest = [colon]
            then bind_res (to_int (drop 1 rest)) (\<lambda>n. Inr (host, n))
            else Inr (host, default_port))
      else if count_list target colon = 1 then
        (let (host, _, port) = partition_at colon target
         in bind_res (to_int port) (\<lambda>n. Inr (host, n)))
      else Inr (target, default_port))"

section \<open>Commands\<close>

record cli_args =
  a_proxy :: pystr
  a_target :: pystr
  a_timeout :: int
  a_staged :: bool
  a_associate :: bool

type_synonym proxy_dialer = "pystr \<Rightarrow> int \<Rightarrow> py_exn + sock"

definition cli_connect ::
  "inet_api \<Rightarrow> bool \<Rightarrow> (py_exn + sock) \<Rightarrow> client \<Rightarrow> pystr \<Rightarrow> int \<Rightarrow> int \<Rightarrow> connect_result" where
  "cli_connect I staged = (if staged then staged_connect I else optimistic_connect I)"

text \<open>What \<^verbatim>\<open>except (OSError, Socks5Error)\<close> catches.\<close>

definition cli_caught :: "py_exn \<Rightarrow> bool" where
  "cli_caught e \<longleftrightarrow> is_os_error e \<or> is_socks5_error e"

text \<open>The exit code, what was reported (the reply or the failure), and the socket at the end.\<close>

definition cmd_connect ::
  "inet_api \<Rightarrow> url_parser \<Rightarrow> int_parser \<Rightarrow> proxy_dialer \<Rightarrow> cli_args \<Rightarrow>
     py_exn + int \<times> (py_exn + reply_obj) \<times> sock option" where
  "cmd_connect I urlparse to_int dial args =
     bind_res (parse_proxy urlparse (a_proxy args)) (\<lambda>(phost, pport, user, pw).
     bind_res (split_target to_int (a_target args) 0) (\<lambda>(host, port).
     if port = 0 then Inl (SystemExitErr ''target must be host:port for `connect`'')
     else
       bind_res (client_init user pw (a_timeout args)) (\<lambda>c.
       case cli_connect I (a_staged args) (dial phost pport) c host port
              (cmd_value (if a_associate args then UDP_ASSOCIATE else CONNECT)) of
         (Inl e, _, so) \<Rightarrow> if cli_caught e then Inr (1, Inl e, so) else Inl e
       | (Inr r, c', _) \<Rightarrow>
           Inr (if reply_ok r then 0 else 1, Inr r, snd (client_close c')))))"

text \<open>Code point 8212 is the dash of the message.\<close>

definition probe_verdict :: "bool \<Rightarrow> bool \<Rightarrow> pystr" where
  "probe_verdict opt_ok staged_ok =
     (if opt_ok \<and> staged_ok then py_lit ''byte-exact (optimistic pipelining safe)''
      else if staged_ok \<and> \<not> opt_ok
      then py_lit ''recv-per-phase (desyncs on the pipeline; use staged)''
      else if opt_ok \<and> \<not> staged_ok
      then py_lit ''anomalous (optimistic only '' @ [8212] @ py_lit '' investigate)''
      else py_lit ''unreachable / both failed'')"

text \<open>One handshake of the probe, with a client of its own that is closed when it connected.\<close>

definition probe_once ::
  "inet_api \<Rightarrow> (py_exn + sock) \<Rightarrow> pystr option \<Rightarrow> pystr option \<Rightarrow> int \<Rightarrow> pystr \<Rightarrow> int \<Rightarrow> bool \<Rightarrow>
     py_exn + bool \<times> sock option" where
  "probe_once I dialled user pw timeout host port staged =
     bind_res (client_init user pw timeout) (\<lambda>c.
     case cli_connect I staged dialled c host port (cmd_value CONNECT) of
       (Inl e, _, so) \<Rightarrow> if cli_caught e then Inr (False, so) else Inl e
     | (Inr r, c', _) \<Rightarrow> Inr (True, snd (client_close c')))"

text \<open>The two dials of a probe can differ; \<open>dial staged\<close> is the socket of that mode.\<close>

definition cmd_probe ::
  "inet_api \<Rightarrow> url_parser \<Rightarrow> int_parser \<Rightarrow> (bool \<Rightarrow> proxy_dialer) \<Rightarrow> cli_args \<Rightarrow>
     py_exn + int \<times> pystr \<times> sock option list" where
  "cmd_probe I urlparse to_int dial args =
     bind_res (parse_proxy urlparse (a_proxy args)) (\<lambda>(phost, pport, user, pw).
     bind_res (split_target to_int (a_target args) 0) (\<lambda>(host, port).
     if port = 0 then Inl (SystemExitErr ''target must be host:port for `probe`'')
     else
       bind_res (probe_once I (dial False phost pport) user pw (a_timeout args) host port False) (\<lambda>(opt_ok, so1).
       bind_res (probe_once I (dial True phost pport) user pw (a_timeout args) host port True) (\<lambda>(staged_ok, so2).
       Inr (if opt_ok \<or> staged_ok then 0 else 1, probe_verdict opt_ok staged_ok, [so1, so2])))))"

section \<open>Fetching\<close>

text \<open>
  The read loop of \<^verbatim>\<open>cmd_fetch\<close>: until the end of the stream or a timeout, which it swallows.
\<close>

function fetch_loop :: "bytes \<Rightarrow> (sock, bytes) io" where
  "fetch_loop body s =
     (case sock_recv 4096 s of
        (Inl e, s') \<Rightarrow> (if e = TimeoutErr then Inr body else Inl e, s')
      | (Inr chunk, s') \<Rightarrow> if chunk = [] then (Inr body, s') else fetch_loop (body @ chunk) s')"
  by pat_completeness auto
termination
  by (relation "measure (\<lambda>(body, s). rx_size (sk_rx s))") (auto dest!: sock_recv_smaller [OF sym])

declare fetch_loop.simps [simp del]

definition slash :: nat where "slash = 47"

definition crlf :: pystr where "crlf = [13, 10]"

definition http_get :: "pystr \<Rightarrow> pystr \<Rightarrow> pystr" where
  "http_get path host =
     py_lit ''GET '' @ path @ py_lit '' HTTP/1.0'' @ crlf @ py_lit ''Host: '' @ host @ crlf @
     py_lit ''User-Agent: curl/8'' @ crlf @ py_lit ''Connection: close'' @ crlf @ crlf"

text \<open>The exchange over the tunnel; \<open>second\<close> is the unit of the clock.\<close>

definition fetch_exchange :: "int \<Rightarrow> pystr \<Rightarrow> pystr \<Rightarrow> (sock, bytes) io" where
  "fetch_exchange second path host =
     io_bind (io_lift (case utf8_encode (http_get path host) of
                         None \<Rightarrow> Inl UnicodeEncodeErr
                       | Some req \<Rightarrow> Inr req)) (\<lambda>req.
     io_bind (sock_sendall req) (\<lambda>_ s.
     fetch_loop [] (s\<lparr>sk_timeout := 5 * second\<rparr>)))"

text \<open>
  The exit code, the response if there was a handshake, and the socket at the end, which the
  \<^verbatim>\<open>with\<close> block closes on every path. \<open>resolve\<close> is \<^verbatim>\<open>gethostbyname\<close>.
\<close>

definition cmd_fetch ::
  "inet_api \<Rightarrow> url_parser \<Rightarrow> int_parser \<Rightarrow> (pystr \<Rightarrow> py_exn + pystr) \<Rightarrow> int \<Rightarrow> proxy_dialer \<Rightarrow>
     cli_args \<Rightarrow> (py_exn + int \<times> bytes option) \<times> sock option" where
  "cmd_fetch I urlparse to_int resolve second dial args =
     (case bind_res (parse_proxy urlparse (a_proxy args)) (\<lambda>(phost, pport, user, pw).
           let (hostport, _, rest) = partition_at slash (a_target args)
           in bind_res (split_target to_int hostport 80) (\<lambda>(host, dport).
              bind_res (client_init user pw (a_timeout args)) (\<lambda>c.
              Inr (phost, pport, [slash] @ rest, host, dport, c)))) of
        Inl e \<Rightarrow> (Inl e, None)
      | Inr (phost, pport, path, host, dport, c) \<Rightarrow>
          (case resolve host of
             Inl e \<Rightarrow> (if cli_caught e then Inr (1, None) else Inl e, None)
           | Inr ip \<Rightarrow>
               (case cli_connect I (a_staged args) (dial phost pport) c ip dport (cmd_value CONNECT) of
                  (Inl e, _, so) \<Rightarrow> (if cli_caught e then Inr (1, None) else Inl e, so)
                | (Inr r, c', so) \<Rightarrow>
                    (case c_sock c' of
                       None \<Rightarrow> (Inl AttributeErr, None)
                     | Some s \<Rightarrow>
                         (case fetch_exchange second path host s of
                            (Inl e, s') \<Rightarrow> (Inl e, Some (sock_close s'))
                          | (Inr body, s') \<Rightarrow> (Inr (0, Some body), Some (sock_close s')))))))"

section \<open>Facts\<close>

lemma partition_at_app:
  "c \<notin> set xs \<Longrightarrow> partition_at c (xs @ c # ys) = (xs, True, ys)"
  "c \<notin> set xs \<Longrightarrow> partition_at c xs = (xs, False, [])"
  by (induction xs) (auto simp: partition_at_def)

lemma bracket_colon [simp]: "lbracket \<noteq> colon" "colon \<noteq> lbracket" "rbracket \<noteq> colon"
  by (simp_all add: lbracket_def rbracket_def colon_def)

text \<open>Targets are read back: \<^verbatim>\<open>host:port\<close> and \<^verbatim>\<open>[host]:port\<close> give the host and the port
  for every text of the port that \<^verbatim>\<open>int\<close> reads, a bracketed host without a port and a bare host
  (of no colon, or of several, as an IPv6 literal has) give the default port.\<close>

theorem split_target_reads:
  assumes "to_int ptext = Inr n" "colon \<notin> set ptext"
    and "colon \<notin> set host" "take 1 host \<noteq> [lbracket]" "rbracket \<notin> set lit"
    and "take 1 bare \<noteq> [lbracket]" "count_list bare colon \<noteq> 1"
  shows "split_target to_int (host @ colon # ptext) d = Inr (host, n) \<and>
    split_target to_int (lbracket # lit @ rbracket # colon # ptext) d = Inr (lit, n) \<and>
    split_target to_int (lbracket # lit @ [rbracket]) d = Inr (lit, d) \<and>
    split_target to_int bare d = Inr (bare, d)"
proof -
  have "take 1 (host @ colon # ptext) \<noteq> [lbracket]" using assms(4) by (cases host) auto
  moreover have "count_list (host @ colon # ptext) colon = 1"
    using assms(2,3) by (simp add: count_list_0_iff)
  ultimately show ?thesis
    using assms partition_at_app(1) [of rbracket lit "colon # ptext"] partition_at_app(1) [of rbracket lit "[]"]
    by (simp add: split_target_def partition_at_app)
qed

theorem split_target_reads_witness:
  "\<exists>to_int :: int_parser.
     split_target to_int (py_lit ''example.com'' @ colon # py_lit ''443'') 80 = Inr (py_lit ''example.com'', 443) \<and>
     split_target to_int (lbracket # py_lit ''::1'' @ rbracket # colon # py_lit ''443'') 80 = Inr (py_lit ''::1'', 443) \<and>
     split_target to_int (lbracket # py_lit ''::1'' @ [rbracket]) 80 = Inr (py_lit ''::1'', 80) \<and>
     split_target to_int (py_lit ''2001:db8::1'') 80 = Inr (py_lit ''2001:db8::1'', 80)"
proof -
  define to_int :: int_parser where
    "to_int s = (if s \<noteq> [] \<and> list_all (\<lambda>x. 48 \<le> x \<and> x \<le> 57) s
       then Inr (foldl (\<lambda>a x. 10 * a + (int x - 48)) 0 s) else Inl (ValueErr ''invalid literal''))" for s
  have "to_int (py_lit ''443'') = Inr 443" "colon \<notin> set (py_lit ''443'')"
    "colon \<notin> set (py_lit ''example.com'')" "take 1 (py_lit ''example.com'') \<noteq> [lbracket]"
    "rbracket \<notin> set (py_lit ''::1'')" "take 1 (py_lit ''2001:db8::1'') \<noteq> [lbracket]"
    "count_list (py_lit ''2001:db8::1'') colon \<noteq> 1"
    unfolding to_int_def by code_simp+
  from split_target_reads [where to_int = to_int and ptext = "py_lit ''443''" and host = "py_lit ''example.com''"
      and lit = "py_lit ''::1''" and bare = "py_lit ''2001:db8::1''" and d = "80", OF this] show ?thesis by (intro exI [of _ to_int])
qed

section \<open>The probe\<close>

lemma connect_holds:
  "optimistic_connect I d c host port cmd = (Inr r, c', Some s) \<Longrightarrow> c_sock c' = Some s"
  "staged_connect I d c host port cmd = (Inr r, c', Some s) \<Longrightarrow> c_sock c' = Some s"
  by (auto simp: optimistic_connect_def staged_connect_def finish_def Let_def
      split: if_splits sum.splits prod.splits)

text \<open>The probe recognises a proxy that grants: when both its sockets get the answer of a granting
  server in time, in any chunks and with anything behind it, both handshakes succeed, the
  verdict is "byte-exact", the exit code 0 and both sockets are closed.\<close>

theorem probe_granting_proxy:
  assumes I: "posix_inet I"
    and p: "parse_proxy urlparse (a_proxy args) = Inr (ph, pp, user, pw)"
    and t: "split_target to_int (a_target args) 0 = Inr (host, port)" "port \<noteq> 0"
    and i: "session_init user pw = Inr sess"
    and w: "optimistic_pipeline I sess host port 1 = Inr pipe" "py_reply I 0 bh bp = Inr w"
    and dial: "dial False ph pp = Inr s1" "dial True ph pp = Inr s2"
    and ready: "sync_prompt (sk_now s1 + a_timeout args) s1" "sync_prompt (sk_now s2 + a_timeout args) s2"
    and st: "rx_stream (sk_rx s1) = accept_bytes (user \<noteq> None) @ w @ t1"
      "rx_stream (sk_rx s2) = accept_bytes (user \<noteq> None) @ w @ t2"
  shows "\<exists>a b. cmd_probe I urlparse to_int dial args =
      Inr (0, py_lit ''byte-exact (optimistic pipelining safe)'', [Some a, Some b]) \<and>
    \<not> sk_open a \<and> \<not> sk_open b"
proof -
  obtain c where c: "client_init user pw (a_timeout args) = Inr c" "c_sock c = None" "c_leftover c = []"
    "c_user c = user" "c_pass c = pw" "c_timeout c = a_timeout args"
    using i by (auto simp: session_init_def client_init_def split: if_splits)
  have i': "session_init (c_user c) (c_pass c) = Inr sess" using i c by simp
  note granted = granted_connects [OF I c(2,3) i' w(1,2), unfolded c(4,6)]
  from granted [OF ready(1) st(1)] obtain r1 c1 a where
    a: "optimistic_connect I (Inr s1) c host port 1 = (Inr r1, c1, Some a)" by blast
  from granted [OF ready(2) st(2)] obtain r2 c2 b where
    b: "staged_connect I (Inr s2) c host port 1 = (Inr r2, c2, Some b)" by blast
  have "client_close c1 = (c1\<lparr>c_sock := None\<rparr>, Some (sock_close a))"
    "client_close c2 = (c2\<lparr>c_sock := None\<rparr>, Some (sock_close b))"
    using a b connect_holds by (simp_all add: client_close_def)
  then have "probe_once I (Inr s1) user pw (a_timeout args) host port False = Inr (True, Some (sock_close a))"
    "probe_once I (Inr s2) user pw (a_timeout args) host port True = Inr (True, Some (sock_close b))"
    using c(1) a b by (simp_all add: probe_once_def cli_connect_def)
  then show ?thesis
    using p t dial by (simp add: cmd_probe_def probe_verdict_def sock_close_def)
qed

text \<open>Both sockets hold the bytes of \<open>demo_sock\<close>.\<close>

theorem probe_granting_proxy_witness:
  "\<exists>urlparse to_int args a b.
     cmd_probe text_inet urlparse to_int (\<lambda>_ _ _. Inr demo_sock) args =
       Inr (0, py_lit ''byte-exact (optimistic pipelining safe)'', [Some a, Some b]) \<and> \<not> sk_open a"
proof -
  define urlparse :: url_parser where "urlparse = (\<lambda>_. \<lparr>u_hostname = Some (py_lit ''h''),
    u_port = Inr (Some 1080), u_username = None, u_password = None\<rparr>)"
  define to_int :: int_parser where "to_int = (\<lambda>_. Inr 80)"
  define args where "args = \<lparr>a_proxy = py_lit ''h:1080'', a_target = py_lit ''t:80'', a_timeout = 10,
    a_staged = False, a_associate = False\<rparr>"
  have p: "parse_proxy urlparse (a_proxy args) = Inr (py_lit ''h'', 1080, None, None)"
    by (simp add: parse_proxy_def urlparse_def Let_def)
  have t: "split_target to_int (a_target args) 0 = Inr (py_lit ''t'', 80)" "(80 :: int) \<noteq> 0"
    by (simp_all add: split_target_def args_def to_int_def partition_at_def colon_def lbracket_def py_lit_def)
  obtain sess where i: "session_init None None = Inr sess" by (simp add: session_init_def)
  have "\<not> isl (bind_res (session_init None None)
      (\<lambda>s. optimistic_pipeline text_inet s (py_lit ''t'') 80 1))" by code_simp
  then obtain pipe where pipe: "optimistic_pipeline text_inet sess (py_lit ''t'') 80 1 = Inr pipe"
    using i by (cases "optimistic_pipeline text_inet sess (py_lit ''t'') 80 1") auto
  have w: "py_reply text_inet 0 (py_lit ''9.9.9.9'') 53 = Inr [5, 0, 0, 1, 9, 9, 9, 9, 0, 53]"
    by code_simp
  have r: "sync_prompt (sk_now demo_sock + a_timeout args) demo_sock"
    "rx_stream (sk_rx demo_sock) = accept_bytes (None \<noteq> (None :: pystr option)) @
       [5, 0, 0, 1, 9, 9, 9, 9, 0, 53] @ [84, 85]"
    by (simp_all add: args_def demo_sock_def sync_prompt_def accept_bytes_def)
  show ?thesis
    using probe_granting_proxy [where dial = "\<lambda>_ _ _. Inr demo_sock", OF text_inet.posix_inet_axioms p t i pipe w
        refl refl r(1) r(1) r(2) r(2)] by blast
qed

section \<open>What fetch shows\<close>

text \<open>No further byte was to be had when the socket was left: none at all, or one that came later.\<close>

definition given_up :: "bytes \<Rightarrow> sock \<Rightarrow> bool" where
  "given_up rest s \<longleftrightarrow> rest = [] \<or> (\<exists>at m later. sk_rx s = (at, m) # later \<and> sk_now s < at)"

lemma fetch_loop_reads:
  "fetch_loop body s = (Inr d, s') \<Longrightarrow>
     \<exists>x rest. d = body @ x \<and> rx_stream (sk_rx s) = x @ rest \<and> given_up rest s' \<and> sk_tx s' = sk_tx s"
proof (induction body s rule: fetch_loop.induct)
  case (1 body s)
  obtain q t where t: "sock_recv 4096 s = (q, t)" by (cases "sock_recv 4096 s")
  show ?case
  proof (cases "\<exists>c. q = Inr c \<and> c \<noteq> []")
    case True
    then obtain c where c: "q = Inr c" "c \<noteq> []" by blast
    then have "fetch_loop (body @ c) t = (Inr d, s')"
      using "1.prems" t by (simp add: fetch_loop.simps [of body s])
    moreover have "sk_tx t = sk_tx s"
      using t by (auto simp: sock_recv_def split: list.splits if_splits sum.splits)
    ultimately show ?thesis
      using "1.IH" [OF t [symmetric] c] sock_recv_stream(1) [OF t [unfolded c(1)]] by auto
  next
    case False
    then have "d = body" "s' = t" "q = Inr [] \<or> q = Inl TimeoutErr"
      using "1.prems" t by (cases q; auto simp: fetch_loop.simps [of body s] split: if_splits)+
    then show ?thesis
      using t by (intro exI [of _ "[]"] exI [of _ "rx_stream (sk_rx s)"] conjI)
        (auto simp: sock_recv_def given_up_def split: list.splits if_splits sum.splits)
  qed
qed

text \<open>What a \<^verbatim>\<open>connect\<close> of either mode took from the socket it dialled.\<close>

lemma cli_connect_stream:
  assumes "cli_connect I staged (Inr d) c host port cmd = (Inr r, c', so)" "c_leftover c = []"
  shows "\<exists>s m w v. so = Some s \<and> c_sock c' = Some s \<and>
    rx_stream (sk_rx d) = m @ w @ c_leftover c' @ rx_stream (sk_rx s) \<and>
    (m = accept_bytes (c_user c \<noteq> None) \<or> staged \<and> m = [5, 0]) \<and>
    reply_size w = Some (length w) \<and> py_parse_reply I w = Inr (Some v) \<and> r = mk_reply v"
proof -
  obtain s where s: "so = Some s"
    using assms(1) by (auto simp: cli_connect_def optimistic_connect_def staged_connect_def finish_def Let_def
        split: if_splits sum.splits prod.splits)
  show ?thesis
  proof (cases staged)
    case True
    then have "staged_connect I (Inr d) c host port cmd = (Inr r, c', Some s)"
      using assms(1) s by (simp add: cli_connect_def)
    from staged_stream [OF this] obtain m w v where "rx_stream (sk_rx d) = m @ w @ rx_stream (sk_rx s)"
      "m = [5, 0] \<or> c_user c \<noteq> None \<and> m = [5, 2, 1, 0]" "reply_size w = Some (length w)"
      "py_parse_reply I w = Inr (Some v)" "r = mk_reply v" "c' = c\<lparr>c_sock := Some s, c_bound := Some (r_host r, r_port r)\<rparr>"
      by blast
    then show ?thesis
      using s assms(2) True
      by (intro exI [of _ s] exI [of _ m] exI [of _ w] exI [of _ v]) (auto simp: accept_bytes_def)
  next
    case False
    then have "optimistic_connect I (Inr d) c host port cmd = (Inr r, c', Some s)"
      using assms(1) s by (simp add: cli_connect_def)
    from optimistic_stream [OF this] s show ?thesis by blast
  qed
qed

text \<open>C34. What \<^verbatim>\<open>cmd_fetch\<close> shows as the response, byte for byte. On the socket that was dialled for the
  proxy of its arguments, the proxy sends its method selection (and auth reply), the one reply that
  \<^verbatim>\<open>connect\<close> returned, then what the client read behind it (its \<^verbatim>\<open>leftover\<close>), then the body
  shown, then what was not read, and that is nothing, or came after the command had given up. So the tunnel
  bytes that the optimistic client, the default, has already read are not part of what is shown.
  The request that was sent is a \<^verbatim>\<open>GET\<close> of the path of the target at its host. The exit code is 0
  whether a response came or not, and the socket is closed.\<close>

theorem fetch_ignores_leftover:
  assumes "cmd_fetch I urlparse to_int resolve second dial args = (Inr (code, Some body), so)"
  shows "\<exists>phost pport user pw hostport sep path host port c ip d r c' s req m w v rest s'.
    parse_proxy urlparse (a_proxy args) = Inr (phost, pport, user, pw) \<and>
    partition_at slash (a_target args) = (hostport, sep, path) \<and>
    split_target to_int hostport 80 = Inr (host, port) \<and> resolve host = Inr ip \<and>
    client_init user pw (a_timeout args) = Inr c \<and> dial phost pport = Inr d \<and>
    cli_connect I (a_staged args) (Inr d) c ip port 1 = (Inr r, c', Some s) \<and>
    rx_stream (sk_rx d) = m @ w @ c_leftover c' @ body @ rest \<and>
    (m = accept_bytes (user \<noteq> None) \<or> a_staged args \<and> m = [5, 0]) \<and>
    reply_size w = Some (length w) \<and> py_parse_reply I w = Inr (Some v) \<and> r = mk_reply v \<and>
    utf8_encode (http_get ([slash] @ path) host) = Some req \<and> sk_tx s' = sk_tx s @ req \<and>
    given_up rest s' \<and> code = 0 \<and> so = Some s' \<and> \<not> sk_open s'"
proof -
  obtain hostport sep path where t: "partition_at slash (a_target args) = (hostport, sep, path)"
    by (cases "partition_at slash (a_target args)")
  obtain phost pport user pw host port c ip r c' sk s u where
    p: "parse_proxy urlparse (a_proxy args) = Inr (phost, pport, user, pw)"
      "split_target to_int hostport 80 = Inr (host, port)" "client_init user pw (a_timeout args) = Inr c"
      "resolve host = Inr ip"
    and k: "cli_connect I (a_staged args) (dial phost pport) c ip port 1 = (Inr r, c', sk)"
      "c_sock c' = Some s" "fetch_exchange second ([slash] @ path) host s = (Inr body, u)"
      "code = 0" "so = Some (sock_close u)"
    using assms t
    by (auto simp: cmd_fetch_def Let_def bind_res_Inr bind_res_Inl split: sum.splits prod.splits option.splits if_splits)
  obtain d where d: "dial phost pport = Inr d"
    using k(1) by (cases "dial phost pport")
      (auto simp: cli_connect_def optimistic_connect_def staged_connect_def split: if_splits sum.splits)
  have c: "c_leftover c = []" "c_user c = user" using p(3) by (auto simp: client_init_def split: if_splits)
  from cli_connect_stream [OF k(1) [unfolded d] c(1)] obtain s1 m w v where
    y: "sk = Some s1" "c_sock c' = Some s1" "rx_stream (sk_rx d) = m @ w @ c_leftover c' @ rx_stream (sk_rx s1)"
      "m = accept_bytes (c_user c \<noteq> None) \<or> a_staged args \<and> m = [5, 0]" "reply_size w = Some (length w)"
      "py_parse_reply I w = Inr (Some v)" "r = mk_reply v" by (elim exE conjE)
  then have x: "sk = Some s" "rx_stream (sk_rx d) = m @ w @ c_leftover c' @ rx_stream (sk_rx s)"
      "m = accept_bytes (user \<noteq> None) \<or> a_staged args \<and> m = [5, 0]" "reply_size w = Some (length w)"
      "py_parse_reply I w = Inr (Some v)" "r = mk_reply v"
    using k(2) c(2) by simp_all
  obtain req t' where req: "utf8_encode (http_get ([slash] @ path) host) = Some req"
    "sock_sendall req s = (Inr (), t')" "fetch_loop [] (t'\<lparr>sk_timeout := 5 * second\<rparr>) = (Inr body, u)"
    using k(3) by (auto simp: fetch_exchange_def io_simps split: option.splits)
  have tx: "sk_tx t' = sk_tx s @ req" "sk_rx t' = sk_rx s"
    using req(2) sock_sendall_rx [OF req(2)]
    by (auto simp: sock_sendall_def split: list.splits if_splits option.splits)
  from fetch_loop_reads [OF req(3)] obtain rest where
    rest: "rx_stream (sk_rx s) = body @ rest" "given_up rest u" "sk_tx u = sk_tx t'"
    using tx(2) by auto
  have u: "sk_tx (sock_close u) = sk_tx s @ req" "given_up rest (sock_close u)" "\<not> sk_open (sock_close u)"
    using rest tx(1) by (simp_all add: sock_close_def given_up_def)
  show ?thesis
    by (intro exI conjI) (rule p t d x req u k(4,5) k(1) [unfolded d x(1)] x(2) [unfolded rest(1)])+
qed

text \<open>The proxy sends two bytes of the tunnel along with its reply, and closes: nothing is shown.\<close>

definition banner_sock :: sock where
  "banner_sock = demo_sock\<lparr>sk_rx := [(0, Inr [5, 0, 5, 0, 0, 1, 9, 9, 9, 9, 0, 53, 84, 85]), (1, Inr [])]\<rparr>"

definition demo_url :: url_parser where
  "demo_url = (\<lambda>_. \<lparr>u_hostname = Some (py_lit ''h''), u_port = Inr (Some 1080), u_username = None,
     u_password = None\<rparr>)"

definition demo_args :: cli_args where
  "demo_args = \<lparr>a_proxy = py_lit ''h:1080'', a_target = py_lit ''t/x'', a_timeout = 10,
     a_staged = False, a_associate = False\<rparr>"

theorem fetch_ignores_leftover_witness:
  "\<exists>so c r c' s m w rest.
     cmd_fetch text_inet demo_url (\<lambda>_. Inl TypeErr) (\<lambda>_. Inr (py_lit ''1.2.3.4'')) 1 (\<lambda>_ _. Inr banner_sock)
       demo_args = (Inr (0, Some []), so) \<and>
     cli_connect text_inet False (Inr banner_sock) c (py_lit ''1.2.3.4'') 80 1 = (Inr r, c', Some s) \<and>
     rx_stream (sk_rx banner_sock) = m @ w @ c_leftover c' @ [] @ rest \<and> reply_size w = Some (length w)"
proof -
  let ?f = "cmd_fetch text_inet demo_url (\<lambda>_. Inl TypeErr) (\<lambda>_. Inr (py_lit ''1.2.3.4'')) 1 (\<lambda>_ _. Inr banner_sock) demo_args"
  have "fst ?f = Inr (0, Some [])" by code_simp
  then obtain so where x: "?f = (Inr (0, Some []), so)" by (metis prod.collapse)
  have a: "partition_at slash (a_target demo_args) = (py_lit ''t'', True, py_lit ''x'')"
    "split_target (\<lambda>_. Inl TypeErr) (py_lit ''t'') 80 = Inr (py_lit ''t'', 80)" "a_staged demo_args = False"
    by code_simp+
  from fetch_ignores_leftover [OF x] obtain hostport sep path host port c ip d r c' s m w rest where
    f: "partition_at slash (a_target demo_args) = (hostport, sep, path)"
      "split_target (\<lambda>_. Inl TypeErr) hostport 80 = Inr (host, port)" "Inr (py_lit ''1.2.3.4'') = (Inr ip :: py_exn + pystr)"
      "Inr banner_sock = (Inr d :: py_exn + sock)"
      "cli_connect text_inet (a_staged demo_args) (Inr d) c ip port 1 = (Inr r, c', Some s)"
      "rx_stream (sk_rx d) = m @ w @ c_leftover c' @ [] @ rest" "reply_size w = Some (length w)"
    by (elim exE conjE) (rule that)
  have e: "hostport = py_lit ''t''" "ip = py_lit ''1.2.3.4''" "d = banner_sock" using f(1,3,4) a(1) by simp_all
  then have "port = 80" using f(2) a(2) by simp
  with x f(5,6,7) e a(3) show ?thesis by (intro exI conjI) simp_all
qed

end
