(* ===== verification/ArgParser.thy ===== *)
theory ArgParser
  imports CommandLine
begin

text \<open>
  What the programs use of \<^verbatim>\<open>argparse\<close>, as its documentation has it: options with a value and flags,
  in any order with the positional arguments, unique prefixes of long options, \<^verbatim>\<open>--name=value\<close>,
  \<^verbatim>\<open>--\<close>, \<^verbatim>\<open>-h\<close>, and sub-commands. A parser that gives up exits with code 2, help exits with 0; the
  code is the text of the exception.
\<close>

definition usage_error :: py_exn where "usage_error = SystemExitErr ''2''"
definition help_exit :: py_exn where "help_exit = SystemExitErr ''0''"

definition dash :: nat where "dash = 45"
definition equals_sign :: nat where "equals_sign = 61"
definition full_stop :: nat where "full_stop = 46"
definition space_sign :: nat where "space_sign = 32"
definition small_h :: nat where "small_h = 104"

section \<open>Classes of arguments\<close>

datatype arg_class = Positional | OptionArg pystr "pystr option" | UnknownOption | AmbiguousOption

definition ascii_digits :: "pystr \<Rightarrow> bool" where
  "ascii_digits s \<longleftrightarrow> list_all (\<lambda>c. 48 \<le> c \<and> c \<le> 57) s"

text \<open>A negative number is no option.\<close>

definition negative_number :: "pystr \<Rightarrow> bool" where
  "negative_number a \<longleftrightarrow>
     (let (w, dot, f) = partition_at full_stop (drop 1 a) in
      take 1 a = [dash] \<and> ascii_digits w \<and> (if dot then f \<noteq> [] \<and> ascii_digits f else w \<noteq> []))"

definition starts_with :: "pystr \<Rightarrow> pystr \<Rightarrow> bool" where
  "starts_with p s \<longleftrightarrow> take (length p) s = p"

text \<open>The options that an argument abbreviates, with the value that is glued to it.\<close>

definition abbreviated :: "pystr list \<Rightarrow> pystr \<Rightarrow> (pystr \<times> pystr option) list" where
  "abbreviated names a =
     (if take 2 a = [dash, dash] then
        (let (name, eq, value) = partition_at equals_sign a
         in map (\<lambda>n. (n, if eq then Some value else None)) (filter (starts_with name) names))
      else if take 2 a \<in> set names then [(take 2 a, Some (drop 2 a))]
      else [])"

definition classify :: "pystr list \<Rightarrow> pystr \<Rightarrow> arg_class" where
  "classify names a =
     (if take 1 a \<noteq> [dash] \<or> a = [dash] then Positional
      else if a \<in> set names then OptionArg a None
      else let (name, eq, value) = partition_at equals_sign a in
           if eq \<and> name \<in> set names then OptionArg name (Some value)
           else (case abbreviated names a of
                   [(n, v)] \<Rightarrow> OptionArg n v
                 | _ # _ # _ \<Rightarrow> AmbiguousOption
                 | [] \<Rightarrow> if negative_number a \<or> space_sign \<in> set a then Positional else UnknownOption))"

section \<open>One parser\<close>

text \<open>
  The options of a parser: the name, and for an option with a value what its \<^verbatim>\<open>type\<close> and \<^verbatim>\<open>choices\<close>
  accept. Every parser also has \<^verbatim>\<open>-h\<close> and \<^verbatim>\<open>--help\<close>.
\<close>

type_synonym options = "(pystr \<times> (pystr \<Rightarrow> bool) option) list"

definition help_names :: "pystr list" where
  "help_names = [py_lit ''-h'', py_lit ''--help'']"

definition option_names :: "options \<Rightarrow> pystr list" where
  "option_names S = help_names @ map fst S"

text \<open>\<^verbatim>\<open>-hh\<close> is \<^verbatim>\<open>-h\<close> twice; anything else that is glued to a flag is an error.\<close>

definition help_result :: "pystr \<Rightarrow> pystr option \<Rightarrow> py_exn" where
  "help_result name value =
     (case value of
        None \<Rightarrow> help_exit
      | Some v \<Rightarrow> if take 2 name \<noteq> [dash, dash] \<and> v \<noteq> [] \<and> list_all (\<lambda>c. c = small_h) v then help_exit else usage_error)"

text \<open>The options met, the positional arguments, whether any argument was left over, and for a parser
  with sub-commands the command and its arguments.\<close>

record parsed =
  pa_opts :: "(pystr \<times> pystr option) list"
  pa_pos :: "pystr list"
  pa_extra :: bool
  pa_command :: "pystr list"

definition nothing_parsed :: parsed where
  "nothing_parsed = \<lparr>pa_opts = [], pa_pos = [], pa_extra = False, pa_command = []\<rparr>"

definition with_opt :: "pystr \<times> pystr option \<Rightarrow> py_exn + parsed \<Rightarrow> py_exn + parsed" where
  "with_opt o' r = bind_res r (\<lambda>p. Inr (p\<lparr>pa_opts := o' # pa_opts p\<rparr>))"

definition with_pos :: "pystr \<Rightarrow> py_exn + parsed \<Rightarrow> py_exn + parsed" where
  "with_pos a r = bind_res r (\<lambda>p. Inr (p\<lparr>pa_pos := a # pa_pos p\<rparr>))"

definition with_extra :: "py_exn + parsed \<Rightarrow> py_exn + parsed" where
  "with_extra r = bind_res r (\<lambda>p. Inr (p\<lparr>pa_extra := True\<rparr>))"

definition dashes :: pystr where "dashes = [dash, dash]"

fun parse_args :: "options \<Rightarrow> bool \<Rightarrow> nat \<Rightarrow> pystr list \<Rightarrow> py_exn + parsed" where
  "parse_args S sub k [] = Inr nothing_parsed"
| "parse_args S sub k (a # rest) =
     (if a = dashes then
        Inr (if sub then nothing_parsed\<lparr>pa_command := rest\<rparr>
             else nothing_parsed\<lparr>pa_pos := take k rest, pa_extra := k < length rest\<rparr>)
      else case classify (option_names S) a of
        Positional \<Rightarrow>
          if sub then Inr (nothing_parsed\<lparr>pa_command := a # rest\<rparr>)
          else if k = 0 then with_extra (parse_args S sub 0 rest)
          else with_pos a (parse_args S sub (k - 1) rest)
      | UnknownOption \<Rightarrow> with_extra (parse_args S sub k rest)
      | AmbiguousOption \<Rightarrow> Inl usage_error
      | OptionArg n value \<Rightarrow>
          (case map_of S n of
             None \<Rightarrow> Inl (help_result n value)
           | Some None \<Rightarrow>
               if value = None then with_opt (n, None) (parse_args S sub k rest) else Inl usage_error
           | Some (Some ok) \<Rightarrow>
               (case value of
                  Some v \<Rightarrow> if ok v then with_opt (n, Some v) (parse_args S sub k rest) else Inl usage_error
                | None \<Rightarrow>
                    (case rest of
                       [] \<Rightarrow> Inl usage_error
                     | v # rest' \<Rightarrow>
                         if v \<noteq> dashes \<and> classify (option_names S) v = Positional \<and> ok v
                         then with_opt (n, Some v) (parse_args S sub k rest') else Inl usage_error))))"

text \<open>The value of an option is the last one given.\<close>

definition opt_value :: "pystr \<Rightarrow> parsed \<Rightarrow> pystr option" where
  "opt_value n p = (case map_of (rev (pa_opts p)) n of None \<Rightarrow> None | Some v \<Rightarrow> v)"

section \<open>Written arguments are read back\<close>

datatype arg_item = ItemPos pystr | ItemFlag pystr | ItemOpt pystr pystr

fun show_item :: "arg_item \<Rightarrow> pystr list" where
  "show_item (ItemPos a) = [a]"
| "show_item (ItemFlag n) = [n]"
| "show_item (ItemOpt n v) = [n, v]"

definition show_items :: "arg_item list \<Rightarrow> pystr list" where
  "show_items xs = concat (map show_item xs)"

fun item_opts :: "arg_item list \<Rightarrow> (pystr \<times> pystr option) list" where
  "item_opts [] = []"
| "item_opts (ItemPos a # xs) = item_opts xs"
| "item_opts (ItemFlag n # xs) = (n, None) # item_opts xs"
| "item_opts (ItemOpt n v # xs) = (n, Some v) # item_opts xs"

fun item_pos :: "arg_item list \<Rightarrow> pystr list" where
  "item_pos [] = []"
| "item_pos (ItemPos a # xs) = a # item_pos xs"
| "item_pos (_ # xs) = item_pos xs"

definition plain :: "pystr \<Rightarrow> bool" where
  "plain a \<longleftrightarrow> take 1 a \<noteq> [dash]"

text \<open>The options of a parser are well-formed if they start with a dash and are not those of the help.\<close>

definition long_options :: "options \<Rightarrow> bool" where
  "long_options S \<longleftrightarrow> list_all (\<lambda>(n, _). take 2 n = dashes \<and> n \<noteq> dashes) S"

fun item_ok :: "options \<Rightarrow> arg_item \<Rightarrow> bool" where
  "item_ok S (ItemPos a) \<longleftrightarrow> plain a"
| "item_ok S (ItemFlag n) \<longleftrightarrow> map_of S n = Some None"
| "item_ok S (ItemOpt n v) \<longleftrightarrow> plain v \<and> (\<exists>ok. map_of S n = Some (Some ok) \<and> ok v)"

lemma classify_plain [simp]: "plain a \<Longrightarrow> classify names a = Positional"
  by (simp add: classify_def plain_def)

lemma plain_dashes [simp]: "plain a \<Longrightarrow> a \<noteq> dashes"
  by (auto simp: plain_def dashes_def)

lemma classify_option:
  assumes "long_options S" "map_of S n = Some x"
  shows "classify (option_names S) n = OptionArg n None" "n \<noteq> dashes"
proof -
  have m: "(n, x) \<in> set S" using assms(2) by (rule map_of_SomeD)
  then have n: "take 2 n = dashes" "n \<noteq> dashes" using assms(1) by (auto simp: long_options_def list_all_iff)
  then show "n \<noteq> dashes" by simp
  have "take 1 n = [dash]" "n \<noteq> [dash]"
    using n by (cases n; auto simp: dashes_def)+
  moreover have "n \<in> set (option_names S)" using m by (force simp: option_names_def)
  ultimately show "classify (option_names S) n = OptionArg n None" by (simp add: classify_def)
qed

lemma no_dashes_option: "long_options S \<Longrightarrow> map_of S dashes = None"
  by (force simp: long_options_def list_all_iff map_of_eq_None_iff)

lemma parse_args_items:
  assumes S: "long_options S"
  shows "list_all (item_ok S) xs \<Longrightarrow> length (item_pos xs) \<le> k \<Longrightarrow> parse_args S False k (show_items xs) =
    Inr \<lparr>pa_opts = item_opts xs, pa_pos = item_pos xs, pa_extra = False, pa_command = []\<rparr>"
proof (induction xs arbitrary: k)
  case Nil
  then show ?case by (simp add: show_items_def nothing_parsed_def)
next
  case (Cons x xs)
  then show ?case
    using classify_option [OF S] no_dashes_option [OF S]
    by (cases x) (auto simp: show_items_def with_opt_def with_pos_def)
qed

lemma parse_args_command:
  assumes S: "long_options S"
  shows "list_all (item_ok S) xs \<Longrightarrow> item_pos xs = [] \<Longrightarrow> plain a \<Longrightarrow>
    parse_args S True k (show_items xs @ a # rest) =
      Inr \<lparr>pa_opts = item_opts xs, pa_pos = [], pa_extra = False, pa_command = a # rest\<rparr>"
proof (induction xs)
  case Nil
  then show ?case by (simp add: show_items_def nothing_parsed_def)
next
  case (Cons x xs)
  then show ?case
    using classify_option [OF S] no_dashes_option [OF S]
    by (cases x) (auto simp: show_items_def with_opt_def)
qed

end
