(* ===== verification/CliParser.thy ===== *)
theory CliParser
  imports CurlThrough ArgParser
begin

text \<open>
  \<^verbatim>\<open>build_parser\<close> of \<^verbatim>\<open>cli.py\<close>: the options and arguments of the commands as data, the namespace they
  give, and \<^verbatim>\<open>main\<close> from the words of a command line. \<open>to_float\<close> is \<^verbatim>\<open>float\<close> on text, read in the units
  of the clock.
\<close>

section \<open>The parser\<close>

definition timeout_name :: pystr where "timeout_name = py_lit ''--timeout''"
definition staged_name :: pystr where "staged_name = py_lit ''--staged''"
definition cmd_name :: pystr where "cmd_name = py_lit ''--cmd''"
definition associate_choice :: pystr where "associate_choice = py_lit ''associate''"

type_synonym float_parser = "pystr \<Rightarrow> int option"

definition cli_options :: "float_parser \<Rightarrow> options" where
  "cli_options to_float = [(timeout_name, Some (\<lambda>v. to_float v \<noteq> None))]"

fun command_name :: "cli_command \<Rightarrow> pystr" where
  "command_name CmdConnect = py_lit ''connect''"
| "command_name CmdFetch = py_lit ''fetch''"
| "command_name CmdProbe = py_lit ''probe''"

fun command_options :: "cli_command \<Rightarrow> options" where
  "command_options CmdConnect =
     [(staged_name, None), (cmd_name, Some (\<lambda>v. v \<in> {py_lit ''connect'', associate_choice}))]"
| "command_options CmdFetch = [(staged_name, None)]"
| "command_options CmdProbe = []"

definition command_of :: "pystr \<Rightarrow> cli_command option" where
  "command_of name = List.find (\<lambda>c. command_name c = name) [CmdConnect, CmdFetch, CmdProbe]"

definition timeout_of :: "float_parser \<Rightarrow> int \<Rightarrow> parsed \<Rightarrow> int" where
  "timeout_of to_float second p =
     (case opt_value timeout_name p of
        None \<Rightarrow> 10 * second
      | Some v \<Rightarrow> (case to_float v of None \<Rightarrow> 10 * second | Some t \<Rightarrow> t))"

definition cli_namespace :: "float_parser \<Rightarrow> int \<Rightarrow> parsed \<Rightarrow> parsed \<Rightarrow> pystr \<Rightarrow> pystr \<Rightarrow> cli_args" where
  "cli_namespace to_float second p q proxy target =
     \<lparr>a_proxy = proxy, a_target = target, a_timeout = timeout_of to_float second p,
      a_staged = staged_name \<in> fst ` set (pa_opts q),
      a_associate = (opt_value cmd_name q = Some associate_choice)\<rparr>"

text \<open>\<^verbatim>\<open>build_parser().parse_args(argv)\<close>\<close>

definition cli_parse ::
  "float_parser \<Rightarrow> int \<Rightarrow> pystr list \<Rightarrow> py_exn + cli_command \<times> cli_args" where
  "cli_parse to_float second argv =
     bind_res (parse_args (cli_options to_float) True 0 argv) (\<lambda>p.
     case pa_command p of
       [] \<Rightarrow> Inl usage_error
     | name # rest \<Rightarrow>
         (case command_of name of
            None \<Rightarrow> Inl usage_error
          | Some command \<Rightarrow>
              bind_res (parse_args (command_options command) False 2 rest) (\<lambda>q.
              case pa_pos q of
                [proxy, target] \<Rightarrow>
                  if pa_extra p \<or> pa_extra q then Inl usage_error
                  else Inr (command, cli_namespace to_float second p q proxy target)
              | _ \<Rightarrow> Inl usage_error)))"

text \<open>\<^verbatim>\<open>main(argv)\<close>\<close>

definition optisocks5_main ::
  "inet_api \<Rightarrow> url_parser \<Rightarrow> int_parser \<Rightarrow> float_parser \<Rightarrow> (pystr \<Rightarrow> py_exn + pystr) \<Rightarrow> int \<Rightarrow>
     (bool \<Rightarrow> proxy_dialer) \<Rightarrow> pystr list \<Rightarrow> py_exn + int" where
  "optisocks5_main I urlparse to_int to_float resolve second dial argv =
     cli_main I urlparse to_int resolve second dial (cli_parse to_float second) argv"

section \<open>Written command lines are read back\<close>

lemma names_long [simp]:
  "take 2 timeout_name = dashes" "take 2 staged_name = dashes" "take 2 cmd_name = dashes"
  "timeout_name \<noteq> dashes" "staged_name \<noteq> dashes" "cmd_name \<noteq> dashes"
  by code_simp+

lemma options_long [simp]: "long_options (cli_options to_float)" "long_options (command_options c)"
  by (simp add: long_options_def cli_options_def, cases c) (simp_all add: long_options_def)

lemma command_name_plain [simp]: "plain (command_name c)"
proof -
  have "plain (command_name CmdConnect)" "plain (command_name CmdFetch)" "plain (command_name CmdProbe)"
    by code_simp+
  then show ?thesis by (cases c) simp_all
qed

lemma command_of_name [simp]: "command_of (command_name c) = Some c"
proof -
  have "command_of (command_name CmdConnect) = Some CmdConnect"
    "command_of (command_name CmdFetch) = Some CmdFetch" "command_of (command_name CmdProbe) = Some CmdProbe"
    by code_simp+
  then show ?thesis by (cases c) simp_all
qed

lemma names_differ [simp]: "staged_name \<noteq> cmd_name" "cmd_name \<noteq> staged_name"
  by code_simp+

lemma item_opts_flags: "fst ` set (item_opts xs) = {n. ItemFlag n \<in> set xs \<or> (\<exists>v. ItemOpt n v \<in> set xs)}"
  by (induction xs rule: item_opts.induct) auto

text \<open>The values that a command line gives to an option, in order.\<close>

fun values_of :: "pystr \<Rightarrow> arg_item list \<Rightarrow> pystr list" where
  "values_of n [] = []"
| "values_of n (ItemOpt m v # xs) = (if m = n then v # values_of n xs else values_of n xs)"
| "values_of n (_ # xs) = values_of n xs"

lemma opt_value_items:
  assumes "ItemFlag n \<notin> set xs" "pa_opts p = item_opts xs"
  shows "opt_value n p = (if values_of n xs = [] then None else Some (last (values_of n xs)))"
proof -
  have "map_of (rev (item_opts xs)) n =
      (if values_of n xs = [] then None else Some (Some (last (values_of n xs))))"
    using assms(1)
    by (induction xs rule: item_opts.induct) (auto simp: map_add_def split: option.splits)
  then show ?thesis using assms(2) by (simp add: opt_value_def)
qed

lemma values_of_item: "v \<in> set (values_of n xs) \<longleftrightarrow> ItemOpt n v \<in> set xs"
  by (induction n xs rule: values_of.induct) auto

text \<open>Which items the parsers accept for the options that are read.\<close>

lemma cli_items:
  "item_ok (cli_options to_float) x \<Longrightarrow> x \<noteq> ItemFlag timeout_name"
  "item_ok (cli_options to_float) (ItemOpt timeout_name v) \<Longrightarrow> \<exists>t. to_float v = Some t"
  "item_ok (command_options c) x \<Longrightarrow> x \<noteq> ItemFlag cmd_name \<and> x \<noteq> ItemOpt staged_name v"
  by (auto simp: cli_options_def) (cases c; auto split: if_splits)+

text \<open>C39. Command lines are read back as written: any \<^verbatim>\<open>--timeout\<close>s, the command, then in any order
  its options and the two positional arguments, give the namespace with these arguments, the last
  timeout (10 s without one), whether \<^verbatim>\<open>--staged\<close> is there, and the last \<^verbatim>\<open>--cmd\<close>.\<close>

theorem cli_roundtrip:
  assumes before: "list_all (item_ok (cli_options to_float)) pre" "item_pos pre = []"
    and after: "list_all (item_ok (command_options c)) xs" "item_pos xs = [proxy, target]"
  shows "cli_parse to_float second (show_items pre @ command_name c # show_items xs) =
    Inr (c, \<lparr>a_proxy = proxy, a_target = target,
             a_timeout = (if values_of timeout_name pre = [] then 10 * second
                          else the (to_float (last (values_of timeout_name pre)))),
             a_staged = ItemFlag staged_name \<in> set xs,
             a_associate = (values_of cmd_name xs \<noteq> [] \<and> last (values_of cmd_name xs) = associate_choice)\<rparr>)"
proof -
  let ?p = "\<lparr>pa_opts = item_opts pre, pa_pos = [], pa_extra = False, pa_command = command_name c # show_items xs\<rparr>"
    and ?q = "\<lparr>pa_opts = item_opts xs, pa_pos = [proxy, target], pa_extra = False, pa_command = []\<rparr>"
  have p: "parse_args (cli_options to_float) True 0 (show_items pre @ command_name c # show_items xs) = Inr ?p"
    using parse_args_command [OF options_long(1) before] by simp
  have q: "parse_args (command_options c) False 2 (show_items xs) = Inr ?q"
    using parse_args_items [OF options_long(2) after(1), of 2] after(2) by simp
  have t: "ItemFlag timeout_name \<notin> set pre" "ItemFlag cmd_name \<notin> set xs"
    "\<And>v. ItemOpt staged_name v \<notin> set xs"
    using before(1) after(1) cli_items(1) [of to_float] cli_items(3) [of c] unfolding list_all_iff by blast+
  have time: "timeout_of to_float second ?p =
      (if values_of timeout_name pre = [] then 10 * second
       else the (to_float (last (values_of timeout_name pre))))"
  proof (cases "values_of timeout_name pre = []")
    case False
    then have "ItemOpt timeout_name (last (values_of timeout_name pre)) \<in> set pre"
      using values_of_item last_in_set by blast
    then obtain x where "to_float (last (values_of timeout_name pre)) = Some x"
      using before(1) cli_items(2) by (metis list_all_iff)
    then show ?thesis using opt_value_items [OF t(1), of ?p] False by (simp add: timeout_of_def)
  qed (use opt_value_items [OF t(1), of ?p] in \<open>simp add: timeout_of_def\<close>)
  show ?thesis
    using p q time t(3) opt_value_items [OF t(2), of ?q]
    by (simp add: cli_parse_def cli_namespace_def item_opts_flags)
qed

text \<open>\<^verbatim>\<open>optisocks5 --timeout 3 connect h:1080 --cmd associate t:80 --staged\<close>\<close>

theorem cli_roundtrip_witness:
  "cli_parse (\<lambda>v. if v = py_lit ''3'' then Some 30 else None) 10
      (map py_lit [''--timeout'', ''3'', ''connect'', ''h:1080'', ''--cmd'', ''associate'', ''t:80'', ''--staged'']) =
    Inr (CmdConnect, \<lparr>a_proxy = py_lit ''h:1080'', a_target = py_lit ''t:80'', a_timeout = 30,
      a_staged = True, a_associate = True\<rparr>)"
proof -
  let ?f = "\<lambda>v. if v = py_lit ''3'' then Some (30 :: int) else None"
    and ?pre = "[ItemOpt timeout_name (py_lit ''3'')]"
    and ?xs = "[ItemPos (py_lit ''h:1080''), ItemOpt cmd_name associate_choice, ItemPos (py_lit ''t:80''),
      ItemFlag staged_name]"
  have pl: "plain (py_lit ''3'')" "plain (py_lit ''h:1080'')" "plain associate_choice" "plain (py_lit ''t:80'')"
    by code_simp+
  then have h: "list_all (item_ok (cli_options ?f)) ?pre" "item_pos ?pre = []"
    "list_all (item_ok (command_options CmdConnect)) ?xs" "item_pos ?xs = [py_lit ''h:1080'', py_lit ''t:80'']"
    by (simp_all add: cli_options_def)
  show ?thesis
    using cli_roundtrip [OF h, of 10]
    by (simp add: show_items_def timeout_name_def staged_name_def cmd_name_def associate_choice_def)
qed

text \<open>What the parser refuses: an unknown command, a missing argument, and a \<^verbatim>\<open>--timeout\<close> behind the command.\<close>

lemma cli_refusals:
  "cli_parse f second [] = Inl usage_error"
  "cli_parse (\<lambda>_. Some 1) 1 (map py_lit [''conect'', ''h:1'', ''t:1'']) = Inl usage_error"
  "cli_parse (\<lambda>_. Some 1) 1 (map py_lit [''probe'', ''h:1'']) = Inl usage_error"
  "cli_parse (\<lambda>_. Some 1) 1 (map py_lit [''probe'', ''h:1'', ''t:1'', ''--timeout'', ''5'']) = Inl usage_error"
  "cli_parse (\<lambda>_. Some 1) 1 (map py_lit [''fetch'', ''--cmd'', ''connect'', ''h:1'', ''t'']) = Inl usage_error"
  "cli_parse (\<lambda>_. Some 1) 1 (map py_lit [''--bogus'', ''fetch'', ''-h'']) = Inl help_exit"
  by (simp add: cli_parse_def nothing_parsed_def, code_simp+)

text \<open>What it accepts besides: abbreviations, glued values, and \<^verbatim>\<open>--\<close> before odd arguments.\<close>

lemma cli_liberties:
  "map_sum id fst (cli_parse (\<lambda>_. Some 1) 1 (map py_lit [''--time=5'', ''fetch'', ''--stag'', ''h:1'', ''t''])) =
     Inr CmdFetch"
  "map_sum id (\<lambda>x. a_target (snd x)) (cli_parse (\<lambda>_. Some 1) 1 (map py_lit [''probe'', ''h:1'', ''--'', ''-t:1''])) =
     Inr (py_lit ''-t:1'')"
  by code_simp+

end
