(* ===== verification/ServerSetup.thy ===== *)
theory ServerSetup
  imports ServerDriver Transport
begin

text \<open>
  The rest of \<^verbatim>\<open>Server\<close> and \<^verbatim>\<open>AsyncServer\<close>: their objects, the registration of hooks, and how a
  listener comes to be, is served and goes. What the operating system answers to the calls on the
  listening socket is an argument.
\<close>

section \<open>The objects\<close>

record ('c, 'p) server_obj =
  so_connect_timeout :: int
  so_relay_timeout :: "int option"
  so_hooks :: "('c, 'p) server_hooks"

definition no_hooks :: "('c, 'p) server_hooks" where
  "no_hooks = \<lparr>hk_authorize = None, hk_on_connect = None, hk_on_disconnect = None\<rparr>"

definition server_new :: "int \<Rightarrow> int option \<Rightarrow> ('c, 'p) server_obj" where
  "server_new connect_timeout relay_timeout =
     \<lparr>so_connect_timeout = connect_timeout, so_relay_timeout = relay_timeout, so_hooks = no_hooks\<rparr>"

definition register_authorize ::
  "(('c, 'p) server_session \<Rightarrow> pystr option \<Rightarrow> pystr option \<Rightarrow> ('c, 'p) hook_run) \<Rightarrow>
     ('c, 'p) server_obj \<Rightarrow> ('c, 'p) server_obj" where
  "register_authorize fn so = so\<lparr>so_hooks := (so_hooks so)\<lparr>hk_authorize := Some fn\<rparr>\<rparr>"

definition register_on_connect ::
  "(('c, 'p) server_session \<Rightarrow> pystr \<Rightarrow> int \<Rightarrow> ('c, 'p) hook_run) \<Rightarrow>
     ('c, 'p) server_obj \<Rightarrow> ('c, 'p) server_obj" where
  "register_on_connect fn so = so\<lparr>so_hooks := (so_hooks so)\<lparr>hk_on_connect := Some fn\<rparr>\<rparr>"

definition register_on_disconnect ::
  "(('c, 'p) server_session \<Rightarrow> bool) \<Rightarrow> ('c, 'p) server_obj \<Rightarrow> ('c, 'p) server_obj" where
  "register_on_disconnect fn so = so\<lparr>so_hooks := (so_hooks so)\<lparr>hk_on_disconnect := Some fn\<rparr>\<rparr>"

definition server_new_session :: "('c, 'p) server_obj \<Rightarrow> ('c, 'p) server_session" where
  "server_new_session so = new_session (so_hooks so)"

section \<open>The listener of the threaded server\<close>

text \<open>The calls on a fresh socket, in the order in which \<^verbatim>\<open>bind\<close> makes them.\<close>

record 'a listen_api =
  la_socket :: "py_exn + 'a"
  la_reuseaddr :: "'a \<Rightarrow> py_exn + unit"
  la_has_reuseport :: bool
  la_reuseport :: "'a \<Rightarrow> py_exn + unit"
  la_bind :: "'a \<Rightarrow> pystr \<times> int \<Rightarrow> py_exn + unit"
  la_listen :: "'a \<Rightarrow> int \<Rightarrow> py_exn + unit"
  la_getsockname :: "'a \<Rightarrow> py_exn + pystr \<times> int"

definition listener_set :: "'a \<Rightarrow> ('a listener, unit) io" where
  "listener_set srv l = (Inr (), l\<lparr>ls_sock := Some srv, ls_open := True\<rparr>)"

text \<open>A listener that was bound before is replaced, and left open.\<close>

definition server_bind ::
  "'a listen_api \<Rightarrow> pystr \<Rightarrow> int \<Rightarrow> int \<Rightarrow> bool \<Rightarrow> ('a listener, pystr \<times> int) io" where
  "server_bind A host port backlog reuse_port =
     io_bind (io_lift (la_socket A)) (\<lambda>srv.
     io_bind (io_lift (la_reuseaddr A srv)) (\<lambda>_.
     io_bind (if reuse_port \<and> la_has_reuseport A then io_lift (la_reuseport A srv) else io_return ()) (\<lambda>_.
     io_bind (io_lift (la_bind A srv (host, port))) (\<lambda>_.
     io_bind (io_lift (la_listen A srv backlog)) (\<lambda>_.
     io_bind (listener_set srv) (\<lambda>_.
     io_lift (la_getsockname A srv)))))))"

definition server_serve ::
  "'a listen_api \<Rightarrow> pystr \<Rightarrow> int \<Rightarrow> int \<Rightarrow> bool \<Rightarrow> 'b accepted list \<Rightarrow> ('a listener, 'b list \<times> bool) io" where
  "server_serve A host port backlog reuse_port as =
     io_bind (server_bind A host port backlog reuse_port) (\<lambda>_. serve_forever as)"

definition listener_new :: "'a listener" where
  "listener_new = \<lparr>ls_sock = None, ls_open = False\<rparr>"

section \<open>The asyncio server\<close>

record ('c, 'p, 's) async_server_obj =
  ao_connect_timeout :: int
  ao_hooks :: "('c, 'p) server_hooks"
  ao_server :: "'s option"

definition async_server_new :: "int \<Rightarrow> ('c, 'p, 's) async_server_obj" where
  "async_server_new connect_timeout =
     \<lparr>ao_connect_timeout = connect_timeout, ao_hooks = no_hooks, ao_server = None\<rparr>"

definition async_register_authorize ::
  "(('c, 'p) server_session \<Rightarrow> pystr option \<Rightarrow> pystr option \<Rightarrow> ('c, 'p) hook_run) \<Rightarrow>
     ('c, 'p, 's) async_server_obj \<Rightarrow> ('c, 'p, 's) async_server_obj" where
  "async_register_authorize fn so = so\<lparr>ao_hooks := (ao_hooks so)\<lparr>hk_authorize := Some fn\<rparr>\<rparr>"

definition async_register_on_connect ::
  "(('c, 'p) server_session \<Rightarrow> pystr \<Rightarrow> int \<Rightarrow> ('c, 'p) hook_run) \<Rightarrow>
     ('c, 'p, 's) async_server_obj \<Rightarrow> ('c, 'p, 's) async_server_obj" where
  "async_register_on_connect fn so = so\<lparr>ao_hooks := (ao_hooks so)\<lparr>hk_on_connect := Some fn\<rparr>\<rparr>"

definition async_register_on_disconnect ::
  "(('c, 'p) server_session \<Rightarrow> bool) \<Rightarrow> ('c, 'p, 's) async_server_obj \<Rightarrow> ('c, 'p, 's) async_server_obj" where
  "async_register_on_disconnect fn so = so\<lparr>ao_hooks := (ao_hooks so)\<lparr>hk_on_disconnect := Some fn\<rparr>\<rparr>"

definition async_new_session :: "('c, 'p, 's) async_server_obj \<Rightarrow> ('c, 'p) server_session" where
  "async_new_session so = new_session (ao_hooks so)"

text \<open>\<open>start\<close> is \<^verbatim>\<open>asyncio.start_server\<close> with the handler of the server; the arguments are the host,
  the port, \<open>reuse_port\<close> and the backlog.\<close>

definition async_serve ::
  "(pystr \<Rightarrow> int \<Rightarrow> bool \<Rightarrow> int \<Rightarrow> py_exn + 's) \<Rightarrow> pystr \<Rightarrow> int \<Rightarrow> bool \<Rightarrow> int \<Rightarrow>
     (('c, 'p, 's) async_server_obj, 's) io" where
  "async_serve start host port reuse_port backlog so =
     (case start host port reuse_port backlog of
        Inl e \<Rightarrow> (Inl e, so)
      | Inr server \<Rightarrow> (Inr server, so\<lparr>ao_server := Some server\<rparr>))"

text \<open>\<open>run\<close> is how \<^verbatim>\<open>server.serve_forever()\<close> ends; \<^verbatim>\<open>async with\<close> closes the server then, which is the
  second component of the result.\<close>

definition async_serve_forever ::
  "(pystr \<Rightarrow> int \<Rightarrow> bool \<Rightarrow> int \<Rightarrow> py_exn + 's) \<Rightarrow> ('s \<Rightarrow> py_exn) \<Rightarrow> pystr \<Rightarrow> int \<Rightarrow> bool \<Rightarrow> int \<Rightarrow>
     ('c, 'p, 's) async_server_obj \<Rightarrow> (py_exn \<times> 's option) \<times> ('c, 'p, 's) async_server_obj" where
  "async_serve_forever start run host port reuse_port backlog so =
     (case async_serve start host port reuse_port backlog so of
        (Inl e, so') \<Rightarrow> ((e, None), so')
      | (Inr server, so') \<Rightarrow> ((run server, Some server), so'))"

section \<open>The life of a listener\<close>

text \<open>The calls that user code makes on a server, with what they meet.\<close>

datatype ('a, 'b) server_call =
    CallBind "'a listen_api" pystr int int bool
  | CallServe "'b accepted list"
  | CallClose

definition server_call :: "('a, 'b) server_call \<Rightarrow> 'a listener \<Rightarrow> 'a listener" where
  "server_call k l =
     (case k of
        CallBind A host port backlog reuse_port \<Rightarrow> snd (server_bind A host port backlog reuse_port l)
      | CallServe as \<Rightarrow> snd (serve_forever as l)
      | CallClose \<Rightarrow> server_close l)"

text \<open>An accept error that ends the loop.\<close>

fun fatal :: "'b accepted \<Rightarrow> bool" where
  "fatal (Accepted a) = False"
| "fatal (AcceptErr e closed) \<longleftrightarrow> closed \<or> e \<in> {ebadf, einval}"

fun accepted_of :: "'b accepted \<Rightarrow> 'b list" where
  "accepted_of (Accepted a) = [a]"
| "accepted_of (AcceptErr e closed) = []"

lemma accept_loop_served:
  "accept_loop as = (concat (map accepted_of (takeWhile (\<lambda>a. \<not> fatal a) as)), list_ex fatal as)"
  by (induction as rule: accept_loop.induct) auto

lemma server_bind_cases:
  "server_bind A host port backlog reuse_port l = (q, l') \<Longrightarrow>
     l' = l \<and> (\<exists>e. q = Inl e) \<or> (\<exists>srv. la_socket A = Inr srv \<and> l' = l\<lparr>ls_sock := Some srv, ls_open := True\<rparr>)"
  by (auto simp: server_bind_def io_bind_def io_lift_def io_return_def listener_set_def
      split: prod.splits sum.splits if_splits)

lemma server_call_open:
  "(ls_open l \<longleftrightarrow> ls_sock l \<noteq> None) \<Longrightarrow> (ls_open (server_call k l) \<longleftrightarrow> ls_sock (server_call k l) \<noteq> None)"
proof (cases k)
  case (CallBind A host port backlog reuse_port)
  assume "ls_open l \<longleftrightarrow> ls_sock l \<noteq> None"
  then show ?thesis
    using CallBind server_bind_cases [of A host port backlog reuse_port l]
    by (cases "server_bind A host port backlog reuse_port l") (fastforce simp: server_call_def)
qed (auto simp: server_call_def serve_forever_def server_close_def split: option.splits prod.splits bool.splits)

lemma server_calls_open:
  "(ls_open l \<longleftrightarrow> ls_sock l \<noteq> None) \<Longrightarrow>
     (ls_open (fold server_call ks l) \<longleftrightarrow> ls_sock (fold server_call ks l) \<noteq> None)"
  by (induction ks arbitrary: l) (simp, metis server_call_open fold_simps(2))

text \<open>C36. The life of a listener: after any calls of \<^verbatim>\<open>bind\<close>, \<^verbatim>\<open>serve_forever\<close> and \<^verbatim>\<open>close\<close>, failed ones
  included, a server holds a socket just when that socket is open. Without one \<^verbatim>\<open>serve_forever\<close>
  raises and serves nobody; with one it hands every accepted connection to a handler, in order and
  over all transient errors, up to the first that ends the loop, and it then holds no socket.\<close>

theorem server_lifecycle:
  fixes ks :: "('a, 'b) server_call list" and as :: "'b accepted list"
  defines "l \<equiv> fold server_call ks listener_new"
  shows "(ls_open l \<longleftrightarrow> ls_sock l \<noteq> None) \<and>
    (ls_sock l = None \<longrightarrow> serve_forever as l = (Inl (RuntimeErr ''call bind() first''), l)) \<and>
    (ls_sock l \<noteq> None \<longrightarrow>
       serve_forever as l =
         (Inr (concat (map accepted_of (takeWhile (\<lambda>a. \<not> fatal a) as)), list_ex fatal as),
          if list_ex fatal as then listener_new else l))"
proof -
  have "ls_open l \<longleftrightarrow> ls_sock l \<noteq> None"
    unfolding l_def by (rule server_calls_open) (simp add: listener_new_def)
  then show ?thesis
    by (auto simp: serve_forever_def accept_loop_served listener_new_def split: option.splits bool.splits)
qed

text \<open>A bind that fails, one that succeeds, and a loop that meets a transient and a fatal error.\<close>

definition demo_listen :: "bool \<Rightarrow> nat listen_api" where
  "demo_listen ok = \<lparr>la_socket = Inr 7, la_reuseaddr = (\<lambda>_. Inr ()), la_has_reuseport = True, la_reuseport = (\<lambda>_. Inr ()),
     la_bind = (\<lambda>_ _. if ok then Inr () else Inl (OSErr 98)), la_listen = (\<lambda>_ _. Inr ()),
     la_getsockname = (\<lambda>_. Inr (py_lit ''0.0.0.0'', 1080))\<rparr>"

theorem server_lifecycle_witness:
  "\<exists>l :: nat listener.
     l = fold server_call [CallBind (demo_listen False) [] 0 128 False, CallBind (demo_listen True) [] 0 128 True,
         CallServe [Accepted (1 :: nat)]] listener_new \<and>
     ls_open l \<and>
     serve_forever [Accepted 1, AcceptErr 24 False, Accepted 2, AcceptErr 9 False, Accepted (3 :: nat)] l =
       (Inr ([1, 2], True), listener_new)"
proof -
  let ?ks = "[CallBind (demo_listen False) [] 0 128 False, CallBind (demo_listen True) [] 0 128 True,
         CallServe [Accepted (1 :: nat)]]"
  have "ls_sock (fold server_call ?ks listener_new) = Some 7" by code_simp
  with server_lifecycle [where ks = ?ks and as = "[Accepted 1, AcceptErr 24 False, Accepted 2, AcceptErr 9 False, Accepted 3]"]
  show ?thesis by (simp add: ebadf_def einval_def)
qed

end
