(* ===== verification/RelayTimeouts.thy ===== *)
theory RelayTimeouts
  imports ServerSetup "HOL-Library.Sublist"
begin

text \<open>
  The clock of the default relay of \<^verbatim>\<open>server/server.py\<close>: \<^verbatim>\<open>splice\<close> on blocking sockets that carry
  timeouts, with \<^verbatim>\<open>relay_timeout\<close> and the timeout that the dial leaves on the upstream socket. Each
  peer's chunks have the instants at which they arrive, and each \<^verbatim>\<open>sendall\<close> the time that its peer
  takes to accept the chunk, if it ever does. The timed relay refines \<open>splice\<close>.
\<close>

section \<open>Calls on a socket with a timeout\<close>

datatype 'a timed = Never | After int 'a

definition timed_recv :: "int option \<Rightarrow> int \<Rightarrow> arrivals \<Rightarrow> (py_exn + bytes) timed" where
  "timed_recv timeout now rx =
     (case (timeout, rx) of
        (None, []) \<Rightarrow> Never
      | (None, (at, m) # _) \<Rightarrow> After (max now at) m
      | (Some t, []) \<Rightarrow> After (now + t) (Inl TimeoutErr)
      | (Some t, (at, m) # _) \<Rightarrow>
          if at > now + t then After (now + t) (Inl TimeoutErr) else After (max now at) m)"

text \<open>\<open>dur\<close> is how long the peer takes, \<open>None\<close> when it never accepts; \<open>e\<close> is the failure, if any.\<close>

type_synonym sending = "nat option \<times> py_exn option"

definition timed_sendall :: "int option \<Rightarrow> int \<Rightarrow> sending \<Rightarrow> py_exn option timed" where
  "timed_sendall timeout now x =
     (case (timeout, x) of
        (None, (None, _)) \<Rightarrow> Never
      | (None, (Some d, e)) \<Rightarrow> After (now + int d) e
      | (Some t, (None, _)) \<Rightarrow> After (now + t) (Some TimeoutErr)
      | (Some t, (Some d, e)) \<Rightarrow>
          if int d > t then After (now + t) (Some TimeoutErr) else After (now + int d) e)"

text \<open>The sends after the listed ones succeed at once.\<close>

fun next_send :: "sending list \<Rightarrow> sending" where
  "next_send [] = (Some 0, None)"
| "next_send (x # _) = x"

section \<open>The relay\<close>

definition copy_fails :: "py_exn \<Rightarrow> copy_end" where
  "copy_fails e = (if is_os_error e then CopyDone else CopyRaised e)"

text \<open>\<^verbatim>\<open>copy\<close>, entered at \<open>now\<close>: how it ends, what it delivered, and when it ended.\<close>

function timed_copy ::
  "int option \<Rightarrow> int option \<Rightarrow> int \<Rightarrow> arrivals \<Rightarrow> sending list \<Rightarrow> copy_end \<times> bytes \<times> int" where
  "timed_copy src dst now rx sends =
     (case timed_recv src now rx of
        Never \<Rightarrow> (CopyBlocked, [], now)
      | After now (Inl e) \<Rightarrow> (copy_fails e, [], now)
      | After now (Inr d) \<Rightarrow>
          if d = [] then (CopyDone, [], now)
          else (case timed_sendall dst now (next_send sends) of
                  Never \<Rightarrow> (CopyBlocked, [], now)
                | After now (Some e) \<Rightarrow> (copy_fails e, [], now)
                | After now None \<Rightarrow>
                    (let (st, out, t) = timed_copy src dst now (drop 1 rx) (drop 1 sends)
                     in (st, d @ out, t))))"
  by pat_completeness auto

lemma timed_recv_nonempty: "timed_recv t now rx = After now' (Inr d) \<Longrightarrow> rx \<noteq> []"
  by (auto simp: timed_recv_def split: option.splits)

termination timed_copy
  by (relation "measure (\<lambda>(src, dst, now, rx, sends). length rx)")
     (auto dest: timed_recv_nonempty)

declare timed_copy.simps [simp del]

definition idle_timeouts :: "int option \<Rightarrow> int option \<times> int option \<Rightarrow> int option \<times> int option" where
  "idle_timeouts idle ab = (case idle of None \<Rightarrow> ab | Some t \<Rightarrow> (Some t, Some t))"

text \<open>What the two peers of a relay do.\<close>

record peers =
  pe_down_rx :: arrivals
  pe_up_sends :: "sending list"
  pe_up_rx :: arrivals
  pe_down_sends :: "sending list"

text \<open>The end of \<^verbatim>\<open>splice(a, b, idle)\<close>, what went up and down, and when each copy ended.\<close>

definition timed_splice ::
  "int option \<Rightarrow> int option \<times> int option \<Rightarrow> int \<Rightarrow> peers \<Rightarrow> stop \<times> (bytes \<times> int) \<times> (bytes \<times> int)" where
  "timed_splice idle ab now P =
     (let (a, b) = idle_timeouts idle ab;
          (st1, up) = timed_copy a b now (pe_down_rx P) (pe_up_sends P);
          (st2, down) = timed_copy b a now (pe_up_rx P) (pe_down_sends P)
      in (splice_end st1 st2, up, down))"

text \<open>
  The timeouts of the two sockets when \<^verbatim>\<open>_relay\<close> is reached: \<^verbatim>\<open>accept\<close> makes sockets that block,
  \<^verbatim>\<open>create_connection\<close> returns a socket that keeps the timeout it connected with.
\<close>

definition relay_sockets :: "('c, 'p) server_obj \<Rightarrow> int option \<times> int option" where
  "relay_sockets so = (None, Some (so_connect_timeout so))"

definition server_splice ::
  "('c, 'p) server_obj \<Rightarrow> int \<Rightarrow> peers \<Rightarrow> stop \<times> (bytes \<times> int) \<times> (bytes \<times> int)" where
  "server_splice so = timed_splice (so_relay_timeout so) (relay_sockets so)"

section \<open>The timed relay is one of the untimed relays\<close>

lemma timed_copy_unfold:
  assumes "timed_copy src dst now rx sends = (st, out, t)"
  obtains
    (recv_blocks) "src = None" "rx = []" "st = CopyBlocked" "out = []" "t = now"
  | (recv_fails) e where "timed_recv src now rx = After t (Inl e)" "st = copy_fails e" "out = []"
  | (eof) "timed_recv src now rx = After t (Inr [])" "st = CopyDone" "out = []"
  | (send_blocks) d where "timed_recv src now rx = After t (Inr d)" "d \<noteq> []"
      "timed_sendall dst t (next_send sends) = Never" "st = CopyBlocked" "out = []"
  | (send_fails) d n e where "timed_recv src now rx = After n (Inr d)" "d \<noteq> []"
      "timed_sendall dst n (next_send sends) = After t (Some e)" "st = copy_fails e" "out = []"
  | (copies) at d rest n n' out' where "rx = (at, Inr d) # rest" "d \<noteq> []"
      "timed_recv src now rx = After n (Inr d)"
      "timed_sendall dst n (next_send sends) = After n' None"
      "timed_copy src dst n' rest (drop 1 sends) = (st, out', t)" "out = d @ out'"
  using assms
  by (subst (asm) timed_copy.simps)
     (auto simp: timed_recv_def split: timed.splits sum.splits option.splits list.splits if_splits prod.splits)

lemma timed_recv_after:
  assumes "timed_recv src now rx = After t m"
  obtains (arrived) at rest where "rx = (at, m) # rest" "t = max now at" "\<And>T. src = Some T \<Longrightarrow> at \<le> now + T"
  | (timed_out) T where "src = Some T" "m = Inl TimeoutErr" "t = now + T"
  using assms by (auto simp: timed_recv_def split: option.splits list.splits if_splits)

lemma timed_sendall_after:
  "timed_sendall (Some T) now x \<noteq> Never"
  "timed_sendall (Some T) now x = After t r \<Longrightarrow> t \<le> now + T"
  "0 \<le> T \<Longrightarrow> timed_sendall (Some T) now (Some 0, e) = After now e"
  "timed_sendall None now (Some 0, e) = After now e"
  by (auto simp: timed_sendall_def split: prod.splits option.splits if_splits)

text \<open>A timed copy is an untimed one: of the chunks it read, with a timeout behind them or not.\<close>

lemma timed_copy_refines:
  "timed_copy src dst now rx sends = (st, out, t) \<Longrightarrow>
     \<exists>n late sends'. copy (map snd (take n rx) @ late) sends' = (st, out) \<and> set late \<subseteq> {Inl TimeoutErr}"
proof (induction rx arbitrary: now sends out rule: length_induct)
  case (1 rx)
  have one: ?case if "copy (map snd (take 1 rx)) sends' = (st, out)" for sends'
    using that by (intro exI [of _ 1] exI [of _ "[]"] exI [of _ sends']) auto
  have none: ?case if "copy late [] = (st, out)" "set late \<subseteq> {Inl TimeoutErr}" for late
    using that by (intro exI [of _ 0] exI [of _ late] exI [of _ "[]"]) auto
  from 1(2) show ?case
  proof (cases rule: timed_copy_unfold)
    case (recv_fails e)
    from recv_fails(1) show ?thesis
      using recv_fails(2,3) one [of "[]"] none [of "[Inl TimeoutErr]"]
      by (cases rule: timed_recv_after) (auto simp: copy_fails_def)
  next
    case (send_fails d n e)
    from send_fails(1) show ?thesis
      using send_fails(2,4,5) one [of "[Some e]"] by (cases rule: timed_recv_after) (auto simp: copy_fails_def)
  next
    case eof
    from eof(1) show ?thesis
      using eof(2,3) one [of "[]"] by (cases rule: timed_recv_after) auto
  next
    case (copies at d rest n n' out')
    then obtain k late sends' where "copy (map snd (take k rest) @ late) sends' = (st, out')"
      "set late \<subseteq> {Inl TimeoutErr}" using 1(1) by force
    then show ?thesis
      using copies by (intro exI [of _ "Suc k"] exI [of _ late] exI [of _ "None # sends'"]) simp
  qed (use none [of "[]"] in auto)
qed

lemma copy_prefix:
  "set late \<subseteq> {Inl e} \<Longrightarrow> prefix (snd (copy (map snd (take n rx) @ late) sends)) (rx_stream rx)"
proof (induction rx arbitrary: n sends)
  case Nil
  then show ?case by (cases late) auto
next
  case (Cons x rx)
  show ?case
  proof (cases n)
    case 0
    then show ?thesis using Cons.prems by (cases late) auto
  next
    case (Suc k)
    then show ?thesis
      using Cons.IH [OF Cons.prems, of k]
      by (cases x; cases "snd x"; cases sends)
         (auto split: option.splits prod.splits simp: prefix_def, (metis snd_conv)+)
  qed
qed

lemma timed_copy_prefix: "timed_copy src dst now rx sends = (st, out, t) \<Longrightarrow> prefix out (rx_stream rx)"
  using timed_copy_refines copy_prefix by (metis snd_conv)

text \<open>So what is shown of \<open>splice\<close>, whatever its sockets do, holds with any timeouts.\<close>

lemma timed_splice_refines:
  assumes "timed_splice idle ab now P = (st, (up, t1), (down, t2))" "cn_up c \<noteq> None"
  shows "\<exists>E rx sends. splice E (c\<lparr>cn_rx := rx, cn_sends := sends\<rparr>) =
    (st, cn_note (LSpliced up down) (c\<lparr>cn_rx := rx, cn_sends := sends\<rparr>))"
proof -
  obtain a b where ab: "idle_timeouts idle ab = (a, b)" by fastforce
  obtain s1 s2 where
    c: "timed_copy a b now (pe_down_rx P) (pe_up_sends P) = (s1, up, t1)"
      "timed_copy b a now (pe_up_rx P) (pe_down_sends P) = (s2, down, t2)" "st = splice_end s1 s2"
    using assms(1) ab by (auto simp: timed_splice_def split: prod.splits)
  obtain rx us ux sends where u: "copy rx us = (s1, up)" "copy ux sends = (s2, down)"
    using timed_copy_refines [OF c(1)] timed_copy_refines [OF c(2)] by blast
  show ?thesis
    using u assms(2) c(3)
    by (intro exI [of _ "\<lparr>re_pipe = \<lambda>_. None, re_up_rx = ux, re_up_sends = us, re_up_closing = [],
          re_down_closing = []\<rparr>"] exI [of _ rx] exI [of _ sends]) (auto simp: splice_def)
qed

section \<open>How long a copy takes\<close>

text \<open>With timeouts on both sockets each read and each write ends.\<close>

lemma timed_copy_ends:
  "timed_copy (Some T) (Some U) now rx sends = (st, out, t) \<Longrightarrow> 0 \<le> T \<Longrightarrow> 0 \<le> U \<Longrightarrow>
     st \<noteq> CopyBlocked \<and> t \<le> now + T + int (length rx) * (T + U)"
proof (induction rx arbitrary: now sends out)
  case Nil
  from Nil(1) show ?case
    using Nil(2,3) by (cases rule: timed_copy_unfold) (auto simp: timed_recv_def copy_fails_def)
next
  case (Cons x rx)
  have r: "n \<le> now + T" if "timed_recv (Some T) now (x # rx) = After n m" for n m
    using that Cons.prems(2) by (auto simp: timed_recv_def split: prod.splits if_splits)
  have nn: "0 \<le> int (length rx) * (T + U)" using Cons.prems(2,3) by simp
  have d: "int (length (x # rx)) * (T + U) = (T + U) + int (length rx) * (T + U)"
    by (simp add: algebra_simps)
  have le: "y \<le> now + T + int (length (x # rx)) * (T + U)" if "y \<le> now + T" for y
    using that nn Cons.prems(2,3) unfolding d by linarith
  from Cons.prems(1) show ?case
  proof (cases rule: timed_copy_unfold)
    case (copies at d rest n n' out')
    have "n' \<le> n + U" using copies(4) timed_sendall_after(2) by blast
    then show ?thesis
      using Cons.IH [of n'] copies Cons.prems(2,3) r [OF copies(3)] unfolding d by force
  next
    case (send_fails d n e)
    have "t \<le> now + T + int (length (x # rx)) * (T + U)"
      using r [OF send_fails(1)] timed_sendall_after(2) [OF send_fails(3)] nn Cons.prems(2,3)
      unfolding d by linarith
    then show ?thesis using send_fails(4) by (simp add: copy_fails_def)
  next
    case (recv_fails e)
    then show ?thesis using le [OF r [OF recv_fails(1)]] by (simp add: copy_fails_def)
  next
    case eof
    then show ?thesis using le [OF r [OF eof(1)]] by simp
  qed (use timed_sendall_after(1) in auto)
qed

text \<open>Chunks none of which comes later than \<open>T\<close> after the one before it; when the last was read.\<close>

fun paced :: "int \<Rightarrow> int \<Rightarrow> (int \<times> bytes) list \<Rightarrow> bool" where
  "paced T now [] = True"
| "paced T now ((at, d) # r) \<longleftrightarrow> d \<noteq> [] \<and> at \<le> now + T \<and> paced T (max now at) r"

fun paced_end :: "int \<Rightarrow> (int \<times> bytes) list \<Rightarrow> int" where
  "paced_end now [] = now"
| "paced_end now ((at, d) # r) = paced_end (max now at) r"

fun overdue :: "int \<Rightarrow> arrivals \<Rightarrow> bool" where
  "overdue t [] = True"
| "overdue t ((at, m) # r) \<longleftrightarrow> t < at"

definition chunks :: "(int \<times> bytes) list \<Rightarrow> arrivals" where
  "chunks ds = map (\<lambda>(at, d). (at, Inr d)) ds"

text \<open>A source that falls silent for longer than its socket's timeout is given up.\<close>

lemma timed_copy_gives_up:
  assumes "dst = None \<or> (\<exists>U. dst = Some U \<and> 0 \<le> U)"
  shows "paced T now ds \<Longrightarrow> overdue (paced_end now ds + T) rest \<Longrightarrow>
    timed_copy (Some T) dst now (chunks ds @ rest) [] =
      (CopyDone, concat (map snd ds), paced_end now ds + T)"
proof (induction ds arbitrary: now)
  case Nil
  then show ?case
    by (subst timed_copy.simps) (cases rest; auto simp: chunks_def timed_recv_def copy_fails_def)
next
  case (Cons x ds)
  obtain at d where x: "x = (at, d)" by (cases x)
  have "timed_sendall dst n (next_send []) = After n None" for n
    using assms timed_sendall_after(3,4) by auto
  then show ?case
    using Cons.IH [of "max now at"] Cons.prems x
    by (subst timed_copy.simps) (auto simp: chunks_def timed_recv_def)
qed

section \<open>Properties\<close>

text \<open>C17. A relay with a \<^verbatim>\<open>relay_timeout\<close> pins no thread: however its peers behave, also when
  they are silent or accept nothing for ever, both copies have ended after one timeout for each
  read and each write that its source gives occasion to, and what was delivered is a front part of
  what the source sent.\<close>

theorem relay_timeout_frees:
  assumes "so_relay_timeout so = Some T" "0 < T"
    and "server_splice so now P = (st, (up, t1), (down, t2))"
  shows "st \<noteq> SBlocked \<and>
    t1 \<le> now + (2 * int (length (pe_down_rx P)) + 1) * T \<and> prefix up (rx_stream (pe_down_rx P)) \<and>
    t2 \<le> now + (2 * int (length (pe_up_rx P)) + 1) * T \<and> prefix down (rx_stream (pe_up_rx P))"
proof -
  obtain s1 s2 where
    c: "timed_copy (Some T) (Some T) now (pe_down_rx P) (pe_up_sends P) = (s1, up, t1)"
      "timed_copy (Some T) (Some T) now (pe_up_rx P) (pe_down_sends P) = (s2, down, t2)"
      "st = splice_end s1 s2"
    using assms(1,3) by (auto simp: server_splice_def timed_splice_def idle_timeouts_def split: prod.splits)
  have "st \<noteq> SBlocked"
    using c(3) timed_copy_ends [OF c(1)] timed_copy_ends [OF c(2)] assms(2)
    by (auto simp: splice_end_def split: copy_end.splits)
  then show ?thesis
    using timed_copy_ends [OF c(1)] timed_copy_ends [OF c(2)] timed_copy_prefix [OF c(1)]
      timed_copy_prefix [OF c(2)] assms(2)
    by (simp add: algebra_simps)
qed

text \<open>A client that stays silent and an upstream that accepts nothing, under a timeout of 5.\<close>

definition demo_server :: "int option \<Rightarrow> (unit, unit) server_obj" where
  "demo_server relay_timeout = server_new 10 relay_timeout"

definition stuck_peers :: peers where
  "stuck_peers = \<lparr>pe_down_rx = [(1, Inr [1, 2])], pe_up_sends = [(None, None)], pe_up_rx = [],
     pe_down_sends = []\<rparr>"

theorem relay_timeout_frees_witness:
  "server_splice (demo_server (Some 5)) 0 stuck_peers = (SReturn, ([], 6), ([], 5)) \<and>
     (6::int) \<le> 0 + (2 * int (length (pe_down_rx stuck_peers)) + 1) * 5"
proof -
  have x: "server_splice (demo_server (Some 5)) 0 stuck_peers = (SReturn, ([], 6), ([], 5))" by code_simp
  have "so_relay_timeout (demo_server (Some 5)) = Some 5" by (simp add: demo_server_def server_new_def)
  from relay_timeout_frees [OF this _ x] x show ?thesis by simp
qed

text \<open>C16. Neither is silence told from the end of a stream: an upstream that is silent for longer
  than \<^verbatim>\<open>relay_timeout\<close>, or without one for longer than \<^verbatim>\<open>connect_timeout\<close>, which the dial left on
  its socket, is given up. The client has then got what came before, and gets nothing of what the
  upstream sends later, whatever the client sends meanwhile (its socket takes each write at once); and without a \<^verbatim>\<open>relay_timeout\<close> a silent
  client keeps the thread for ever all the same.\<close>

theorem relay_gives_up_upstream:
  assumes "T = (case so_relay_timeout so of None \<Rightarrow> so_connect_timeout so | Some t \<Rightarrow> t)" "0 < T"
    and "pe_up_rx P = chunks ds @ rest" "paced T now ds" "overdue (paced_end now ds + T) rest"
    and "pe_down_sends P = []"
  shows "\<exists>st up. server_splice so now P = (st, up, (concat (map snd ds), paced_end now ds + T)) \<and>
    (so_relay_timeout so = None \<and> pe_down_rx P = [] \<longrightarrow> st = SBlocked)"
proof (cases "so_relay_timeout so")
  case None
  then show ?thesis
    using assms timed_copy_gives_up [of None T now ds rest]
    by (auto simp: server_splice_def timed_splice_def idle_timeouts_def relay_sockets_def splice_end_def
        timed_copy.simps [of None _ _ "[]"] timed_recv_def split: prod.splits)
next
  case (Some t)
  then show ?thesis
    using assms timed_copy_gives_up [of "Some T" T now ds rest]
    by (auto simp: server_splice_def timed_splice_def idle_timeouts_def split: prod.splits)
qed

text \<open>No \<^verbatim>\<open>relay_timeout\<close>, a dial timeout of 10, and an answer that takes 11.\<close>

definition slow_peers :: peers where
  "slow_peers = \<lparr>pe_down_rx = [], pe_up_sends = [],
     pe_up_rx = [(1, Inr [7]), (12, Inr [8, 9]), (13, Inr [])], pe_down_sends = []\<rparr>"

theorem relay_gives_up_upstream_witness:
  "\<exists>st up. server_splice (demo_server None) 0 slow_peers = (st, up, ([7], 11)) \<and> st = SBlocked"
proof -
  have "10 = (case so_relay_timeout (demo_server None) of
      None \<Rightarrow> so_connect_timeout (demo_server None) | Some t \<Rightarrow> t)"
    "so_relay_timeout (demo_server None) = None" "pe_down_rx slow_peers = []"
    "pe_up_rx slow_peers = chunks [(1, [7])] @ [(12, Inr [8, 9]), (13, Inr [])]"
    "pe_down_sends slow_peers = []"
    by (simp_all add: demo_server_def server_new_def slow_peers_def chunks_def)
  from relay_gives_up_upstream [OF this(1) _ this(4) _ _ this(5), of 0] this(2,3) show ?thesis by simp
qed

end
