(* ===== verification/DialTimes.thy ===== *)
theory DialTimes
  imports ServerSetup
begin

text \<open>
  The two \<^verbatim>\<open>_dial\<close> methods with their clock. A name resolves to addresses, and each address takes a
  time to accept or refuse, or never does. \<^verbatim>\<open>socket.create_connection\<close>, which the threaded server
  calls, gives its timeout to each address in turn; the asyncio server puts one timeout around
  \<^verbatim>\<open>asyncio.open_connection\<close> as a whole. Both library functions are modelled as documented, with the
  exception they raise when every address failed.
\<close>

section \<open>Resolution and attempts\<close>

text \<open>An attempt on one address: when it is decided, if ever, and how; \<open>at_text\<close> is the text of the failure.\<close>

record attempt =
  at_time :: "nat option"
  at_result :: "py_exn + pystr \<times> int"
  at_text :: string

record resolution =
  rs_time :: nat
  rs_attempts :: "py_exn + attempt list"

text \<open>What \<^verbatim>\<open>getaddrinfo\<close> gives for a target.\<close>

type_synonym network = "(pystr \<times> int) option \<Rightarrow> resolution"

text \<open>An \<^verbatim>\<open>OSError\<close> that was made from a text has no \<^verbatim>\<open>errno\<close>.\<close>

definition plain_os_error :: py_exn where
  "plain_os_error = OSErr 0"

section \<open>The threaded dial\<close>

definition connect_once :: "int \<Rightarrow> attempt \<Rightarrow> int \<times> (py_exn + pystr \<times> int)" where
  "connect_once timeout a =
     (case at_time a of
        None \<Rightarrow> (timeout, Inl TimeoutErr)
      | Some d \<Rightarrow> if int d > timeout then (timeout, Inl TimeoutErr) else (int d, at_result a))"

text \<open>The addresses in turn; when all have failed, the last failure is raised.\<close>

fun connect_each :: "int \<Rightarrow> py_exn \<Rightarrow> attempt list \<Rightarrow> int \<times> (py_exn + pystr \<times> int)" where
  "connect_each timeout failure [] = (0, Inl failure)"
| "connect_each timeout failure (a # rest) =
     (case connect_once timeout a of
        (d, Inr s) \<Rightarrow> (d, Inr s)
      | (d, Inl e) \<Rightarrow>
          if is_os_error e then (let (d', r) = connect_each timeout e rest in (d + d', r)) else (d, Inl e))"

definition create_connection :: "int \<Rightarrow> resolution \<Rightarrow> int \<times> (py_exn + pystr \<times> int)" where
  "create_connection timeout R =
     (case rs_attempts R of
        Inl e \<Rightarrow> (int (rs_time R), Inl e)
      | Inr as \<Rightarrow> (let (d, r) = connect_each timeout plain_os_error as in (int (rs_time R) + d, r)))"

text \<open>\<^verbatim>\<open>Server._dial\<close>: how long it takes, and the decision on the session and the socket it returns.\<close>

type_synonym ('c, 'p) dialling = "int \<times> (py_exn + ('c, 'p) decision \<times> (pystr \<times> int) option)"

definition threaded_dial :: "int \<Rightarrow> network \<Rightarrow> (pystr \<times> int) option \<Rightarrow> ('c, 'p) dialling" where
  "threaded_dial connect_timeout net target =
     (let (d, r) = create_connection connect_timeout (net target) in
      (d, case r of
            Inr (host, port) \<Rightarrow> Inr (DConnected host port, Some (host, port))
          | Inl e \<Rightarrow>
              if e = ConnRefusedErr then Inr (DConnectFailed (rep_value CONN_REFUSED), None)
              else if e = TimeoutErr then Inr (DConnectFailed (rep_value TTL_EXPIRED), None)
              else if is_os_error e then
                Inr (DConnectFailed (if e = OSErr enetunreach then rep_value NET_UNREACHABLE
                                     else rep_value HOST_UNREACHABLE), None)
              else Inl e))"

section \<open>The asyncio dial\<close>

text \<open>
  When every address failed: the exception of the first, if all have the same text, else a new one
  that lists the texts.
\<close>

definition combined_error :: "attempt list \<Rightarrow> py_exn" where
  "combined_error failed =
     (case failed of
        [] \<Rightarrow> plain_os_error
      | a # rest \<Rightarrow>
          if list_all (\<lambda>b. at_text b = at_text a) rest then (case at_result a of Inl e \<Rightarrow> e | Inr _ \<Rightarrow> plain_os_error)
          else plain_os_error)"

fun open_each :: "attempt list \<Rightarrow> attempt list \<Rightarrow> (nat \<times> (py_exn + pystr \<times> int)) option" where
  "open_each failed [] = Some (0, Inl (combined_error failed))"
| "open_each failed (a # rest) =
     (case at_time a of
        None \<Rightarrow> None
      | Some d \<Rightarrow>
          (case at_result a of
             Inr s \<Rightarrow> Some (d, Inr s)
           | Inl e \<Rightarrow>
               if is_os_error e then map_option (map_prod (\<lambda>d'. d + d') id) (open_each (failed @ [a]) rest)
               else Some (d, Inl e)))"

definition open_connection :: "resolution \<Rightarrow> (nat \<times> (py_exn + pystr \<times> int)) option" where
  "open_connection R =
     (case rs_attempts R of
        Inl e \<Rightarrow> Some (rs_time R, Inl e)
      | Inr as \<Rightarrow> map_option (map_prod (\<lambda>d. rs_time R + d) id) (open_each [] as))"

definition wait_for :: "int \<Rightarrow> (nat \<times> (py_exn + 'a)) option \<Rightarrow> int \<times> (py_exn + 'a)" where
  "wait_for timeout x =
     (case x of
        None \<Rightarrow> (timeout, Inl TimeoutErr)
      | Some (d, r) \<Rightarrow> if int d > timeout then (timeout, Inl TimeoutErr) else (int d, r))"

definition async_dial :: "int \<Rightarrow> network \<Rightarrow> (pystr \<times> int) option \<Rightarrow> ('c, 'p) dialling" where
  "async_dial connect_timeout net target =
     (let (d, r) = wait_for connect_timeout (open_connection (net target)) in
      (d, case r of
            Inr (host, port) \<Rightarrow> Inr (DConnected host port, Some (host, port))
          | Inl e \<Rightarrow>
              if e = ConnRefusedErr then Inr (DConnectFailed (rep_value CONN_REFUSED), None)
              else if e = TimeoutErr then Inr (DConnectFailed (rep_value TTL_EXPIRED), None)
              else if is_os_error e then
                Inr (DConnectFailed (if e = OSErr enetunreach then rep_value NET_UNREACHABLE
                                     else rep_value HOST_UNREACHABLE), None)
              else Inl e))"

section \<open>The dials as the drivers run them\<close>

text \<open>A driver's \<open>dial_target\<close> over the results of either library function is that dial.\<close>

definition run_dialling :: "('c, 'p) dialling \<Rightarrow> ('c, 'p) conn \<Rightarrow> stop option \<times> ('c, 'p) conn" where
  "run_dialling x c =
     (case snd x of
        Inr (decision, up) \<Rightarrow> (None, cn_decide [decision] (c\<lparr>cn_up := up\<rparr>))
      | Inl e \<Rightarrow> (Some (SRaise e), c))"

lemma dial_target_threaded:
  "dial_target (\<lambda>tg. snd (create_connection t (net tg))) c =
     run_dialling (threaded_dial t net (sv_target (cn_sess c)))
       (cn_note (LDial (sv_target (cn_sess c)) (snd (create_connection t (net (sv_target (cn_sess c)))))) c)"
  by (auto simp: dial_target_def threaded_dial_def run_dialling_def dial_rep_def Let_def
      split: sum.splits prod.splits)

lemma dial_target_async:
  "dial_target (\<lambda>tg. snd (wait_for t (open_connection (net tg)))) c =
     run_dialling (async_dial t net (sv_target (cn_sess c)))
       (cn_note (LDial (sv_target (cn_sess c)) (snd (wait_for t (open_connection (net (sv_target (cn_sess c))))))) c)"
  by (auto simp: dial_target_def async_dial_def run_dialling_def dial_rep_def Let_def
      split: sum.splits prod.splits)

section \<open>How long a dial takes\<close>

definition addresses :: "resolution \<Rightarrow> nat" where
  "addresses R = (case rs_attempts R of Inl e \<Rightarrow> 0 | Inr as \<Rightarrow> length as)"

lemma connect_once_time: "0 \<le> t \<Longrightarrow> 0 \<le> fst (connect_once t a) \<and> fst (connect_once t a) \<le> t"
  by (auto simp: connect_once_def split: option.splits)

lemma connect_each_time:
  "0 \<le> t \<Longrightarrow> connect_each t e as = (d, r) \<Longrightarrow> 0 \<le> d \<and> d \<le> int (length as) * t"
proof (induction as arbitrary: e d r)
  case (Cons a as)
  obtain x q where x: "connect_once t a = (x, q)" by fastforce
  obtain y z where y: "connect_each t (case q of Inl e' \<Rightarrow> e' | Inr _ \<Rightarrow> e) as = (y, z)" by fastforce
  have "0 \<le> y \<and> y \<le> int (length as) * t" by (rule Cons.IH [OF Cons.prems(1) y])
  moreover have "0 \<le> x \<and> x \<le> t" using connect_once_time [OF Cons.prems(1), of a] x by simp
  moreover have "d = x \<or> d = x + y"
    using Cons.prems(2) x y by (auto split: sum.splits if_splits)
  moreover have "int (length (a # as)) * t = t + int (length as) * t" by (simp add: algebra_simps)
  ultimately show ?case by linarith
qed simp

lemma connect_each_silent:
  "list_all (\<lambda>a. at_time a = None) as \<Longrightarrow> as \<noteq> [] \<Longrightarrow>
     connect_each t e as = (int (length as) * t, Inl TimeoutErr)"
proof (induction as arbitrary: e)
  case (Cons a as)
  then show ?case by (cases "as = []") (auto simp: connect_once_def algebra_simps)
qed simp

lemma open_each_silent: "list_all (\<lambda>a. at_time a = None) as \<Longrightarrow> as \<noteq> [] \<Longrightarrow> open_each es as = None"
  by (cases as) auto

section \<open>Addresses that all refuse\<close>

definition refuses :: "attempt \<Rightarrow> bool" where
  "refuses a \<longleftrightarrow> at_time a \<noteq> None \<and> at_result a = Inl ConnRefusedErr"

definition attempts_time :: "attempt list \<Rightarrow> nat" where
  "attempts_time as = sum_list (map (\<lambda>a. case at_time a of None \<Rightarrow> 0 | Some d \<Rightarrow> d) as)"

lemma attempts_time_Cons [simp]:
  "attempts_time [] = 0"
  "attempts_time (a # as) = (case at_time a of None \<Rightarrow> 0 | Some d \<Rightarrow> d) + attempts_time as"
  by (simp_all add: attempts_time_def)

lemma connect_each_refused:
  "list_all refuses as \<Longrightarrow> as \<noteq> [] \<Longrightarrow> int (attempts_time as) \<le> t \<Longrightarrow>
     connect_each t e as = (int (attempts_time as), Inl ConnRefusedErr)"
proof (induction as arbitrary: e)
  case (Cons a as)
  then obtain d where "at_time a = Some d" "at_result a = Inl ConnRefusedErr" by (auto simp: refuses_def)
  then show ?case using Cons by (cases "as = []") (auto simp: connect_once_def)
qed simp

lemma open_each_refused:
  "list_all refuses as \<Longrightarrow> open_each es as = Some (attempts_time as, Inl (combined_error (es @ as)))"
proof (induction as arbitrary: es)
  case (Cons a as)
  then obtain d where "at_time a = Some d" "at_result a = Inl ConnRefusedErr" by (auto simp: refuses_def)
  then show ?case using Cons.IH [of "es @ [a]"] Cons.prems by simp
qed simp

section \<open>Properties\<close>

text \<open>C37. How long a dial keeps its handler: the asyncio server's has ended at \<^verbatim>\<open>connect_timeout\<close>,
  resolution included, while the threaded server's may take that long for each address, on top of
  the resolution. When all addresses of a name are silent it takes exactly so long; the client is
  told the same by both.\<close>

theorem dial_time:
  assumes "0 < t" "threaded_dial t net tg = (d1, q1)" "async_dial t net tg = (d2, q2)"
  shows "d2 \<le> t \<and> d1 \<le> int (rs_time (net tg)) + int (addresses (net tg)) * t \<and>
    (\<forall>as. rs_attempts (net tg) = Inr as \<longrightarrow> as \<noteq> [] \<longrightarrow> list_all (\<lambda>a. at_time a = None) as \<longrightarrow>
      d1 = int (rs_time (net tg)) + int (length as) * t \<and> d2 = t \<and>
      q1 = Inr (DConnectFailed (rep_value TTL_EXPIRED), None) \<and> q2 = q1)"
proof (intro conjI allI impI)
  show "d2 \<le> t"
    using assms(1,3) by (auto simp: async_dial_def wait_for_def Let_def split: option.splits prod.splits if_splits)
  show "d1 \<le> int (rs_time (net tg)) + int (addresses (net tg)) * t"
    using assms(1,2) connect_each_time [of t]
    by (fastforce simp: threaded_dial_def create_connection_def addresses_def Let_def
        split: sum.splits prod.splits)
next
  fix as assume as: "rs_attempts (net tg) = Inr as" "as \<noteq> []" "list_all (\<lambda>a. at_time a = None) as"
  have c: "create_connection t (net tg) = (int (rs_time (net tg)) + int (length as) * t, Inl TimeoutErr)"
    using connect_each_silent [OF as(3,2)] as(1) by (simp add: create_connection_def)
  have o': "wait_for t (open_connection (net tg)) = (t, Inl TimeoutErr)"
    using open_each_silent [OF as(3,2)] as(1) by (simp add: open_connection_def wait_for_def)
  show "d1 = int (rs_time (net tg)) + int (length as) * t" "d2 = t"
    "q1 = Inr (DConnectFailed (rep_value TTL_EXPIRED), None)" "q2 = q1"
    using assms(2,3) c o' by (auto simp: threaded_dial_def async_dial_def)
qed

definition silent_net :: network where
  "silent_net tg = \<lparr>rs_time = 2, rs_attempts =
     Inr (replicate 3 \<lparr>at_time = None, at_result = Inl TimeoutErr, at_text = ''timed out''\<rparr>)\<rparr>"

theorem dial_time_witness:
  "(threaded_dial 10 silent_net None :: (unit, unit) dialling) =
      (32, Inr (DConnectFailed (rep_value TTL_EXPIRED), None)) \<and>
    fst (async_dial 10 silent_net None :: (unit, unit) dialling) = 10"
proof -
  obtain d1 q1 d2 q2 where x: "(threaded_dial 10 silent_net None :: (unit, unit) dialling) = (d1, q1)"
    "(async_dial 10 silent_net None :: (unit, unit) dialling) = (d2, q2)" by fastforce
  from dial_time [OF _ x] x show ?thesis by (simp add: silent_net_def list_all_iff)
qed

text \<open>C38. What the client of a host that refuses on every address is told: where the resolution of the
  name and the refusals together fit in the timeout, the threaded server always answers \<^verbatim>\<open>CONN_REFUSED\<close>; the asyncio server does only when the failures of all addresses read the
  same, and else \<^verbatim>\<open>HOST_UNREACHABLE\<close>, since its library then raises an exception of another class.
  With one address the two agree.\<close>

theorem dial_refused_reply:
  assumes "rs_attempts (net tg) = Inr as" "as \<noteq> []" "list_all refuses as"
    and "int (rs_time (net tg) + attempts_time as) \<le> t"
  shows "threaded_dial t net tg =
      (int (rs_time (net tg) + attempts_time as), Inr (DConnectFailed (rep_value CONN_REFUSED), None)) \<and>
    async_dial t net tg =
      (int (rs_time (net tg) + attempts_time as),
       Inr (DConnectFailed (if list_all (\<lambda>a. at_text a = at_text (hd as)) as then rep_value CONN_REFUSED
                            else rep_value HOST_UNREACHABLE), None))"
proof -
  have c: "create_connection t (net tg) = (int (rs_time (net tg) + attempts_time as), Inl ConnRefusedErr)"
    using connect_each_refused [OF assms(3,2), of t] assms(1,4) by (simp add: create_connection_def)
  have o': "wait_for t (open_connection (net tg)) =
      (int (rs_time (net tg) + attempts_time as), Inl (combined_error as))"
    using open_each_refused [OF assms(3), of "[]"] assms(1,4) by (simp add: open_connection_def wait_for_def)
  have e: "combined_error as =
      (if list_all (\<lambda>a. at_text a = at_text (hd as)) as then ConnRefusedErr else plain_os_error)"
    using assms(2,3) by (cases as) (auto simp: combined_error_def refuses_def)
  show ?thesis
    using c o' e by (auto simp: threaded_dial_def async_dial_def plain_os_error_def enetunreach_def)
qed

text \<open>\<^verbatim>\<open>localhost\<close>, with an address of each family.\<close>

definition refusing_net :: network where
  "refusing_net tg = \<lparr>rs_time = 0, rs_attempts = Inr
     [\<lparr>at_time = Some 1, at_result = Inl ConnRefusedErr, at_text = ''[Errno 111] Connect call failed (::1, 81, 0, 0)''\<rparr>,
      \<lparr>at_time = Some 1, at_result = Inl ConnRefusedErr, at_text = ''[Errno 111] Connect call failed (127.0.0.1, 81)''\<rparr>]\<rparr>"

theorem dial_refused_reply_witness:
  "(threaded_dial 10 refusing_net None :: (unit, unit) dialling) =
      (2, Inr (DConnectFailed (rep_value CONN_REFUSED), None)) \<and>
    (async_dial 10 refusing_net None :: (unit, unit) dialling) =
      (2, Inr (DConnectFailed (rep_value HOST_UNREACHABLE), None))"
proof -
  obtain as where as: "rs_attempts (refusing_net None) = Inr as" "as \<noteq> []" "list_all refuses as"
    "attempts_time as = 2" "\<not> list_all (\<lambda>a. at_text a = at_text (hd as)) as"
    by (simp add: refusing_net_def refuses_def)
  have "int (rs_time (refusing_net None) + attempts_time as) \<le> 10" "rs_time (refusing_net None) = 0"
    using as(4) by (simp_all add: refusing_net_def)
  from dial_refused_reply [of refusing_net None, OF as(1-3) this(1)] as(4,5) this(2) show ?thesis by simp
qed

end
