(* ===== verification/MeteredServer.thy ===== *)
theory MeteredServer
  imports ServerDriver
begin

text \<open>
  \<^verbatim>\<open>examples/server_metered.py\<close>: hooks that check a login, block a destination and install a relay
  that counts the bytes of a user. The relay's two threads share the counter, so they are modelled
  by their atomic steps, in any interleaving: the calls on the sockets, taking and releasing the
  lock of the counter, and the load and the store that \<^verbatim>\<open>self._n += n\<close> is made of.
\<close>

section \<open>The context of a session\<close>

text \<open>\<open>mc_counter\<close> is the number that the counter of the context holds, once it was made.\<close>

record metered_ctx =
  mc_user :: int
  mc_counter :: "nat option"

definition ctx_counter :: "metered_ctx \<Rightarrow> nat \<times> metered_ctx" where
  "ctx_counter x =
     (case mc_counter x of
        None \<Rightarrow> (0, x\<lparr>mc_counter := Some 0\<rparr>)
      | Some n \<Rightarrow> (n, x))"

section \<open>Hooks\<close>

datatype metered_pipe = MeteredPipe

definition db_get :: "pystr \<Rightarrow> pystr \<Rightarrow> int option" where
  "db_get username password =
     (if (username, password) = (py_lit ''alice'', py_lit ''pw'') then Some 42 else None)"

text \<open>\<^verbatim>\<open>username or ""\<close>\<close>

definition or_empty :: "pystr option \<Rightarrow> pystr" where
  "or_empty s = (case s of None \<Rightarrow> [] | Some t \<Rightarrow> t)"

type_synonym metered_session = "(metered_ctx, metered_pipe) server_session"

definition metered_authorize ::
  "metered_session \<Rightarrow> pystr option \<Rightarrow> pystr option \<Rightarrow> (metered_ctx, metered_pipe) hook_run" where
  "metered_authorize s username password =
     (case db_get (or_empty username) (or_empty password) of
        None \<Rightarrow> ([DReject (rep_value NOT_ALLOWED)], False)
      | Some uid \<Rightarrow> ([DOk (Some \<lparr>mc_user = uid, mc_counter = None\<rparr>)], False))"

definition metadata_host :: pystr where
  "metadata_host = py_lit ''169.254.169.254''"

definition metered_on_connect ::
  "metered_session \<Rightarrow> pystr \<Rightarrow> int \<Rightarrow> (metered_ctx, metered_pipe) hook_run" where
  "metered_on_connect s host port =
     (if host \<in> {metadata_host} then ([DReject (rep_value NOT_ALLOWED)], False)
      else ([DPipe (Some MeteredPipe)], False))"

text \<open>What \<^verbatim>\<open>on_disconnect\<close> prints: the user and the bytes, for a session that logged in.\<close>

definition disconnect_line :: "metered_session \<Rightarrow> (int \<times> nat) option" where
  "disconnect_line s =
     (case sv_ctx s of None \<Rightarrow> None | Some x \<Rightarrow> Some (mc_user x, fst (ctx_counter x)))"

definition metered_hooks :: "(metered_ctx, metered_pipe) server_hooks" where
  "metered_hooks = \<lparr>hk_authorize = Some metered_authorize, hk_on_connect = Some metered_on_connect,
     hk_on_disconnect = Some (\<lambda>s. False)\<rparr>"

section \<open>The relay\<close>

text \<open>The two copies: in a thread from the client to the upstream, in the handler the other way.\<close>

datatype side = ToUp | ToDown

text \<open>
  Where a copy is. Its chunk travels with it; \<open>CStore\<close> also holds the number it loaded, and
  \<open>CShut\<close> how the loop ended.
\<close>

datatype copy_phase =
    CRecv
  | CAcquire bytes
  | CLoad bytes
  | CStore bytes nat
  | CRelease bytes
  | CSend bytes
  | CShut copy_end
  | CEnded copy_end

text \<open>\<open>cp_read\<close> and \<open>cp_out\<close> record how many bytes were read and what was delivered.\<close>

record copier =
  cp_phase :: copy_phase
  cp_rx :: "(py_exn + bytes) list"
  cp_sends :: "py_exn option list"
  cp_read :: nat
  cp_out :: bytes

record meter =
  mt_n :: nat
  mt_lock :: "side option"
  mt_copier :: "side \<Rightarrow> copier"

definition copier_init :: "(py_exn + bytes) list \<Rightarrow> py_exn option list \<Rightarrow> copier" where
  "copier_init rx sends = \<lparr>cp_phase = CRecv, cp_rx = rx, cp_sends = sends, cp_read = 0, cp_out = []\<rparr>"

definition meter_start ::
  "nat \<Rightarrow> (py_exn + bytes) list \<Rightarrow> py_exn option list \<Rightarrow> (py_exn + bytes) list \<Rightarrow> py_exn option list \<Rightarrow> meter" where
  "meter_start n down_rx up_sends up_rx down_sends =
     \<lparr>mt_n = n, mt_lock = None,
      mt_copier = (\<lambda>i. case i of ToUp \<Rightarrow> copier_init down_rx up_sends | ToDown \<Rightarrow> copier_init up_rx down_sends)\<rparr>"

definition set_copier :: "side \<Rightarrow> copier \<Rightarrow> meter \<Rightarrow> meter" where
  "set_copier i c m = m\<lparr>mt_copier := (mt_copier m)(i := c)\<rparr>"

text \<open>How an exception of \<^verbatim>\<open>recv\<close> or \<^verbatim>\<open>sendall\<close> ends the loop of a copy.\<close>

definition copy_raised :: "py_exn \<Rightarrow> copy_phase" where
  "copy_raised e = CShut (if is_os_error e then CopyDone else CopyRaised e)"

text \<open>The steps of \<^verbatim>\<open>counter.incr(len(data))\<close>.\<close>

definition incr_step :: "side \<Rightarrow> copier \<Rightarrow> meter \<Rightarrow> meter option" where
  "incr_step i c m =
     (case cp_phase c of
        CAcquire data \<Rightarrow>
          (if mt_lock m = None
           then Some (set_copier i (c\<lparr>cp_phase := CLoad data\<rparr>) (m\<lparr>mt_lock := Some i\<rparr>))
           else None)
      | CLoad data \<Rightarrow> Some (set_copier i (c\<lparr>cp_phase := CStore data (mt_n m)\<rparr>) m)
      | CStore data n \<Rightarrow>
          Some (set_copier i (c\<lparr>cp_phase := CRelease data\<rparr>) (m\<lparr>mt_n := n + length data\<rparr>))
      | CRelease data \<Rightarrow> Some (set_copier i (c\<lparr>cp_phase := CSend data\<rparr>) (m\<lparr>mt_lock := None\<rparr>))
      | _ \<Rightarrow> None)"

text \<open>One step of one copy; \<open>None\<close> if it has ended, or waits for a chunk or for the lock.\<close>

definition copier_step :: "side \<Rightarrow> meter \<Rightarrow> meter option" where
  "copier_step i m =
     (let c = mt_copier m i in
      case cp_phase c of
        CRecv \<Rightarrow>
          (case cp_rx c of
             [] \<Rightarrow> None
           | Inl e # r \<Rightarrow> Some (set_copier i (c\<lparr>cp_rx := r, cp_phase := copy_raised e\<rparr>) m)
           | Inr data # r \<Rightarrow>
               if data = [] then Some (set_copier i (c\<lparr>cp_rx := r, cp_phase := CShut CopyDone\<rparr>) m)
               else Some (set_copier i (c\<lparr>cp_rx := r, cp_phase := CAcquire data,
                                           cp_read := cp_read c + length data\<rparr>) m))
      | CSend data \<Rightarrow>
          (case cp_sends c of
             Some e # r \<Rightarrow> Some (set_copier i (c\<lparr>cp_sends := r, cp_phase := copy_raised e\<rparr>) m)
           | r \<Rightarrow> Some (set_copier i (c\<lparr>cp_sends := drop 1 r, cp_phase := CRecv,
                                       cp_out := cp_out c @ data\<rparr>) m))
      | CShut st \<Rightarrow> Some (set_copier i (c\<lparr>cp_phase := CEnded st\<rparr>) m)
      | CEnded st \<Rightarrow> None
      | _ \<Rightarrow> incr_step i c m)"

text \<open>The states a relay can be in after \<open>k\<close> steps, and one run, by the copies that step.\<close>

inductive meter_run :: "meter \<Rightarrow> nat \<Rightarrow> meter \<Rightarrow> bool" for m0 where
  run_start: "meter_run m0 0 m0"
| run_step: "meter_run m0 k m \<Longrightarrow> copier_step i m = Some m' \<Longrightarrow> meter_run m0 (Suc k) m'"

fun run_schedule :: "side list \<Rightarrow> meter \<Rightarrow> meter" where
  "run_schedule [] m = m"
| "run_schedule (i # is) m =
     (case copier_step i m of None \<Rightarrow> run_schedule is m | Some m' \<Rightarrow> run_schedule is m')"

text \<open>Where a copy stands when it takes no more steps.\<close>

definition copier_end :: "copier \<Rightarrow> copy_end" where
  "copier_end c = (case cp_phase c of CEnded st \<Rightarrow> st | _ \<Rightarrow> CopyBlocked)"

text \<open>\<^verbatim>\<open>metered_pipe\<close> joins the thread after its own copy: the end of the pipe.\<close>

definition metered_end :: "meter \<Rightarrow> stop" where
  "metered_end m = splice_end (copier_end (mt_copier m ToUp)) (copier_end (mt_copier m ToDown))"

end
