(* ===== verification/HelloServer.thy ===== *)
theory HelloServer
  imports ServerDriver
begin

text \<open>
  \<^verbatim>\<open>examples/async_server.py\<close>: an asyncio server that takes any user name, answers requests for
  \<^verbatim>\<open>ifconfig.me:80\<close> from memory and relays the rest. \<^verbatim>\<open>StreamReader.readuntil\<close> is modelled as the
  library documents it; how many chunks arrive before the five seconds are over is an argument.
\<close>

section \<open>Hooks\<close>

record hello_ctx =
  hc_username :: pystr

datatype hello_pipe = HelloUpstream

type_synonym hello_session = "(hello_ctx, hello_pipe) server_session"

definition hello_authorize ::
  "hello_session \<Rightarrow> pystr option \<Rightarrow> pystr option \<Rightarrow> (hello_ctx, hello_pipe) hook_run" where
  "hello_authorize s username password =
     (case username of
        None \<Rightarrow> ([DReject (rep_value NOT_ALLOWED)], False)
      | Some u \<Rightarrow>
          if u \<noteq> [] then ([DOk (Some \<lparr>hc_username = u\<rparr>)], False)
          else ([DReject (rep_value NOT_ALLOWED)], False))"

definition intercept_hosts :: "pystr set" where
  "intercept_hosts = {py_lit ''ifconfig.me''}"

definition hello_on_connect ::
  "hello_session \<Rightarrow> pystr \<Rightarrow> int \<Rightarrow> (hello_ctx, hello_pipe) hook_run" where
  "hello_on_connect s host port =
     (if host \<in> intercept_hosts \<and> port = 80 then ([DIntercept (Some HelloUpstream)], False) else ([], False))"

definition hello_hooks :: "(hello_ctx, hello_pipe) server_hooks" where
  "hello_hooks = \<lparr>hk_authorize = Some hello_authorize, hk_on_connect = Some hello_on_connect,
     hk_on_disconnect = None\<rparr>"

section \<open>Reading a request\<close>

fun find_sub :: "'a list \<Rightarrow> 'a list \<Rightarrow> nat option" where
  "find_sub p [] = (if p = [] then Some 0 else None)"
| "find_sub p (x # s) = (if take (length p) (x # s) = p then Some 0 else map_option Suc (find_sub p s))"

datatype until_result = UntilFound bytes | UntilOverrun | UntilRaised py_exn

text \<open>What \<^verbatim>\<open>readuntil\<close> makes of the bytes it has: the buffer may not grow beyond the limit.\<close>

definition until_buffered :: "int \<Rightarrow> bytes \<Rightarrow> bytes \<Rightarrow> until_result option" where
  "until_buffered limit sep buf =
     (case find_sub sep buf of
        Some i \<Rightarrow> Some (if int i > limit then UntilOverrun else UntilFound (take (i + length sep) buf))
      | None \<Rightarrow> if int (length buf) + 1 - int (length sep) > limit then Some UntilOverrun else None)"

text \<open>\<^verbatim>\<open>readuntil\<close> under a timeout, which is when no more chunks come.\<close>

fun read_until :: "int \<Rightarrow> bytes \<Rightarrow> bytes \<Rightarrow> (py_exn + bytes) list \<Rightarrow> until_result" where
  "read_until limit sep buf [] =
     (case until_buffered limit sep buf of Some r \<Rightarrow> r | None \<Rightarrow> UntilRaised TimeoutErr)"
| "read_until limit sep buf (Inl e # rx) =
     (case until_buffered limit sep buf of Some r \<Rightarrow> r | None \<Rightarrow> UntilRaised e)"
| "read_until limit sep buf (Inr d # rx) =
     (case until_buffered limit sep buf of
        Some r \<Rightarrow> r
      | None \<Rightarrow>
          if d = [] then UntilRaised IncompleteReadErr
          else read_until limit sep (buf @ d) rx)"

text \<open>The default limit of a \<^verbatim>\<open>StreamReader\<close>.\<close>

definition stream_limit :: int where
  "stream_limit = 65536"

section \<open>The answer\<close>

definition ascii :: "string \<Rightarrow> bytes" where
  "ascii s = map of_char s"

definition crlf_bytes :: bytes where
  "crlf_bytes = [13, 10]"

definition hello_body :: "pystr \<Rightarrow> bytes option" where
  "hello_body username = utf8_encode (py_lit ''hello, '' @ username @ [10])"

definition hello_response :: "pystr \<Rightarrow> py_exn + bytes" where
  "hello_response username =
     (case hello_body username of
        None \<Rightarrow> Inl UnicodeEncodeErr
      | Some body \<Rightarrow>
          Inr (ascii ''HTTP/1.1 200 OK'' @ crlf_bytes @
               ascii ''Content-Type: text/plain'' @ crlf_bytes @
               ascii ''Content-Length: '' @ ascii (dec_nat (length body)) @ crlf_bytes @
               ascii ''Connection: close'' @ crlf_bytes @ crlf_bytes @ body))"

text \<open>The exceptions that the \<^verbatim>\<open>try\<close> around \<^verbatim>\<open>readuntil\<close> passes over, beside the overrun.\<close>

definition request_ignored :: "py_exn \<Rightarrow> bool" where
  "request_ignored e \<longleftrightarrow> e = IncompleteReadErr \<or> e = TimeoutErr"

definition hello_answer ::
  "(hello_ctx, hello_pipe) conn \<Rightarrow> stop \<times> (hello_ctx, hello_pipe) conn" where
  "hello_answer c =
     (case sv_ctx (cn_sess c) of
        None \<Rightarrow> (SRaise AttributeErr, c)
      | Some ctx \<Rightarrow>
          (case hello_response (hc_username ctx) of
             Inl e \<Rightarrow> (SRaise e, c)
           | Inr response \<Rightarrow>
               (case cn_sends c of
                  Some e # r \<Rightarrow> (SRaise e, c\<lparr>cn_sends := r\<rparr>)
                | r \<Rightarrow> (SReturn, cn_note LCloseDown (cn_note (LSent response) (c\<lparr>cn_sends := drop 1 r\<rparr>))))))"

definition hello_upstream ::
  "nat \<Rightarrow> (hello_ctx, hello_pipe) conn \<Rightarrow> stop \<times> (hello_ctx, hello_pipe) conn" where
  "hello_upstream patience c =
     (case read_until stream_limit (crlf_bytes @ crlf_bytes) [] (take patience (cn_rx c)) of
        UntilRaised e \<Rightarrow> if request_ignored e then hello_answer c else (SRaise e, c)
      | _ \<Rightarrow> hello_answer c)"

section \<open>The server\<close>

text \<open>The relay of the asyncio driver, with this pipe; \<open>E\<close> is the upstream of a plain relay.\<close>

definition hello_relay ::
  "nat \<Rightarrow> hello_pipe relay_env \<Rightarrow> (hello_ctx, hello_pipe) conn \<Rightarrow> stop \<times> (hello_ctx, hello_pipe) conn" where
  "hello_relay patience E c =
     (case sv_custom_pipe (cn_sess c) of
        Some HelloUpstream \<Rightarrow> hello_upstream patience (cn_note (LRelay (RPipe HelloUpstream)) c)
      | None \<Rightarrow> async_relay E c)"

definition hello_handle ::
  "inet_api \<Rightarrow> dialer \<Rightarrow> nat \<Rightarrow> hello_pipe relay_env \<Rightarrow> (py_exn + bytes) list \<Rightarrow> py_exn option list \<Rightarrow>
     outcome \<times> (hello_ctx, hello_pipe) conn" where
  "hello_handle I dial patience E rx sends =
     handle_with (\<lambda>e. is_os_error e \<or> e = IncompleteReadErr) (hello_relay patience E) I hello_hooks dial
       (conn_init hello_hooks rx sends)"

end
