(* ===== verification/ExampleMains.thy ===== *)
theory ExampleMains
  imports ArgParser ServerSetup MeteredServer HelloServer
begin

text \<open>
  The \<^verbatim>\<open>main\<close> functions of the two example servers: the server objects with their hooks registered,
  the command line, and the life of the listener up to the interrupt from the keyboard.
\<close>

section \<open>The server objects\<close>

definition metered_server :: "(metered_ctx, metered_pipe) server_obj" where
  "metered_server =
     register_on_disconnect (\<lambda>s. False) (register_on_connect metered_on_connect
       (register_authorize metered_authorize (server_new 10 None)))"

definition hello_server :: "(hello_ctx, hello_pipe, 's) async_server_obj" where
  "hello_server =
     async_register_on_connect hello_on_connect (async_register_authorize hello_authorize (async_server_new 10))"

lemma registered_hooks:
  "so_hooks metered_server = metered_hooks" "ao_hooks hello_server = hello_hooks"
  "sv_require_auth (server_new_session metered_server)" "sv_require_auth (async_new_session hello_server)"
  by (simp_all add: metered_server_def hello_server_def metered_hooks_def hello_hooks_def
      register_on_disconnect_def register_on_connect_def register_authorize_def server_new_def no_hooks_def
      async_register_on_connect_def async_register_authorize_def async_server_new_def
      server_new_session_def async_new_session_def new_session_def server_init_def)

section \<open>The command line\<close>

definition host_name :: pystr where "host_name = py_lit ''--host''"
definition port_name :: pystr where "port_name = py_lit ''--port''"

definition listen_options :: "int_parser \<Rightarrow> options" where
  "listen_options to_int = [(host_name, Some (\<lambda>_. True)), (port_name, Some (\<lambda>v. \<not> isl (to_int v)))]"

definition listen_args :: "int_parser \<Rightarrow> pystr list \<Rightarrow> py_exn + pystr \<times> int" where
  "listen_args to_int argv =
     bind_res (parse_args (listen_options to_int) False 0 argv) (\<lambda>p.
     if pa_extra p then Inl usage_error
     else bind_res (case opt_value port_name p of None \<Rightarrow> Inr 1080 | Some v \<Rightarrow> to_int v) (\<lambda>port.
          Inr (case opt_value host_name p of None \<Rightarrow> py_lit ''0.0.0.0'' | Some v \<Rightarrow> v, port)))"

section \<open>The threaded example\<close>

text \<open>
  The address it prints, the connections it served, and whether it has ended: by an error of
  \<^verbatim>\<open>accept\<close>, or while it waits for the next connection by \<open>interrupt\<close>, which passes the \<^verbatim>\<open>finally\<close> of
  \<^verbatim>\<open>serve_forever\<close> on its way to \<^verbatim>\<open>server.close()\<close>.
\<close>

definition metered_main ::
  "int_parser \<Rightarrow> 'a listen_api \<Rightarrow> 'b accepted list \<Rightarrow> bool \<Rightarrow> pystr list \<Rightarrow>
     ('a listener, (pystr \<times> int) \<times> 'b list \<times> bool) io" where
  "metered_main to_int A as interrupt argv =
     io_bind (io_lift (listen_args to_int argv)) (\<lambda>(host, port).
     io_bind (server_bind A host port 128 False) (\<lambda>addr.
     io_bind (serve_forever as) (\<lambda>(served, ended) l.
     if interrupt \<and> \<not> ended then (Inr (addr, served, True), server_close (server_close l))
     else (Inr (addr, served, ended), l))))"

section \<open>The asyncio example\<close>

text \<open>
  \<open>run\<close> is what ends \<^verbatim>\<open>srv.serve_forever()\<close>: an exception, or the interrupt, which is passed over. The
  result is the address it prints and the server that \<^verbatim>\<open>async with\<close> closed.
\<close>

definition hello_main ::
  "int_parser \<Rightarrow> (pystr \<Rightarrow> int \<Rightarrow> bool \<Rightarrow> int \<Rightarrow> py_exn + 's) \<Rightarrow> ('s \<Rightarrow> pystr \<times> int) \<Rightarrow> ('s \<Rightarrow> py_exn option) \<Rightarrow>
     pystr list \<Rightarrow> (hello_ctx, hello_pipe, 's) async_server_obj \<Rightarrow>
     (py_exn + pystr \<times> int) \<times> 's option \<times> (hello_ctx, hello_pipe, 's) async_server_obj" where
  "hello_main to_int start sockname run argv so =
     (case io_bind (io_lift (listen_args to_int argv)) (\<lambda>(host, port). async_serve start host port False 100) so of
        (Inl e, so') \<Rightarrow> (Inl e, None, so')
      | (Inr srv, so') \<Rightarrow>
          ((case run srv of None \<Rightarrow> Inr (sockname srv) | Some e \<Rightarrow> Inl e), Some srv, so'))"

section \<open>What they do\<close>

lemma listen_options_long [simp]: "long_options (listen_options to_int)"
proof -
  have "take 2 host_name = dashes" "take 2 port_name = dashes" "host_name \<noteq> dashes" "port_name \<noteq> dashes"
    by code_simp+
  then show ?thesis by (simp add: long_options_def listen_options_def)
qed

text \<open>No argument: the defaults. Positional arguments and ports that are no numbers are refused.\<close>

lemma listen_args_cases:
  "listen_args to_int [] = Inr (py_lit ''0.0.0.0'', 1080)"
  "listen_args (\<lambda>_. Inr 9) (map py_lit [''--port=9'', ''--host'', ''::'']) = Inr (py_lit ''::'', 9)"
  "listen_args (\<lambda>_. Inl (ValueErr [])) (map py_lit [''--port'', ''x'']) = Inl usage_error"
  "listen_args (\<lambda>_. Inr 9) (map py_lit [''9'']) = Inl usage_error"
  by (simp add: listen_args_def nothing_parsed_def opt_value_def, code_simp+)

text \<open>However the example ends, every accepted connection was handed over and no socket is held.\<close>

lemma metered_main_ends:
  assumes "metered_main to_int A as interrupt argv listener_new = (Inr (addr, served, True), l)"
  shows "l = listener_new \<and> served = concat (map accepted_of (takeWhile (\<lambda>a. \<not> fatal a) as))"
  using assms
  by (auto simp: metered_main_def io_simps serve_forever_def accept_loop_served listener_new_def server_close_def
      split: option.splits if_splits bool.splits prod.splits)

end
