(* ===== verification/ProxyTest.thy ===== *)
theory ProxyTest
  imports CurlThrough ServerRelayProps
begin

text \<open>
  \<^verbatim>\<open>examples/proxy_test.py\<close>: checks of a proxy that drive the codec over one socket. A chain lets a
  proxy connect to itself, so that each further handshake is spoken through the ones before; it is
  built hop by hop or sent as one blob. Times and the texts of verdicts are left out, and so is
  \<^verbatim>\<open>main\<close>, which runs the chosen checks and prints a table.
\<close>

section \<open>Arguments\<close>

text \<open>\<^verbatim>\<open>s.rsplit(c, 1)\<close> for a text that holds \<open>c\<close>.\<close>

definition rsplit_at :: "nat \<Rightarrow> pystr \<Rightarrow> pystr \<times> pystr" where
  "rsplit_at c s = (let (back, _, front) = partition_at c (rev s) in (rev front, rev back))"

definition at_sign :: nat where "at_sign = 64"

text \<open>Without a colon there is one part where two are wanted.\<close>

definition hostport :: "int_parser \<Rightarrow> pystr \<Rightarrow> py_exn + pystr \<times> int" where
  "hostport to_int s =
     (if colon \<in> set s then (let (h, p) = rsplit_at colon s in bind_res (to_int p) (\<lambda>n. Inr (h, n)))
      else Inl (ValueErr ''not enough values to unpack (expected 2, got 1)''))"

text \<open>\<^verbatim>\<open>s or None\<close>\<close>

definition or_none :: "pystr \<Rightarrow> pystr option" where
  "or_none s = (if s = [] then None else Some s)"

type_synonym test_proxy = "pystr \<times> int \<times> pystr option \<times> pystr option"

definition test_parse_proxy :: "int_parser \<Rightarrow> pystr \<Rightarrow> pystr \<Rightarrow> pystr \<Rightarrow> py_exn + test_proxy" where
  "test_parse_proxy to_int spec user pw =
     (let (spec, user, pw) =
        (if at_sign \<in> set spec
         then let (cred, rest) = rsplit_at at_sign spec; (u, _, p) = partition_at colon cred in (rest, u, p)
         else (spec, user, pw))
      in bind_res (hostport to_int spec) (\<lambda>(h, p). Inr (h, p, or_none user, or_none pw)))"

section \<open>One handshake\<close>

definition truthy :: "pystr option \<Rightarrow> bool" where
  "truthy s \<longleftrightarrow> s \<noteq> None \<and> s \<noteq> Some []"

definition test_auth :: "pystr option \<Rightarrow> pystr option \<Rightarrow> py_exn + bytes" where
  "test_auth user pw = (case (user, pw) of (Some u, Some p) \<Rightarrow> py_userpass_auth u p | _ \<Rightarrow> Inl TypeErr)"

function recvn_loop :: "nat \<Rightarrow> bytes \<Rightarrow> (sock, bytes) io" where
  "recvn_loop n buf s =
     (if length buf < n then
        (case sock_recv (n - length buf) s of
           (Inl e, s') \<Rightarrow> (Inl e, s')
         | (Inr chunk, s') \<Rightarrow>
             if chunk = [] then (Inl EOFErr, s') else recvn_loop n (buf @ chunk) s')
      else (Inr buf, s))"
  by pat_completeness auto
termination
  by (relation "measure (\<lambda>(n, buf, s). n - length buf)") (auto intro!: diff_less_mono2)

declare recvn_loop.simps [simp del]

definition recvn :: "nat \<Rightarrow> (sock, bytes) io" where
  "recvn n = recvn_loop n []"

definition test_negotiate ::
  "(bytes \<Rightarrow> ('s, unit) io) \<Rightarrow> (nat \<Rightarrow> ('s, bytes) io) \<Rightarrow> pystr option \<Rightarrow> pystr option \<Rightarrow> ('s, unit) io" where
  "test_negotiate send rd user pw =
     io_bind
       (io_lift (py_client_greeting
         (map (\<lambda>m. word_of_int (method_value m)) (if truthy user then [USERPASS, NO_AUTH] else [NO_AUTH])))) (\<lambda>greeting.
     io_bind (send greeting) (\<lambda>_.
     io_bind (rd 2) (\<lambda>answer.
     case py_parse_method_selection answer of
       None \<Rightarrow> io_raise (Socks5Err ''no acceptable method None'')
     | Some m \<Rightarrow>
         if m = method_value USERPASS then
           io_bind (io_lift (test_auth user pw)) (\<lambda>auth.
           io_bind (send auth) (\<lambda>_.
           io_bind (rd 2) (\<lambda>status.
           if py_parse_auth_reply status \<noteq> Some 0 then io_raise (Socks5Err ''auth rejected'') else io_return ())))
         else if m \<noteq> method_value NO_AUTH then io_raise (Socks5Err (''no acceptable method '' @ dec_int m))
         else io_return ())))"

definition test_read_reply :: "inet_api \<Rightarrow> (nat \<Rightarrow> ('s, bytes) io) \<Rightarrow> ('s, int \<times> pystr \<times> int) io" where
  "test_read_reply I rd =
     io_bind (rd 4) (\<lambda>head.
     io_bind
       (let atyp = head ! 3
        in if atyp = 0x01 then rd (4 + 2)
           else if atyp = 0x04 then rd (16 + 2)
           else if atyp = 0x03 then
             io_bind (rd 1) (\<lambda>len.
             io_bind (rd (unat (len ! 0) + 2)) (\<lambda>rest. io_return (len @ rest)))
           else io_raise (Socks5Err (''bad reply ATYP '' @ dec_int (uint atyp)))) (\<lambda>rest.
     io_bind (io_lift (py_parse_reply I (head @ rest))) (\<lambda>parsed.
     case parsed of
       None \<Rightarrow> io_raise (Socks5Err ''malformed reply'')
     | Some p \<Rightarrow> io_return p)))"

text \<open>Negotiation, request, reply: the body of each loop that goes hop by hop.\<close>

definition test_hop ::
  "inet_api \<Rightarrow> (bytes \<Rightarrow> ('s, unit) io) \<Rightarrow> (nat \<Rightarrow> ('s, bytes) io) \<Rightarrow> pystr option \<Rightarrow> pystr option \<Rightarrow>
     int \<Rightarrow> pystr \<times> int \<Rightarrow> ('s, int \<times> pystr \<times> int) io" where
  "test_hop I send rd user pw cmd target =
     io_bind (test_negotiate send rd user pw) (\<lambda>_.
     io_bind (io_lift (codec_request I cmd (fst target) (snd target))) (\<lambda>req.
     io_bind (send req) (\<lambda>_. test_read_reply I rd)))"

section \<open>Chains\<close>

datatype chain_stop = ChainReached | ChainBroke int | ChainRaised py_exn

text \<open>How many hops were reached, and how the loop ended.\<close>

fun chain_loop ::
  "inet_api \<Rightarrow> (bytes \<Rightarrow> ('s, unit) io) \<Rightarrow> (nat \<Rightarrow> ('s, bytes) io) \<Rightarrow> pystr option \<Rightarrow> pystr option \<Rightarrow>
     (pystr \<times> int) list \<Rightarrow> 's \<Rightarrow> nat \<times> chain_stop \<times> 's" where
  "chain_loop I send rd user pw [] s = (0, ChainReached, s)"
| "chain_loop I send rd user pw (t # ts) s =
     (case test_hop I send rd user pw (cmd_value CONNECT) t s of
        (Inl e, s') \<Rightarrow> (0, ChainRaised e, s')
      | (Inr (rep, _, _), s') \<Rightarrow>
          if rep \<noteq> 0 then (0, ChainBroke rep, s')
          else (let (k, st, s'') = chain_loop I send rd user pw ts s' in (Suc k, st, s'')))"

definition chain_targets :: "nat \<Rightarrow> pystr \<times> int \<Rightarrow> pystr \<times> int \<Rightarrow> (pystr \<times> int) list" where
  "chain_targets depth self_addr dst =
     map (\<lambda>i. if int i < int depth - 1 then self_addr else dst) [0..<depth]"

text \<open>\<^verbatim>\<open>except (OSError, Socks5Error, EOFError)\<close>\<close>

definition test_caught :: "py_exn \<Rightarrow> bool" where
  "test_caught e \<longleftrightarrow> is_os_error e \<or> is_socks5_error e \<or> e = EOFErr"

text \<open>Whether the chain is whole, its depth and its end, and the socket, left open by what is not caught.\<close>

definition case_chain ::
  "inet_api \<Rightarrow> (py_exn + sock) \<Rightarrow> pystr option \<Rightarrow> pystr option \<Rightarrow> pystr \<times> int \<Rightarrow> pystr \<times> int \<Rightarrow> nat \<Rightarrow> int \<Rightarrow>
     (py_exn + bool \<times> nat \<times> chain_stop) \<times> sock option" where
  "case_chain I dialled user pw self_addr dst depth timeout =
     (case dialled of
        Inl e \<Rightarrow> (Inl e, None)
      | Inr s \<Rightarrow>
          (case chain_loop I sock_sendall recvn user pw (chain_targets depth self_addr dst) (s\<lparr>sk_timeout := timeout\<rparr>) of
             (k, st, s') \<Rightarrow>
               (case st of
                  ChainRaised e \<Rightarrow>
                    if test_caught e then (Inr (k \<ge> depth, k, st), Some (sock_close s')) else (Inl e, Some s')
                | _ \<Rightarrow> (Inr (k \<ge> depth, k, st), Some (sock_close s')))))"

subsection \<open>In one blob\<close>

definition greet_blob :: "pystr option \<Rightarrow> pystr option \<Rightarrow> py_exn + bytes" where
  "greet_blob user pw =
     bind_res (py_client_greeting [word_of_int (method_value (if truthy user then USERPASS else NO_AUTH))]) (\<lambda>blob.
     if truthy user then bind_res (test_auth user pw) (\<lambda>auth. Inr (blob @ auth)) else Inr blob)"

definition test_http_get :: "pystr \<Rightarrow> pystr \<Rightarrow> py_exn + bytes" where
  "test_http_get host path =
     (case utf8_encode
             (py_lit ''GET '' @ path @ py_lit '' HTTP/1.0'' @ crlf @ py_lit ''Host: '' @ host @ crlf @
              py_lit ''User-Agent: optisocks5-proxy-test'' @ crlf @ py_lit ''Connection: close'' @ crlf @ crlf) of
        None \<Rightarrow> Inl UnicodeEncodeErr
      | Some b \<Rightarrow> Inr b)"

fun hops_blob :: "inet_api \<Rightarrow> pystr option \<Rightarrow> pystr option \<Rightarrow> (pystr \<times> int) list \<Rightarrow> py_exn + bytes" where
  "hops_blob I user pw [] = Inr []"
| "hops_blob I user pw ((host, port) # ts) =
     bind_res (greet_blob user pw) (\<lambda>g.
     bind_res (codec_request I (cmd_value CONNECT) host port) (\<lambda>r.
     bind_res (hops_blob I user pw ts) (\<lambda>b. Inr (g @ r @ b))))"

definition chain_blob ::
  "inet_api \<Rightarrow> pystr option \<Rightarrow> pystr option \<Rightarrow> (pystr \<times> int) list \<Rightarrow> pystr \<Rightarrow> pystr \<Rightarrow> py_exn + bytes" where
  "chain_blob I user pw targets host path =
     bind_res (hops_blob I user pw targets) (\<lambda>b. bind_res (test_http_get host path) (\<lambda>h. Inr (b @ h)))"

text \<open>The answers to one hop of the blob. A selection that does not parse is passed over, as any method is.\<close>

definition blob_hop :: "inet_api \<Rightarrow> (nat \<Rightarrow> ('s, bytes) io) \<Rightarrow> ('s, int) io" where
  "blob_hop I rd =
     io_bind (rd 2) (\<lambda>answer.
     io_bind
       (if py_parse_method_selection answer = Some (method_value USERPASS)
        then io_bind (rd 2) (\<lambda>status.
             if py_parse_auth_reply status \<noteq> Some 0 then io_raise (Socks5Err ''auth rejected'') else io_return ())
        else io_return ()) (\<lambda>_.
     io_bind (test_read_reply I rd) (\<lambda>(rep, _, _). io_return rep)))"

fun blob_loop :: "inet_api \<Rightarrow> (nat \<Rightarrow> ('s, bytes) io) \<Rightarrow> nat \<Rightarrow> 's \<Rightarrow> nat \<times> chain_stop \<times> 's" where
  "blob_loop I rd 0 s = (0, ChainReached, s)"
| "blob_loop I rd (Suc n) s =
     (case blob_hop I rd s of
        (Inl e, s') \<Rightarrow> (0, ChainRaised e, s')
      | (Inr rep, s') \<Rightarrow>
          if rep \<noteq> 0 then (0, ChainBroke rep, s')
          else (let (k, st, s'') = blob_loop I rd n s' in (Suc k, st, s'')))"

definition http_start :: bytes where "http_start = map of_char ''HTTP/''"

text \<open>The result: whether all hops were reached, how many, and \<^verbatim>\<open>byte_exact\<close> if it was found out.\<close>

definition case_optimistic_chain ::
  "inet_api \<Rightarrow> (py_exn + sock) \<Rightarrow> pystr option \<Rightarrow> pystr option \<Rightarrow> pystr \<times> int \<Rightarrow> pystr \<times> int \<Rightarrow> nat \<Rightarrow>
     int \<Rightarrow> pystr \<Rightarrow> (py_exn + bool \<times> nat \<times> bool option) \<times> sock option" where
  "case_optimistic_chain I dialled user pw self_addr dst depth patience path =
     (case dialled of
        Inl e \<Rightarrow> (Inl e, None)
      | Inr s \<Rightarrow>
          (case io_bind (io_lift (chain_blob I user pw (chain_targets depth self_addr dst) (fst dst) path)) sock_sendall
                  (s\<lparr>sk_timeout := patience\<rparr>) of
             (Inl e, s') \<Rightarrow> (Inl e, Some s')
           | (Inr _, s') \<Rightarrow>
               (case blob_loop I recvn depth s' of
                  (k, st, s'') \<Rightarrow>
                    (let (exact, s3) =
                       (case st of
                          ChainReached \<Rightarrow> map_prod (map_sum id (\<lambda>d. Some (take 5 d = http_start))) id (recvn 12 s'')
                        | ChainBroke rep \<Rightarrow> (Inr None, s'')
                        | ChainRaised e \<Rightarrow> (Inl e, s''))
                     in case exact of
                          Inr x \<Rightarrow> (Inr (k \<ge> depth, k, x), Some (sock_close s3))
                        | Inl e \<Rightarrow>
                            if test_caught e then (Inr (k \<ge> depth, k, None), Some (sock_close s3))
                            else (Inl e, Some s3)))))"

section \<open>The other checks\<close>

text \<open>\<^verbatim>\<open>case_plain\<close>: whether the staged client connects, and what it raised if not.\<close>

definition case_plain ::
  "inet_api \<Rightarrow> (py_exn + sock) \<Rightarrow> pystr option \<Rightarrow> pystr option \<Rightarrow> pystr \<times> int \<Rightarrow> int \<Rightarrow>
     (py_exn + bool \<times> (py_exn + reply_obj)) \<times> sock option" where
  "case_plain I dialled user pw dst timeout =
     (case client_init user pw timeout of
        Inl e \<Rightarrow> (Inl e, None)
      | Inr c \<Rightarrow>
          (case staged_connect I dialled c (fst dst) (snd dst) (cmd_value CONNECT) of
             (Inr r, c', so) \<Rightarrow> (Inr (reply_ok r, Inr r), snd (client_close c'))
           | (Inl e, _, so) \<Rightarrow> (if cli_caught e then Inr (False, Inl e) else Inl e, so)))"

datatype exact_verdict = Stalled py_exn | Refused int | HttpSeen | OtherSeen bytes | NothingSeen

text \<open>
  \<^verbatim>\<open>case_optimistic\<close>; \<open>patience\<close> is the shorter timeout of the exchange. Twelve further bytes are waited
  for also when the client already holds some.
\<close>

definition case_optimistic ::
  "inet_api \<Rightarrow> (py_exn + sock) \<Rightarrow> pystr option \<Rightarrow> pystr option \<Rightarrow> pystr \<times> int \<Rightarrow> int \<Rightarrow> int \<Rightarrow> pystr \<Rightarrow>
     (py_exn + bool \<times> exact_verdict) \<times> sock option" where
  "case_optimistic I dialled user pw dst timeout patience path =
     (case client_init user pw timeout of
        Inl e \<Rightarrow> (Inl e, None)
      | Inr c \<Rightarrow>
          (case optimistic_connect I dialled c (fst dst) (snd dst) (cmd_value CONNECT) of
             (Inl e, _, so) \<Rightarrow> (if cli_caught e then Inr (False, Stalled e) else Inl e, so)
           | (Inr r, c', so) \<Rightarrow>
               if \<not> reply_ok r then (Inr (False, Refused (r_rep r)), snd (client_close c'))
               else (case c_sock c' of
                       None \<Rightarrow> (Inl AttributeErr, None)
                     | Some s \<Rightarrow>
                         (case io_bind (io_lift (test_http_get (fst dst) path)) sock_sendall s of
                            (Inl e, s') \<Rightarrow> (Inl e, Some (sock_close s'))
                          | (Inr _, s') \<Rightarrow>
                              (case recvn 12 (s'\<lparr>sk_timeout := patience\<rparr>) of
                                 (Inl e, s3) \<Rightarrow>
                                   (if e = TimeoutErr \<or> e = EOFErr then Inr (True, NothingSeen) else Inl e,
                                    Some (sock_close s3))
                               | (Inr d, s3) \<Rightarrow>
                                   (let first = take 12 (c_leftover c' @ d)
                                    in (Inr (True, if take 5 first = http_start then HttpSeen
                                                   else OtherSeen (take 8 first)), Some (sock_close s3))))))))"

text \<open>One command of \<^verbatim>\<open>case_commands\<close>, on a socket of its own that only a reply closes.\<close>

definition test_command ::
  "inet_api \<Rightarrow> (py_exn + sock) \<Rightarrow> pystr option \<Rightarrow> pystr option \<Rightarrow> pystr \<times> int \<Rightarrow> int \<Rightarrow> cmd_enum \<Rightarrow>
     (py_exn + (py_exn + int \<times> pystr \<times> int)) \<times> sock option" where
  "test_command I dialled user pw dst timeout cmd =
     (case dialled of
        Inl e \<Rightarrow> (if test_caught e then Inr (Inl e) else Inl e, None)
      | Inr s \<Rightarrow>
          (let target = (if cmd = CONNECT then dst else (py_lit ''0.0.0.0'', 0)) in
           case test_hop I sock_sendall recvn user pw (cmd_value cmd) target (s\<lparr>sk_timeout := timeout\<rparr>) of
             (Inl e, s') \<Rightarrow> (if test_caught e then Inr (Inl e) else Inl e, Some s')
           | (Inr p, s') \<Rightarrow> (Inr (Inr p), Some (sock_close s'))))"

text \<open>Whether \<^verbatim>\<open>UDP ASSOCIATE\<close> is honoured, and the three answers.\<close>

definition case_commands ::
  "inet_api \<Rightarrow> (cmd_enum \<Rightarrow> py_exn + sock) \<Rightarrow> pystr option \<Rightarrow> pystr option \<Rightarrow> pystr \<times> int \<Rightarrow> int \<Rightarrow>
     py_exn + bool \<times> (py_exn + int \<times> pystr \<times> int) list" where
  "case_commands I dial user pw dst timeout =
     (let run = (\<lambda>cmd. fst (test_command I (dial cmd) user pw dst timeout cmd)) in
      bind_res (run CONNECT) (\<lambda>c.
      bind_res (run BIND) (\<lambda>b.
      bind_res (run UDP_ASSOCIATE) (\<lambda>a.
      Inr (case a of Inl e \<Rightarrow> False | Inr (rep, _, _) \<Rightarrow> rep = 0, [c, b, a])))))"

text \<open>\<^verbatim>\<open>case_loop127\<close>: whether both hops succeeded, and the codes that were read.\<close>

definition case_loop127 ::
  "inet_api \<Rightarrow> (py_exn + sock) \<Rightarrow> pystr option \<Rightarrow> pystr option \<Rightarrow> pystr \<times> int \<Rightarrow> pystr \<times> int \<Rightarrow> int \<Rightarrow>
     (py_exn + bool \<times> int list) \<times> sock option" where
  "case_loop127 I dialled user pw self_addr loop_dst timeout =
     (case dialled of
        Inl e \<Rightarrow> (Inl e, None)
      | Inr s \<Rightarrow>
          (case test_hop I sock_sendall recvn user pw (cmd_value CONNECT) self_addr (s\<lparr>sk_timeout := timeout\<rparr>) of
             (Inl e, s') \<Rightarrow> (if test_caught e then Inr (False, []) else Inl e, Some (sock_close s'))
           | (Inr (rep1, _, _), s') \<Rightarrow>
               if rep1 \<noteq> 0 then (Inr (False, [rep1]), Some (sock_close s'))
               else (case test_hop I sock_sendall recvn user pw (cmd_value CONNECT) loop_dst s' of
                       (Inl e, s'') \<Rightarrow> (if test_caught e then Inr (False, [rep1]) else Inl e, Some (sock_close s''))
                     | (Inr (rep2, _, _), s'') \<Rightarrow> (Inr (rep2 = 0, [rep1, rep2]), Some (sock_close s'')))))"

section \<open>A hop is the staged negotiation\<close>

lemma read_reply_same:
  "read_reply I rd s = (Inr r, s') \<longleftrightarrow> (\<exists>p. test_read_reply I rd s = (Inr p, s') \<and> r = mk_reply p)"
  by (auto simp: read_reply_def test_read_reply_def io_bind_def io_raise_def io_return_def io_lift_def Let_def
      split: prod.splits sum.splits option.splits if_splits)

lemma test_negotiate_staged:
  assumes "user \<noteq> Some []" "test_negotiate send rd user pw s = (Inr (), s')"
  shows "\<exists>g t u ans. py_client_greeting (map (\<lambda>m. word_of_int (method_value m)) (offered_methods user)) = Inr g \<and>
    send g s = (Inr (), t) \<and> rd 2 t = (Inr ans, u) \<and> staged_choose send rd user pw ans u = (Inr (), s')"
proof -
  have "truthy user \<longleftrightarrow> user \<noteq> None" using assms(1) by (auto simp: truthy_def)
  then obtain g t u ans where
    g: "py_client_greeting (map (\<lambda>m. word_of_int (method_value m)) (offered_methods user)) = Inr g"
      "send g s = (Inr (), t)" "rd 2 t = (Inr ans, u)"
    and n: "(case py_parse_method_selection ans of
       None \<Rightarrow> io_raise (Socks5Err ''no acceptable method None'')
     | Some m \<Rightarrow>
         if m = method_value USERPASS then
           io_bind (io_lift (test_auth user pw)) (\<lambda>auth.
           io_bind (send auth) (\<lambda>_.
           io_bind (rd 2) (\<lambda>status.
           if py_parse_auth_reply status \<noteq> Some 0 then io_raise (Socks5Err ''auth rejected'') else io_return ())))
         else if m \<noteq> method_value NO_AUTH then io_raise (Socks5Err (''no acceptable method '' @ dec_int m))
         else io_return ()) u = (Inr (), s')"
    using assms(2) by (auto simp: test_negotiate_def offered_methods_def io_simps split: if_splits)
  have "staged_choose send rd user pw ans u = (Inr (), s')"
    using n
    by (cases user; cases pw)
       (auto simp: staged_choose_def staged_login_def test_auth_def io_simps Let_def split: option.splits if_splits)
  with g show ?thesis by blast
qed

lemma test_hop_staged:
  assumes "user \<noteq> Some []" "test_hop I send rd user pw cmd (host, port) s = (Inr p, s')"
  shows "staged_negotiate I send rd user pw host port cmd s = (Inr (mk_reply p), s')"
proof -
  obtain x t3 req y t4 where "test_negotiate send rd user pw s = (Inr x, t3)"
    and r: "codec_request I cmd host port = Inr req" "send req t3 = (Inr y, t4)"
      "test_read_reply I rd t4 = (Inr p, s')"
    using assms(2) unfolding test_hop_def io_simps fst_conv snd_conv by blast
  then have n: "test_negotiate send rd user pw s = (Inr (), t3)" by simp
  have "read_reply I rd t4 = (Inr (mk_reply p), s')" using r(3) by (simp only: read_reply_same) blast
  moreover obtain g t u ans where
    "py_client_greeting (map (\<lambda>m. word_of_int (method_value m)) (offered_methods user)) = Inr g"
    "send g s = (Inr (), t)" "rd 2 t = (Inr ans, u)" "staged_choose send rd user pw ans u = (Inr (), t3)"
    using test_negotiate_staged [OF assms(1) n] by blast
  ultimately show ?thesis
    using r(1,2) by (simp add: staged_negotiate_def io_bind_def io_lift_def)
qed

section \<open>What a chain reads\<close>

text \<open>The answers to one hop: the selection, the status of a login if there was one, and a reply that grants.\<close>

definition hop_answer :: "inet_api \<Rightarrow> bool \<Rightarrow> bytes \<Rightarrow> bool" where
  "hop_answer I login d \<longleftrightarrow>
     (\<exists>m w host port. d = m @ w \<and> (m = [5, 0] \<or> login \<and> m = [5, 2, 1, 0]) \<and>
        reply_size w = Some (length w) \<and> py_parse_reply I w = Inr (Some (0, host, port)))"

context exact_transport
begin

lemma test_hop_takes:
  assumes "user \<noteq> Some []" "test_hop I send rd user pw cmd target s = (Inr (0, x), s')"
  shows "\<exists>d. stream s = d @ stream s' \<and> hop_answer I (user \<noteq> None) d"
proof -
  obtain host port where t: "target = (host, port)" by (cases target)
  from staged_exact [OF test_hop_staged [OF assms(1) assms(2) [unfolded t]]] obtain m w p where
    "stream s = m @ w @ stream s'" "m = [5, 0] \<or> user \<noteq> None \<and> m = [5, 2, 1, 0]"
    "message_len w = Some (length w)" "py_parse_reply I w = Inr (Some p)" "mk_reply (0, x) = mk_reply p"
    by blast
  then show ?thesis
    by (intro exI [of _ "m @ w"]) (cases p; cases x; auto simp: hop_answer_def reply_size_len)
qed

lemma chain_loop_takes:
  assumes "user \<noteq> Some []"
  shows "chain_loop I send rd user pw ts s = (k, st, s') \<Longrightarrow> length ts \<le> k \<Longrightarrow>
    k = length ts \<and> st = ChainReached \<and>
    (\<exists>ds. length ds = k \<and> stream s = concat ds @ stream s' \<and> (\<forall>d \<in> set ds. hop_answer I (user \<noteq> None) d))"
proof (induction ts arbitrary: s k)
  case (Cons t ts)
  obtain x u where h: "test_hop I send rd user pw (cmd_value CONNECT) t s = (Inr (0, x), u)"
    and c: "\<exists>k'. chain_loop I send rd user pw ts u = (k', st, s') \<and> k = Suc k'"
    using Cons.prems by (auto split: prod.splits sum.splits if_splits)
  from c obtain k' where k: "chain_loop I send rd user pw ts u = (k', st, s')" "k = Suc k'" by blast
  from Cons.IH [OF k(1)] Cons.prems(2) k(2) obtain ds where
    "k' = length ts" "st = ChainReached" "length ds = k'" "stream u = concat ds @ stream s'"
    "\<forall>d \<in> set ds. hop_answer I (user \<noteq> None) d" by auto
  moreover obtain d where "stream s = d @ stream u" "hop_answer I (user \<noteq> None) d"
    using test_hop_takes [OF assms h] by blast
  ultimately show ?case using k(2) by (intro conjI exI [of _ "d # ds"]) auto
qed simp

end

lemma recvn_loop_stream:
  "recvn_loop n buf s = (Inr d, s') \<Longrightarrow> length buf \<le> n \<Longrightarrow>
     \<exists>x. d = buf @ x \<and> length d = n \<and> rx_stream (sk_rx s) = x @ rx_stream (sk_rx s')"
proof (induction n buf s rule: recvn_loop.induct)
  case (1 n buf s)
  show ?case
  proof (cases "length buf < n")
    case False
    then show ?thesis using "1.prems" by (simp add: recvn_loop.simps [of n buf s])
  next
    case True
    then obtain chunk u where r: "sock_recv (n - length buf) s = (Inr chunk, u)" "chunk \<noteq> []"
      and rec: "recvn_loop n (buf @ chunk) u = (Inr d, s')"
      using "1.prems"(1) by (auto simp: recvn_loop.simps [of n buf s] split: prod.splits sum.splits if_splits)
    note st = sock_recv_stream [OF r(1)]
    have "length (buf @ chunk) \<le> n" using st(2) True by simp
    from "1.IH" [OF True r(1) [symmetric] refl r(2) rec this] st(1) show ?thesis by auto
  qed
qed

interpretation test_exact: exact_transport sock_sendall recvn "\<lambda>s. rx_stream (sk_rx s)"
  by unfold_locales (auto simp: recvn_def dest!: recvn_loop_stream sock_sendall_rx)

lemma length_chain_targets [simp]: "length (chain_targets depth self_addr dst) = depth"
  by (simp add: chain_targets_def)

text \<open>The chain that goes hop by hop reads exactly: when \<^verbatim>\<open>case_chain\<close> reports a whole chain, the
  socket has given up the answers to as many handshakes as the chain is deep, each with a reply that
  grants, and nothing of what follows them; the hop count is the depth, and the socket is closed.\<close>

theorem chain_exact:
  assumes "user \<noteq> Some []"
    and "case_chain I (Inr s) user pw self_addr dst depth timeout = (Inr (True, k, st), Some s')"
  shows "k = depth \<and> st = ChainReached \<and> \<not> sk_open s' \<and>
    (\<exists>ds. length ds = depth \<and> rx_stream (sk_rx s) = concat ds @ rx_stream (sk_rx s') \<and>
       (\<forall>d \<in> set ds. hop_answer I (user \<noteq> None) d))"
proof -
  obtain k' st' u where
    c: "chain_loop I sock_sendall recvn user pw (chain_targets depth self_addr dst) (s\<lparr>sk_timeout := timeout\<rparr>) = (k', st', u)"
    by (metis prod_cases3)
  then have r: "k = k'" "st = st'" "depth \<le> k'" "s' = sock_close u"
    using assms(2) by (auto simp: case_chain_def split: chain_stop.splits if_splits)
  note t = test_exact.chain_loop_takes [OF assms(1) c, unfolded length_chain_targets, OF r(3)]
  have x: "sk_rx s' = sk_rx u" "\<not> sk_open s'" "sk_rx (s\<lparr>sk_timeout := timeout\<rparr>) = sk_rx s"
    using r(4) by (simp_all add: sock_close_def)
  show ?thesis using t x(2) unfolding r(1,2) x(1,3) by blast
qed

definition chain_sock :: sock where
  "chain_sock = \<lparr>sk_now = 0, sk_timeout = 9,
     sk_rx = [(1, Inr [5, 0, 5, 0, 0, 1, 1, 1, 1, 1, 0, 9]), (2, Inr [5, 0]),
              (3, Inr [5, 0, 0, 1, 2, 2, 2, 2, 0, 8, 72, 84])],
     sk_sends = [], sk_tx = [], sk_open = True\<rparr>"

theorem chain_exact_witness:
  "\<exists>s. case_chain text_inet (Inr chain_sock) None None (py_lit ''1.1.1.1'', 9) (py_lit ''2.2.2.2'', 8) 2 5 =
      (Inr (True, 2, ChainReached), Some s) \<and> rx_stream (sk_rx s) = [72, 84] \<and>
    (\<exists>ds. length ds = 2 \<and> rx_stream (sk_rx chain_sock) = concat ds @ [72, 84] \<and>
       (\<forall>d \<in> set ds. hop_answer text_inet False d))"
proof -
  define run where "run = case_chain text_inet (Inr chain_sock) None None (py_lit ''1.1.1.1'', 9) (py_lit ''2.2.2.2'', 8) 2 5"
  have "fst run = Inr (True, 2, ChainReached)" "map_option (\<lambda>s. rx_stream (sk_rx s)) (snd run) = Some [72, 84]"
    unfolding run_def by code_simp+
  then obtain s where s: "run = (Inr (True, 2, ChainReached), Some s)" "rx_stream (sk_rx s) = [72, 84]"
    by (cases run; cases "snd run") auto
  have "None \<noteq> Some ([] :: pystr)" by simp
  from chain_exact [OF this s(1) [unfolded run_def]] s show ?thesis unfolding run_def by auto
qed

section \<open>The loopback check is a chain\<close>

lemma loop127_chain:
  "(\<exists>codes so. case_loop127 I dialled user pw self_addr loop_dst timeout = (Inr (True, codes), so)) \<longleftrightarrow>
   (\<exists>so. case_chain I dialled user pw self_addr loop_dst 2 timeout = (Inr (True, 2, ChainReached), so))"
proof (cases dialled)
  case (Inr s)
  have t: "chain_targets 2 self_addr loop_dst = [self_addr, loop_dst]"
    by (simp add: chain_targets_def upt_rec numeral_2_eq_2)
  show ?thesis
    unfolding case_loop127_def case_chain_def Inr t
    by (auto split: prod.splits sum.splits if_splits)
qed (simp add: case_loop127_def case_chain_def)

section \<open>The blob of a chain\<close>

text \<open>A hop of the blob is the library's own pipeline.\<close>

lemma greet_blob_pipeline:
  assumes "user \<noteq> Some []" "session_init user pw = Inr sess"
  shows "optimistic_pipeline I sess host port cmd =
    bind_res (greet_blob user pw) (\<lambda>g. bind_res (codec_request I cmd host port) (\<lambda>r. Inr (g @ r)))"
proof -
  have "sess = \<lparr>ss_user = user, ss_pass = pw, ss_auth = (user \<noteq> None), ss_buf = [], ss_state = SMethod, ss_reply = None\<rparr>"
    using assms(2) by (auto simp: session_init_def split: if_splits)
  then show ?thesis
    using assms(1)
    by (cases "py_client_greeting [word_of_int (method_value (if truthy user then USERPASS else NO_AUTH))]")
       (auto simp: optimistic_pipeline_def greet_blob_def session_method_def truthy_def test_auth_def
          split: option.splits sum.splits)
qed

lemma greet_blob_plain: "greet_blob None pw = Inr [5, 1, 0]"
  by (simp add: greet_blob_def truthy_def) code_simp

lemma chain_blob_plain:
  assumes "chain_blob I None pw ((host, port) # ts) h path = Inr blob"
  shows "\<exists>r rest. py_request I 1 host port = Inr r \<and> chain_blob I None pw ts h path = Inr rest \<and>
    blob = [5, 1, 0] @ r @ rest"
  using assms
  by (auto simp: chain_blob_def greet_blob_plain codec_request_def result_simps)

text \<open>C40. The optimistic chain against the package's own server, without credentials and without hooks,
  when the first dial succeeds: of the blob, which the server may well receive in one chunk, only the first handshake is answered. The rest, with the greeting of the next
  hop, stays in the session's buffer and the upstream, which is the proxy itself, is sent nothing: the
  second hop is never answered, although client and server are byte-exact.\<close>

theorem own_server_breaks_chain:
  assumes "posix_inet I" and "hk_authorize H = None" "hk_on_connect H = None"
    and "2 \<le> depth" "chain_blob I None None (chain_targets depth (host, port) dst) (fst dst) path = Inr blob"
    and "dial (Some (seen_host I host, port)) = Inr (bh, bp)" "py_reply I 0 bh bp = Inr w"
    and "\<forall>x \<in> set (re_up_sends E). x = None"
    and "threaded_handle I H dial E [Inr blob] [] = (out, c)"
  shows "sent_bytes (cn_log c) = [5, 0] @ w \<and>
    (\<exists>r. py_request I 1 host port = Inr r \<and> blob = [5, 1, 0] @ r @ sv_buf (cn_sess c)) \<and>
    take 3 (sv_buf (cn_sess c)) = [5, 1, 0] \<and> LSpliced [] (chunks_of (re_up_rx E)) \<in> set (cn_log c)"
proof -
  obtain n where n: "depth = Suc (Suc n)" using assms(4) by (metis add_2_eq_Suc le_Suc_ex)
  obtain host2 port2 ts where t: "chain_targets depth (host, port) dst = (host, port) # (host2, port2) # ts"
    by (cases "chain_targets depth (host, port) dst ! 1")
       (auto simp: chain_targets_def n upt_rec simp del: upt_Suc)
  obtain r rest where r: "py_request I 1 host port = Inr r" "blob = [5, 1, 0] @ r @ rest"
    and rest: "chain_blob I None None ((host2, port2) # ts) (fst dst) path = Inr rest"
    using chain_blob_plain [OF assms(5) [unfolded t]] by blast
  have hop: "take 3 rest = [5, 1, 0]" using chain_blob_plain [OF rest] by auto
  have "threaded_handle I H dial E (Inr ([5, 1, 0] @ r @ rest) # []) [] = (out, c)"
    using assms(9) r(2) by simp
  note served = served_connection [where I = I and H = H and dial = dial and E = E,
    OF assms(1-3) r(1) assms(6-8) this]
  show ?thesis using served hop r by simp
qed

text \<open>A chain of depth two to 2.2.2.2:80, sent to a server whose own address is 1.2.3.4:80.\<close>

theorem own_server_breaks_chain_witness:
  "\<exists>blob out c. chain_blob text_inet None None (chain_targets 2 (py_lit ''1.2.3.4'', 80) (py_lit ''2.2.2.2'', 80))
      (py_lit ''2.2.2.2'') (py_lit ''/'') = Inr blob \<and>
    threaded_handle text_inet open_hooks demo_dial demo_env [Inr blob] [] = (out, c) \<and>
    take 3 (sv_buf (cn_sess c)) = [5, 1, 0] \<and> LSpliced [] [7, 8] \<in> set (cn_log c)"
proof -
  have "\<not> isl (chain_blob text_inet None None (chain_targets 2 (py_lit ''1.2.3.4'', 80) (py_lit ''2.2.2.2'', 80))
      (fst (py_lit ''2.2.2.2'', 80 :: int)) (py_lit ''/''))" by code_simp
  then obtain blob where b: "chain_blob text_inet None None
      (chain_targets 2 (py_lit ''1.2.3.4'', 80) (py_lit ''2.2.2.2'', 80)) (fst (py_lit ''2.2.2.2'', 80 :: int)) (py_lit ''/'') = Inr blob"
    by (metis sum.collapse(2))
  have w: "py_reply text_inet 0 (py_lit ''10.0.0.1'') 4242 = Inr [5, 0, 0, 1, 10, 0, 0, 1, 16, 146]" by code_simp
  have h: "hk_authorize open_hooks = None" "hk_on_connect open_hooks = None" by (simp_all add: open_hooks_def)
  have d: "demo_dial (Some (seen_host text_inet (py_lit ''1.2.3.4''), 80)) = Inr (py_lit ''10.0.0.1'', 4242)"
    "\<forall>x \<in> set (re_up_sends demo_env). x = None" by (simp_all add: demo_dial_def demo_env_def)
  obtain out c where c: "threaded_handle text_inet open_hooks demo_dial demo_env [Inr blob] [] = (out, c)"
    by fastforce
  from own_server_breaks_chain [where path = "py_lit ''/''", OF text_inet.posix_inet_axioms h order.refl b d(1) w d(2) c]
  have "take 3 (sv_buf (cn_sess c)) = [5, 1, 0]" "LSpliced [] (chunks_of (re_up_rx demo_env)) \<in> set (cn_log c)"
    by blast+
  moreover have "chunks_of (re_up_rx demo_env) = [7, 8]" by (simp add: demo_env_def)
  ultimately show ?thesis using b c by auto
qed

end
