(* ===== verification/SelectorConnect.thy ===== *)
theory SelectorConnect
  imports ClientSessionFacts Transport
begin

text \<open>
  \<^verbatim>\<open>examples/selector_connect.py\<close>: many optimistic handshakes on one thread, over non-blocking
  sockets and a selector. The state of the loop is the list of its connections and the number of
  those still registered. What \<^verbatim>\<open>select\<close> reports, and what \<^verbatim>\<open>send\<close> and \<^verbatim>\<open>recv\<close> give on a socket it
  reports, is arbitrary: a list of batches, one for each call. An empty batch is a \<^verbatim>\<open>select\<close> that
  timed out.
\<close>

section \<open>One connection\<close>

text \<open>\<open>pc_tx\<close> and \<open>pc_rx\<close> record what the kernel took and gave; the program does not read them.\<close>

record pending_conn =
  pc_sess :: session
  pc_pipeline :: bytes
  pc_sent :: nat
  pc_reply :: "reply_obj option"
  pc_tx :: bytes
  pc_rx :: "bytes list"

text \<open>\<open>failure\<close> is what \<^verbatim>\<open>connect_ex\<close> raises, if it does: a name that cannot be resolved.\<close>

definition pending_init ::
  "inet_api \<Rightarrow> py_exn option \<Rightarrow> pystr option \<Rightarrow> pystr option \<Rightarrow> pystr \<Rightarrow> int \<Rightarrow> py_exn + pending_conn" where
  "pending_init I failure user password host port =
     bind_res (session_init user password) (\<lambda>sess.
     bind_res (optimistic_pipeline I sess host port (cmd_value CONNECT)) (\<lambda>pipeline.
     case failure of
       Some e \<Rightarrow> Inl e
     | None \<Rightarrow> Inr \<lparr>pc_sess = sess, pc_pipeline = pipeline, pc_sent = 0, pc_reply = None,
                    pc_tx = [], pc_rx = []\<rparr>))"

datatype interest = EventRead | EventWrite

definition want :: "pending_conn \<Rightarrow> interest" where
  "want pc = (if pc_sent pc < length (pc_pipeline pc) then EventWrite else EventRead)"

text \<open>\<open>send\<close> is the result of the call: how many bytes of what is offered were taken.\<close>

definition on_writable :: "py_exn + nat \<Rightarrow> (pending_conn, unit) io" where
  "on_writable send pc =
     (case send of
        Inl e \<Rightarrow> (Inl e, pc)
      | Inr n \<Rightarrow>
          let offered = drop (pc_sent pc) (pc_pipeline pc); k = min n (length offered)
          in (Inr (), pc\<lparr>pc_sent := pc_sent pc + k, pc_tx := pc_tx pc @ take k offered\<rparr>))"

text \<open>\<open>recv\<close> is the result of \<^verbatim>\<open>recv(4096)\<close>. The message of the code also names the proxy.\<close>

definition on_readable :: "inet_api \<Rightarrow> py_exn + bytes \<Rightarrow> (pending_conn, unit) io" where
  "on_readable I recv pc =
     (case recv of
        Inl e \<Rightarrow> (Inl e, pc)
      | Inr chunk \<Rightarrow>
          if chunk = [] then (Inl (Socks5Err ''closed during handshake''), pc)
          else (case feed I (pc_sess pc) chunk of
                  (Inl e, sess) \<Rightarrow> (Inl e, pc\<lparr>pc_sess := sess, pc_rx := pc_rx pc @ [chunk]\<rparr>)
                | (Inr r, sess) \<Rightarrow>
                    (Inr (), pc\<lparr>pc_sess := sess, pc_reply := r, pc_rx := pc_rx pc @ [chunk]\<rparr>)))"

section \<open>The loop\<close>

text \<open>What \<^verbatim>\<open>send\<close> and \<^verbatim>\<open>recv\<close> would give on a socket that is reported ready.\<close>

type_synonym ready = "(py_exn + nat) \<times> (py_exn + bytes)"

datatype slot = Live pending_conn | FailedConn py_exn pending_conn | DoneConn reply_obj pending_conn

fun is_live :: "slot \<Rightarrow> bool" where
  "is_live (Live pc) = True"
| "is_live _ = False"

definition select_caught :: "py_exn \<Rightarrow> bool" where
  "select_caught e \<longleftrightarrow> is_os_error e \<or> is_socks5_error e"

text \<open>The body of the \<^verbatim>\<open>for\<close>, as far as it touches one connection; a closed one is not registered.\<close>

definition conn_event :: "inet_api \<Rightarrow> ready \<Rightarrow> (pending_conn, unit) io" where
  "conn_event I ready pc =
     (if want pc = EventWrite then on_writable (fst ready) pc else on_readable I (snd ready) pc)"

fun slot_step :: "inet_api \<Rightarrow> ready \<Rightarrow> slot \<Rightarrow> py_exn + slot" where
  "slot_step I ready (Live pc) =
     (case conn_event I ready pc of
        (Inl e, pc') \<Rightarrow> if select_caught e then Inr (FailedConn e pc') else Inl e
      | (Inr _, pc') \<Rightarrow>
          (case pc_reply pc' of
             Some r \<Rightarrow> Inr (DoneConn r pc')
           | None \<Rightarrow> Inr (Live pc')))"
| "slot_step I ready closed = Inr closed"

record selector =
  sl_slots :: "slot list"
  sl_remaining :: nat

definition select_key :: "inet_api \<Rightarrow> nat \<times> ready \<Rightarrow> (selector, unit) io" where
  "select_key I key st =
     (if fst key < length (sl_slots st) \<and> is_live (sl_slots st ! fst key) then
        (case slot_step I (snd key) (sl_slots st ! fst key) of
           Inl e \<Rightarrow> (Inl e, st)
         | Inr s \<Rightarrow>
             (Inr (), st\<lparr>sl_slots := (sl_slots st)[fst key := s],
                         sl_remaining := (if is_live s then sl_remaining st else sl_remaining st - 1)\<rparr>))
      else (Inr (), st))"

fun select_batch :: "inet_api \<Rightarrow> (nat \<times> ready) list \<Rightarrow> (selector, unit) io" where
  "select_batch I [] st = (Inr (), st)"
| "select_batch I (key # keys) st =
     (case select_key I key st of
        (Inl e, st') \<Rightarrow> (Inl e, st')
      | (Inr _, st') \<Rightarrow> select_batch I keys st')"

text \<open>The loop ends, an exception leaves it, or it is in \<^verbatim>\<open>select\<close> with no batch to come.\<close>

datatype select_end = SelDone | SelCrash py_exn | SelWaiting

fun select_loop :: "inet_api \<Rightarrow> (nat \<times> ready) list list \<Rightarrow> selector \<Rightarrow> select_end \<times> selector" where
  "select_loop I [] st = (if sl_remaining st = 0 then SelDone else SelWaiting, st)"
| "select_loop I (batch # batches) st =
     (if sl_remaining st = 0 then (SelDone, st)
      else (case select_batch I batch st of
              (Inl e, st') \<Rightarrow> (SelCrash e, st')
            | (Inr _, st') \<Rightarrow> select_loop I batches st'))"

definition select_start :: "pending_conn list \<Rightarrow> selector" where
  "select_start pcs = \<lparr>sl_slots = map Live pcs, sl_remaining = length pcs\<rparr>"

text \<open>\<^verbatim>\<open>main\<close>: one connection for each proxy, all to one target, without credentials.\<close>

fun open_all :: "inet_api \<Rightarrow> pystr \<Rightarrow> int \<Rightarrow> py_exn option list \<Rightarrow> py_exn + pending_conn list" where
  "open_all I host port [] = Inr []"
| "open_all I host port (failure # rest) =
     bind_res (pending_init I failure None None host port) (\<lambda>pc.
     bind_res (open_all I host port rest) (\<lambda>pcs. Inr (pc # pcs)))"

definition select_main ::
  "inet_api \<Rightarrow> pystr \<Rightarrow> int \<Rightarrow> py_exn option list \<Rightarrow> (nat \<times> ready) list list \<Rightarrow>
     py_exn + select_end \<times> selector" where
  "select_main I host port proxies batches =
     bind_res (open_all I host port proxies) (\<lambda>pcs. Inr (select_loop I batches (select_start pcs)))"

end
