(* ===== verification/SelectorProps.thy ===== *)
theory SelectorProps
  imports SelectorConnect InetText
begin

text \<open>
  What the selector loop promises: connections do not influence one another, each runs one
  handshake exactly, each ends after a bounded number of events, and what can bring down all.
\<close>

section \<open>One connection, as a run of its own\<close>

text \<open>The events of one connection, in the order of the schedule.\<close>

definition events_of :: "nat \<Rightarrow> (nat \<times> ready) list \<Rightarrow> ready list" where
  "events_of i keys = map snd (filter (\<lambda>k. fst k = i) keys)"

lemma events_of_simps [simp]:
  "events_of i [] = []"
  "events_of i ((j, r) # keys) = (if j = i then r # events_of i keys else events_of i keys)"
  "events_of i (xs @ ys) = events_of i xs @ events_of i ys"
  by (simp_all add: events_of_def)

fun slot_run :: "inet_api \<Rightarrow> slot \<Rightarrow> ready list \<Rightarrow> py_exn + slot" where
  "slot_run I s [] = Inr s"
| "slot_run I s (r # rs) = bind_res (slot_step I r s) (\<lambda>s'. slot_run I s' rs)"

lemma slot_step_closed [simp]: "\<not> is_live s \<Longrightarrow> slot_step I r s = Inr s"
  by (cases s) auto

lemma slot_run_closed [simp]: "\<not> is_live s \<Longrightarrow> slot_run I s rs = Inr s"
  by (induction rs) auto

lemma slot_run_append: "slot_run I s (xs @ ys) = bind_res (slot_run I s xs) (\<lambda>t. slot_run I t ys)"
proof (induction xs arbitrary: s)
  case (Cons x xs)
  then show ?case by (cases "slot_step I x s") simp_all
qed simp

declare slot_step.simps [simp del]

section \<open>The loop is the product of its connections\<close>

lemma select_key_length:
  "select_key I k st = (q, st') \<Longrightarrow> length (sl_slots st') = length (sl_slots st)"
  by (auto simp: select_key_def split: if_splits sum.splits)

lemma select_key_slot:
  assumes "select_key I (j, r) st = (Inr u, st')" "i < length (sl_slots st)"
  shows "slot_run I (sl_slots st ! i) (events_of i [(j, r)]) = Inr (sl_slots st' ! i)"
proof (cases "j < length (sl_slots st) \<and> is_live (sl_slots st ! j)")
  case True
  then obtain s where s: "slot_step I r (sl_slots st ! j) = Inr s" "sl_slots st' = (sl_slots st)[j := s]"
    using assms(1) by (cases "slot_step I r (sl_slots st ! j)") (auto simp: select_key_def)
  then show ?thesis using assms(2) by (cases "j = i") simp_all
next
  case False
  then have "st' = st" using assms(1) by (auto simp: select_key_def)
  with False assms(2) show ?thesis by (cases "j = i") simp_all
qed

lemma select_batch_slot:
  assumes "select_batch I keys st = (Inr u, st')" "i < length (sl_slots st)"
  shows "slot_run I (sl_slots st ! i) (events_of i keys) = Inr (sl_slots st' ! i) \<and>
    length (sl_slots st') = length (sl_slots st)"
  using assms
proof (induction keys arbitrary: st)
  case (Cons k keys)
  obtain j r where k: "k = (j, r)" by (cases k)
  obtain v t where t: "select_key I (j, r) st = (Inr v, t)" "select_batch I keys t = (Inr u, st')"
    using Cons.prems(1) k by (auto split: prod.splits sum.splits)
  have "slot_run I (sl_slots t ! i) (events_of i keys) = Inr (sl_slots st' ! i) \<and>
      length (sl_slots st') = length (sl_slots t)"
    using Cons.IH [OF t(2)] Cons.prems(2) select_key_length [OF t(1)] by simp
  moreover have "slot_run I (sl_slots st ! i) (events_of i [(j, r)] @ events_of i keys) =
      slot_run I (sl_slots t ! i) (events_of i keys)"
    by (simp only: slot_run_append select_key_slot [OF t(1) Cons.prems(2)] bind_res.simps)
  ultimately show ?case using select_key_length [OF t(1)] k by (auto split: if_splits)
qed simp

text \<open>The number of those registered is kept right.\<close>

definition counted :: "selector \<Rightarrow> bool" where
  "counted st \<longleftrightarrow> sl_remaining st = length (filter is_live (sl_slots st))"

lemma filter_update:
  "i < length xs \<Longrightarrow> P (xs ! i) \<Longrightarrow>
     length (filter P (xs[i := y])) = length (filter P xs) - (if P y then 0 else 1)"
proof (induction xs arbitrary: i)
  case (Cons x xs)
  show ?case
  proof (cases i)
    case (Suc k)
    then have "0 < length (filter P xs)"
      using Cons.prems by (auto simp: filter_empty_conv dest: nth_mem)
    then show ?thesis using Cons Suc by (simp add: Suc_diff_le)
  qed (use Cons.prems in simp)
qed simp

lemma select_key_counted:
  assumes "counted st" "select_key I k st = (q, st')"
  shows "counted st'"
proof (cases "fst k < length (sl_slots st) \<and> is_live (sl_slots st ! fst k)")
  case True
  then show ?thesis
    using assms filter_update [of "fst k" "sl_slots st" is_live]
    by (cases "slot_step I (snd k) (sl_slots st ! fst k)") (auto simp: select_key_def counted_def)
qed (use assms in \<open>auto simp: select_key_def\<close>)

lemma select_batch_counted: "counted st \<Longrightarrow> select_batch I keys st = (q, st') \<Longrightarrow> counted st'"
  by (induction keys arbitrary: st) (auto split: prod.splits sum.splits dest: select_key_counted)

lemma counted_done: "counted st \<Longrightarrow> sl_remaining st = 0 \<Longrightarrow> i < length (sl_slots st) \<Longrightarrow> \<not> is_live (sl_slots st ! i)"
  by (auto simp: counted_def filter_empty_conv)

lemma select_loop_slot:
  assumes "select_loop I batches st = (e, st')" "\<And>x. e \<noteq> SelCrash x" "counted st" "i < length (sl_slots st)"
  shows "slot_run I (sl_slots st ! i) (events_of i (concat batches)) = Inr (sl_slots st' ! i) \<and>
    length (sl_slots st') = length (sl_slots st) \<and> counted st'"
  using assms
proof (induction batches arbitrary: st)
  case (Cons b bs)
  show ?case
  proof (cases "sl_remaining st = 0")
    case True
    then show ?thesis using Cons.prems counted_done by simp
  next
    case False
    then obtain u t where t: "select_batch I b st = (Inr u, t)" "select_loop I bs t = (e, st')"
      using Cons.prems(1,2) by (auto split: prod.splits sum.splits)
    note b = select_batch_slot [OF t(1) Cons.prems(4)]
    then show ?thesis
      using Cons.IH [OF t(2) Cons.prems(2) select_batch_counted [OF Cons.prems(3) t(1)]] Cons.prems(4)
      by (simp add: slot_run_append)
  qed
qed (auto split: if_splits)

lemma select_batch_length: "select_batch I keys st = (q, st') \<Longrightarrow> length (sl_slots st') = length (sl_slots st)"
proof (induction keys arbitrary: st)
  case (Cons k keys)
  obtain r t where t: "select_key I k st = (r, t)" by (cases "select_key I k st")
  show ?case using Cons t select_key_length [OF t] by (cases r) auto
qed simp

lemma select_loop_length: "select_loop I bs st = (e, st') \<Longrightarrow> length (sl_slots st') = length (sl_slots st)"
proof (induction bs arbitrary: st)
  case (Cons b bs)
  obtain r t where t: "select_batch I b st = (r, t)" by (cases "select_batch I b st")
  show ?case using Cons t select_batch_length [OF t] by (cases r) (auto split: if_splits)
qed (auto split: if_splits)

lemma select_loop_counted: "counted st \<Longrightarrow> select_loop I bs st = (e, st') \<Longrightarrow> counted st'"
  by (induction bs arbitrary: st) (auto split: prod.splits sum.splits if_splits dest: select_batch_counted)

lemma select_loop_waiting: "select_loop I bs st = (SelWaiting, st') \<Longrightarrow> sl_remaining st' \<noteq> 0"
  by (induction bs arbitrary: st) (auto split: prod.splits sum.splits if_splits)

lemma select_loop_crash:
  "select_loop I bs st = (SelCrash e, st') \<Longrightarrow> \<exists>b st0. b \<in> set bs \<and> select_batch I b st0 = (Inl e, st')"
  by (induction bs arbitrary: st) (fastforce split: prod.splits sum.splits if_splits)+

lemma select_start_counted [simp]: "counted (select_start pcs)"
  by (simp add: counted_def select_start_def filter_True)

section \<open>The run of one connection\<close>

lemma feed_all_snoc:
  "feed_all I s cs = (Inr None, t, []) \<Longrightarrow> feed_all I s (cs @ [c]) = (case feed I t c of (r, t') \<Rightarrow> (r, t', []))"
proof (induction cs arbitrary: s)
  case (Cons d cs)
  then show ?case by (cases "feed I s d") (auto split: sum.splits option.splits)
qed (auto split: sum.splits option.splits prod.splits)

text \<open>What a connection has sent and read, and what its session made of it.\<close>

definition pending_ok :: "pending_conn \<Rightarrow> pending_conn \<Rightarrow> bool" where
  "pending_ok pc0 pc \<longleftrightarrow>
     pc_pipeline pc = pc_pipeline pc0 \<and> pc_sent pc \<le> length (pc_pipeline pc) \<and>
     pc_tx pc = take (pc_sent pc) (pc_pipeline pc) \<and> [] \<notin> set (pc_rx pc) \<and>
     (pc_rx pc \<noteq> [] \<longrightarrow> pc_sent pc = length (pc_pipeline pc))"

fun slot_ok :: "inet_api \<Rightarrow> pending_conn \<Rightarrow> slot \<Rightarrow> bool" where
  "slot_ok I pc0 (Live pc) =
     (pending_ok pc0 pc \<and> pc_reply pc = None \<and>
      feed_all I (pc_sess pc0) (pc_rx pc) = (Inr None, pc_sess pc, []))"
| "slot_ok I pc0 (FailedConn e pc) = pending_ok pc0 pc"
| "slot_ok I pc0 (DoneConn r pc) =
     (pending_ok pc0 pc \<and> pc_rx pc \<noteq> [] \<and>
      feed_all I (pc_sess pc0) (pc_rx pc) = (Inr (Some r), pc_sess pc, []))"

lemma on_writable_ok:
  assumes "pending_ok pc0 pc" "want pc = EventWrite" "on_writable send pc = (q, pc')"
  shows "pending_ok pc0 pc' \<and> pc_reply pc' = pc_reply pc \<and> pc_sess pc' = pc_sess pc \<and> pc_rx pc' = pc_rx pc \<and>
    (\<forall>n. send = Inr n \<longrightarrow> pc_sent pc' = pc_sent pc + min n (length (pc_pipeline pc) - pc_sent pc))"
  using assms
  by (auto simp: on_writable_def pending_ok_def want_def Let_def take_add
      split: sum.splits if_splits)

lemma on_readable_ok:
  assumes "pending_ok pc0 pc" "want pc = EventRead" "on_readable I recv pc = (q, pc')"
  shows "pending_ok pc0 pc'"
    and "q = Inr u \<Longrightarrow> \<exists>c r. recv = Inr c \<and> c \<noteq> [] \<and> feed I (pc_sess pc) c = (Inr r, pc_sess pc') \<and>
      pc_reply pc' = r \<and> pc_rx pc' = pc_rx pc @ [c] \<and> pc_sent pc' = pc_sent pc"
  using assms
  by (auto simp: on_readable_def pending_ok_def want_def split: sum.splits if_splits prod.splits)

lemma conn_event_ok:
  assumes "pending_ok pc0 pc" "conn_event I r pc = (q, pc')"
  shows "pending_ok pc0 pc'"
    and "q = Inr u \<Longrightarrow> want pc = EventWrite \<and> pc_reply pc' = pc_reply pc \<and> pc_sess pc' = pc_sess pc \<and>
        pc_rx pc' = pc_rx pc \<or>
      want pc = EventRead \<and> (\<exists>c. c \<noteq> [] \<and> feed I (pc_sess pc) c = (Inr (pc_reply pc'), pc_sess pc') \<and>
        pc_rx pc' = pc_rx pc @ [c] \<and> pc_sent pc' = pc_sent pc)"
  using assms on_writable_ok [of pc0 pc "fst r" q pc'] on_readable_ok [of pc0 pc I "snd r" q pc']
  by (cases "want pc"; force simp: conn_event_def)+

lemma slot_step_cases:
  assumes "slot_step I r (Live pc) = Inr s"
  obtains (failed) e pc' where "s = FailedConn e pc'" "conn_event I r pc = (Inl e, pc')"
  | (goes_on) pc' where "conn_event I r pc = (Inr (), pc')"
      "s = (case pc_reply pc' of Some v \<Rightarrow> DoneConn v pc' | None \<Rightarrow> Live pc')"
proof (cases "conn_event I r pc")
  case (Pair q pc')
  then show ?thesis
    using assms that by (cases q; cases "pc_reply pc'") (auto simp: slot_step.simps split: if_splits)
qed

lemma slot_step_ok:
  assumes "slot_ok I pc0 s" "slot_step I r s = Inr s'"
  shows "slot_ok I pc0 s'"
proof (cases s)
  case (Live pc)
  then have ok: "pending_ok pc0 pc" "pc_reply pc = None"
      "feed_all I (pc_sess pc0) (pc_rx pc) = (Inr None, pc_sess pc, [])" using assms(1) by simp_all
  from assms(2) [unfolded Live] show ?thesis
  proof (cases rule: slot_step_cases)
    case (failed e pc')
    then show ?thesis using conn_event_ok(1) [OF ok(1)] by simp
  next
    case (goes_on pc')
    note k = conn_event_ok [OF ok(1) goes_on(1)]
    show ?thesis
    proof (cases "want pc")
      case EventWrite
      then show ?thesis using k ok goes_on(2) by simp
    next
      case EventRead
      then obtain c where c: "feed I (pc_sess pc) c = (Inr (pc_reply pc'), pc_sess pc')"
        "pc_rx pc' = pc_rx pc @ [c]" using k(2) by auto
      then have "feed_all I (pc_sess pc0) (pc_rx pc') = (Inr (pc_reply pc'), pc_sess pc', [])"
        using feed_all_snoc [OF ok(3), of c] by simp
      then show ?thesis using c k(1) goes_on(2) by (auto split: option.splits)
    qed
  qed
qed (use assms in \<open>auto simp del: slot_ok.simps\<close>)

lemma slot_run_ok: "slot_ok I pc0 s \<Longrightarrow> slot_run I s rs = Inr s' \<Longrightarrow> slot_ok I pc0 s'"
  by (induction rs arbitrary: s) (auto simp: result_simps dest: slot_step_ok)

lemma pending_init_ok:
  assumes "pending_init I f user pass host port = Inr pc"
  shows "slot_ok I pc (Live pc)" "session_init user pass = Inr (pc_sess pc)"
    "optimistic_pipeline I (pc_sess pc) host port 1 = Inr (pc_pipeline pc)"
  using assms by (auto simp: pending_init_def result_simps pending_ok_def split: option.splits)

text \<open>The same along the loop, also where it crashes.\<close>

definition selector_ok :: "inet_api \<Rightarrow> pending_conn list \<Rightarrow> selector \<Rightarrow> bool" where
  "selector_ok I pcs st \<longleftrightarrow>
     length (sl_slots st) = length pcs \<and> (\<forall>i < length pcs. slot_ok I (pcs ! i) (sl_slots st ! i))"

lemma select_key_ok:
  assumes "selector_ok I pcs st" "select_key I k st = (q, st')"
  shows "selector_ok I pcs st'"
proof (cases "st' = st")
  case False
  then obtain s where "slot_step I (snd k) (sl_slots st ! fst k) = Inr s" "sl_slots st' = (sl_slots st)[fst k := s]"
    "fst k < length (sl_slots st)"
    using assms(2) by (auto simp: select_key_def split: if_splits sum.splits)
  then show ?thesis
    using assms(1) slot_step_ok [of I "pcs ! fst k" "sl_slots st ! fst k" "snd k" s]
    by (auto simp: selector_ok_def nth_list_update)
qed (use assms in simp)

lemma select_batch_ok: "selector_ok I pcs st \<Longrightarrow> select_batch I keys st = (q, st') \<Longrightarrow> selector_ok I pcs st'"
  by (induction keys arbitrary: st) (auto split: prod.splits sum.splits dest: select_key_ok)

lemma select_loop_ok: "selector_ok I pcs st \<Longrightarrow> select_loop I bs st = (e, st') \<Longrightarrow> selector_ok I pcs st'"
  by (induction bs arbitrary: st) (auto split: prod.splits sum.splits if_splits dest: select_batch_ok)

definition fresh_conn :: "inet_api \<Rightarrow> pending_conn \<Rightarrow> bool" where
  "fresh_conn I pc \<longleftrightarrow> (\<exists>user pass host port. pending_init I None user pass host port = Inr pc)"

lemma fresh_conn_ok: "fresh_conn I pc \<Longrightarrow> slot_ok I pc (Live pc)"
  unfolding fresh_conn_def using pending_init_ok(1) by blast

lemma select_start_ok: "list_all (fresh_conn I) pcs \<Longrightarrow> selector_ok I pcs (select_start pcs)"
  by (simp add: selector_ok_def select_start_def list_all_length fresh_conn_ok del: slot_ok.simps)

section \<open>Isolation\<close>

text \<open>Also when the loop crashes: each connection is where a front part of its own events took it.\<close>

lemma select_batch_front:
  assumes "select_batch I keys st = (Inl e, st')"
  shows "\<exists>front j r later. keys = front @ (j, r) # later \<and> j < length (sl_slots st) \<and>
    slot_step I r (sl_slots st' ! j) = Inl e \<and>
    (\<forall>i < length (sl_slots st). slot_run I (sl_slots st ! i) (events_of i front) = Inr (sl_slots st' ! i))"
  using assms
proof (induction keys arbitrary: st)
  case (Cons k keys)
  obtain j r where k: "k = (j, r)" by (cases k)
  obtain q t where t: "select_key I (j, r) st = (q, t)" by (cases "select_key I (j, r) st")
  show ?case
  proof (cases q)
    case (Inl x)
    then have "j < length (sl_slots st)" "slot_step I r (sl_slots st' ! j) = Inl e" "st' = st"
      using t k Cons.prems by (auto simp: select_key_def split: if_splits sum.splits)
    then show ?thesis using k by (intro exI [of _ "[]"] exI [of _ j] exI [of _ r] exI [of _ keys]) simp
  next
    case (Inr u)
    then have "select_batch I keys t = (Inl e, st')" using Cons.prems t k by simp
    from Cons.IH [OF this] select_key_length [OF t] obtain front j' r' later where
      n: "keys = front @ (j', r') # later" "j' < length (sl_slots st)" "slot_step I r' (sl_slots st' ! j') = Inl e"
      "\<forall>i < length (sl_slots st). slot_run I (sl_slots t ! i) (events_of i front) = Inr (sl_slots st' ! i)"
      by auto
    have "slot_run I (sl_slots st ! i) (events_of i ([(j, r)] @ front)) = Inr (sl_slots st' ! i)"
      if "i < length (sl_slots st)" for i
      using select_key_slot [OF t [unfolded Inr] that] n(4) that
      by (simp only: events_of_simps(3) slot_run_append bind_res.simps)
    then show ?thesis
      using n(1-3) k by (intro exI [of _ "(j, r) # front"] exI [of _ j'] exI [of _ r'] exI [of _ later]) simp
  qed
qed simp

lemma select_loop_front:
  assumes "select_loop I batches st = (SelCrash e, st')"
  shows "\<exists>front j r later. concat batches = front @ (j, r) # later \<and> j < length (sl_slots st) \<and>
    slot_step I r (sl_slots st' ! j) = Inl e \<and>
    (\<forall>i < length (sl_slots st). slot_run I (sl_slots st ! i) (events_of i front) = Inr (sl_slots st' ! i))"
  using assms
proof (induction batches arbitrary: st)
  case (Cons b bs)
  have nz: "sl_remaining st \<noteq> 0" using Cons.prems by (auto split: if_splits)
  obtain q t where t: "select_batch I b st = (q, t)" by (cases "select_batch I b st")
  show ?case
  proof (cases q)
    case (Inl x)
    then have "select_batch I b st = (Inl e, st')" using Cons.prems t nz by simp
    from select_batch_front [OF this] obtain front j r later where
      n: "b = front @ (j, r) # later" "j < length (sl_slots st)" "slot_step I r (sl_slots st' ! j) = Inl e"
      "\<forall>i < length (sl_slots st). slot_run I (sl_slots st ! i) (events_of i front) = Inr (sl_slots st' ! i)"
      by blast
    then show ?thesis
      by (intro exI [of _ front] exI [of _ j] exI [of _ r] exI [of _ "later @ concat bs"]) simp
  next
    case (Inr u)
    then have "select_loop I bs t = (SelCrash e, st')" using Cons.prems t nz by simp
    from Cons.IH [OF this] select_batch_length [OF t] obtain front j r later where
      n: "concat bs = front @ (j, r) # later" "j < length (sl_slots st)" "slot_step I r (sl_slots st' ! j) = Inl e"
      "\<forall>i < length (sl_slots st). slot_run I (sl_slots t ! i) (events_of i front) = Inr (sl_slots st' ! i)"
      by auto
    have "slot_run I (sl_slots st ! i) (events_of i (b @ front)) = Inr (sl_slots st' ! i)"
      if "i < length (sl_slots st)" for i
      using select_batch_slot [OF t [unfolded Inr] that] n(4) that by (simp add: slot_run_append)
    then show ?thesis
      using n(1-3) by (intro exI [of _ "b @ front"] exI [of _ j] exI [of _ r] exI [of _ later]) simp
  qed
qed (simp split: if_splits)

text \<open>One connection in a loop of its own, one event for each \<^verbatim>\<open>select\<close>.\<close>

definition own_loop :: "inet_api \<Rightarrow> pending_conn \<Rightarrow> ready list \<Rightarrow> select_end \<times> selector" where
  "own_loop I pc rs = select_loop I (map (\<lambda>r. [(0, r)]) rs) (select_start [pc])"

lemma own_events [simp]:
  "events_of 0 (concat (map (\<lambda>r. [(0, r)]) rs)) = rs" "events_of 0 (map (Pair 0) rs) = rs"
  by (induction rs) simp_all

lemma own_loop_front:
  assumes "own_loop I pc rs = (SelCrash x, st)"
  shows "slot_run I (Live pc) rs = Inl x"
proof -
  from select_loop_front [OF assms [unfolded own_loop_def]] obtain front r later where
    f: "concat (map (\<lambda>r. [(0, r)]) rs) = front @ (0, r) # later" "slot_step I r (sl_slots st ! 0) = Inl x"
    "slot_run I (Live pc) (events_of 0 front) = Inr (sl_slots st ! 0)"
    by (auto simp: select_start_def)
  have "rs = events_of 0 front @ r # events_of 0 later"
    using own_events [of rs] unfolding f(1) by simp
  then show ?thesis using f(2,3) by (simp add: slot_run_append)
qed

lemma own_loop_ends:
  assumes "own_loop I pc rs = (e, st)" "\<And>x. e \<noteq> SelCrash x"
  shows "\<exists>s. slot_run I (Live pc) rs = Inr s \<and> sl_slots st = [s]"
  using select_loop_slot [OF assms(1) [unfolded own_loop_def] assms(2) select_start_counted, of 0]
  by (cases "sl_slots st") (auto simp: select_start_def)

lemma own_loop_run:
  "slot_run I (Live pc) rs = Inr s \<Longrightarrow>
     \<exists>e st. own_loop I pc rs = (e, st) \<and> (\<forall>x. e \<noteq> SelCrash x) \<and> sl_slots st = [s]"
  "slot_run I (Live pc) rs = Inl x \<Longrightarrow> fst (own_loop I pc rs) = SelCrash x"
proof -
  obtain e st where l: "own_loop I pc rs = (e, st)" by (cases "own_loop I pc rs")
  show "\<exists>e st. own_loop I pc rs = (e, st) \<and> (\<forall>x. e \<noteq> SelCrash x) \<and> sl_slots st = [s]"
    if s: "slot_run I (Live pc) rs = Inr s"
  proof -
    have "\<forall>x. e \<noteq> SelCrash x" using own_loop_front [of I pc rs _ st] l s by auto
    with own_loop_ends [OF l] l s show ?thesis by auto
  qed
  show "fst (own_loop I pc rs) = SelCrash x" if s: "slot_run I (Live pc) rs = Inl x"
  proof (cases "\<exists>y. e = SelCrash y")
    case True
    then show ?thesis using own_loop_front [of I pc rs _ st] l s by auto
  next
    case False
    then show ?thesis using own_loop_ends [OF l] s by auto
  qed
qed

text \<open>C11. Connections do not influence one another, except that an exception that leaves the loop
  stops all: in any company, and however the calls of \<^verbatim>\<open>select\<close> mix the events, what has become of a
  connection is what becomes of it in a loop of its own over a front part of its own events, and over
  all of them unless the loop crashed. A loop crashes only with an exception that one of its
  connections raises in a loop of its own.\<close>

theorem selector_isolated:
  assumes "select_loop I bs (select_start pcs) = (e, st)"
  shows "(\<forall>i < length pcs. \<exists>front later e' st'.
      events_of i (concat bs) = front @ later \<and> own_loop I (pcs ! i) front = (e', st') \<and>
      (\<forall>x. e' \<noteq> SelCrash x) \<and> sl_slots st' = [sl_slots st ! i] \<and> (later = [] \<or> (\<exists>x. e = SelCrash x))) \<and>
    (\<forall>x. e = SelCrash x \<longrightarrow>
       (\<exists>j < length pcs. fst (own_loop I (pcs ! j) (events_of j (concat bs))) = SelCrash x))"
proof (intro conjI allI impI)
  have slots: "length (sl_slots (select_start pcs)) = length pcs"
    "i < length pcs \<Longrightarrow> sl_slots (select_start pcs) ! i = Live (pcs ! i)" for i
    by (simp_all add: select_start_def)
  have crash: "\<exists>front j r later. concat bs = front @ (j, r) # later \<and> j < length pcs \<and>
      slot_step I r (sl_slots st ! j) = Inl x \<and>
      (\<forall>i < length pcs. slot_run I (Live (pcs ! i)) (events_of i front) = Inr (sl_slots st ! i))"
    if "e = SelCrash x" for x
    using select_loop_front [OF assms [unfolded that]] slots by simp
  show "\<exists>j < length pcs. fst (own_loop I (pcs ! j) (events_of j (concat bs))) = SelCrash x"
    if "e = SelCrash x" for x
  proof -
    from crash [OF that] obtain front j r later where
      f: "concat bs = front @ (j, r) # later" "j < length pcs" "slot_step I r (sl_slots st ! j) = Inl x"
      "slot_run I (Live (pcs ! j)) (events_of j front) = Inr (sl_slots st ! j)" by blast
    have "slot_run I (Live (pcs ! j)) (events_of j (concat bs)) = Inl x"
      using f(1,3,4) by (simp add: slot_run_append)
    from own_loop_run(2) [OF this] f(2) show ?thesis by (intro exI conjI)
  qed
  fix i assume i: "i < length pcs"
  have "\<exists>front later. events_of i (concat bs) = front @ later \<and> (later = [] \<or> (\<exists>x. e = SelCrash x)) \<and>
      slot_run I (Live (pcs ! i)) front = Inr (sl_slots st ! i)"
  proof (cases "\<exists>x. e = SelCrash x")
    case True
    then obtain x where x: "e = SelCrash x" by blast
    from crash [OF x] i obtain front j r later where f: "concat bs = front @ (j, r) # later"
      "slot_run I (Live (pcs ! i)) (events_of i front) = Inr (sl_slots st ! i)" by blast
    have "events_of i (concat bs) = events_of i front @ events_of i ((j, r) # later)"
      unfolding f(1) by (rule events_of_simps(3))
    with f(2) x show ?thesis by (intro exI conjI disjI2)
  next
    case False
    then have "slot_run I (Live (pcs ! i)) (events_of i (concat bs)) = Inr (sl_slots st ! i)"
      using select_loop_slot [OF assms _ select_start_counted, of i] i by (simp add: select_start_def)
    then show ?thesis by (intro exI [of _ "events_of i (concat bs)"] exI [of _ "[]"]) simp
  qed
  then obtain front later where f: "events_of i (concat bs) = front @ later" "later = [] \<or> (\<exists>x. e = SelCrash x)"
    "slot_run I (Live (pcs ! i)) front = Inr (sl_slots st ! i)" by (elim exE conjE)
  from own_loop_run(1) [OF f(3)] obtain e' st' where "own_loop I (pcs ! i) front = (e', st')"
    "\<forall>x. e' \<noteq> SelCrash x" "sl_slots st' = [sl_slots st ! i]" by (elim exE conjE)
  with f(1,2) show "\<exists>front later e' st'.
      events_of i (concat bs) = front @ later \<and> own_loop I (pcs ! i) front = (e', st') \<and>
      (\<forall>x. e' \<noteq> SelCrash x) \<and> sl_slots st' = [sl_slots st ! i] \<and> (later = [] \<or> (\<exists>x. e = SelCrash x))"
    by (intro exI conjI)
qed

text \<open>Two proxies; the pipeline goes out in pieces, and the answers come in pieces.\<close>

definition demo_pending :: pending_conn where
  "demo_pending = \<lparr>pc_sess = \<lparr>ss_user = None, ss_pass = None, ss_auth = False, ss_buf = [], ss_state = SMethod,
       ss_reply = None\<rparr>, pc_pipeline = [5, 1, 0, 5, 1, 0, 1, 1, 2, 3, 4, 0, 80], pc_sent = 0, pc_reply = None,
     pc_tx = [], pc_rx = []\<rparr>"

definition demo_batches :: "(nat \<times> ready) list list" where
  "demo_batches =
     [[(0, Inr 20, Inr []), (1, Inr 4, Inr [])], [], [(1, Inr 9, Inr []), (0, Inr 0, Inr [5, 0, 5])],
      [(1, Inr 0, Inr [5, 255]), (0, Inr 0, Inr [0, 0, 1, 9, 9, 9, 9, 0, 53, 84])]]"

definition demo_reply :: reply_obj where
  "demo_reply = \<lparr>r_rep = 0, r_host = seen_host text_inet (py_lit ''9.9.9.9''), r_port = 53\<rparr>"

lemma demo_fresh: "fresh_conn text_inet demo_pending"
proof -
  have "pending_init text_inet None None None (py_lit ''1.2.3.4'') 80 = Inr demo_pending" by code_simp
  then show ?thesis unfolding fresh_conn_def by blast
qed

lemma demo_run:
  "fst (select_loop text_inet demo_batches (select_start [demo_pending, demo_pending])) = SelDone"
  "map is_live (sl_slots (snd (select_loop text_inet demo_batches (select_start [demo_pending, demo_pending])))) =
     [False, False]"
  by code_simp+

text \<open>The second of two is answered with a host that is not UTF-8 and brings down the loop.\<close>

theorem selector_isolated_witness:
  "\<exists>st front later e' st' j. select_loop text_inet
       [[(0, Inr 13, Inr []), (1, Inr 13, Inr [])], [(1, Inr 0, Inr [5, 0, 5, 0, 0, 3, 1, 255, 0, 80]), (0, Inr 0, Inr [5])]]
       (select_start [demo_pending, demo_pending]) = (SelCrash UnicodeDecodeErr, st) \<and>
     [(Inr 13, Inr []), (Inr 0, Inr [5])] = front @ later \<and> own_loop text_inet demo_pending front = (e', st') \<and>
     sl_slots st' = [sl_slots st ! 0] \<and> j < 2 \<and>
     (\<exists>rs. fst (own_loop text_inet ([demo_pending, demo_pending] ! j) rs) = SelCrash UnicodeDecodeErr)"
proof -
  let ?bs = "[[(0, Inr 13, Inr []), (1, Inr 13, Inr [])], [(1, Inr 0, Inr [5, 0, 5, 0, 0, 3, 1, 255, 0, 80]), (0, Inr 0, Inr [5])]]
    :: (nat \<times> ready) list list"
  let ?pcs = "[demo_pending, demo_pending]"
  have "fst (select_loop text_inet ?bs (select_start ?pcs)) = SelCrash UnicodeDecodeErr" by code_simp
  then obtain st where st: "select_loop text_inet ?bs (select_start ?pcs) = (SelCrash UnicodeDecodeErr, st)"
    by (metis prod.collapse)
  note t = selector_isolated [OF st]
  from t [THEN conjunct1, rule_format, of 0] obtain front later e' st' where
    f: "events_of 0 (concat ?bs) = front @ later" "own_loop text_inet (?pcs ! 0) front = (e', st')"
      "sl_slots st' = [sl_slots st ! 0]" by auto
  from t [THEN conjunct2, rule_format, OF refl] obtain j where
    j: "j < length ?pcs" "fst (own_loop text_inet (?pcs ! j) (events_of j (concat ?bs))) = SelCrash UnicodeDecodeErr"
    by (elim exE conjE)
  have "events_of 0 (concat ?bs) = [(Inr 13, Inr []), (Inr 0, Inr [5])]" "?pcs ! 0 = demo_pending" by simp_all
  with f have "[(Inr 13, Inr []), (Inr 0, Inr [5])] = front @ later" "own_loop text_inet demo_pending front = (e', st')"
    by (simp_all only:)
  moreover have "j < 2" using j(1) by simp
  ultimately show ?thesis using st f(3) j(2) by (intro exI conjI)
qed

section \<open>Each handshake is exact\<close>

text \<open>C13. A connection that the loop reports as done has sent its pipeline, whole and once, however
  little each \<^verbatim>\<open>send\<close> took; and what it read is the accepting replies, one reply message, which
  is the one reported, and bytes of the tunnel that are kept apart as \<^verbatim>\<open>leftover\<close>.\<close>

theorem selector_handshake:
  assumes "list_all (fresh_conn I) pcs" "i < length pcs"
    and "pending_init I None user pass host port = Inr (pcs ! i)"
    and "select_loop I bs (select_start pcs) = (e, st)" "sl_slots st ! i = DoneConn r pc"
  shows "(\<exists>sess. session_init user pass = Inr sess \<and> optimistic_pipeline I sess host port 1 = Inr (pc_tx pc)) \<and>
    (\<exists>w p. concat (pc_rx pc) = accept_bytes (user \<noteq> None) @ w @ leftover (pc_sess pc) \<and>
       reply_size w = Some (length w) \<and> py_parse_reply I w = Inr (Some p) \<and> r = mk_reply p)"
proof -
  have "selector_ok I pcs st" by (rule select_loop_ok [OF select_start_ok [OF assms(1)] assms(4)])
  then have ok: "slot_ok I (pcs ! i) (DoneConn r pc)"
    using assms(2,5) by (auto simp: selector_ok_def simp del: slot_ok.simps)
  then have f: "feed_all I (pc_sess (pcs ! i)) (pc_rx pc) = (Inr (Some r), pc_sess pc, [])"
    "pc_rx pc \<noteq> []" "pc_tx pc = pc_pipeline (pcs ! i)" by (simp_all add: pending_ok_def)
  note init = pending_init_ok [OF assms(3)]
  from feed_all_concat [OF init(2) f(2,1)]
  have "feed I (pc_sess (pcs ! i)) (concat (pc_rx pc)) = (Inr (Some r), pc_sess pc)" by simp
  from fresh_feed_consumes [OF init(2) this] init(2,3) f(3) show ?thesis by auto
qed

theorem selector_handshake_witness:
  "\<exists>st r pc w p. select_loop text_inet demo_batches (select_start [demo_pending, demo_pending]) = (SelDone, st) \<and>
     sl_slots st ! 0 = DoneConn r pc \<and>
     concat (pc_rx pc) = accept_bytes False @ w @ leftover (pc_sess pc) \<and>
     py_parse_reply text_inet w = Inr (Some p) \<and> r = mk_reply p"
proof -
  have i: "pending_init text_inet None None None (py_lit ''1.2.3.4'') 80 = Inr ([demo_pending, demo_pending] ! 0)"
    by code_simp
  have a: "list_all (fresh_conn text_inet) [demo_pending, demo_pending]" by (simp add: demo_fresh)
  obtain st where st: "select_loop text_inet demo_batches (select_start [demo_pending, demo_pending]) = (SelDone, st)"
    using demo_run(1) by (metis prod.collapse)
  have "(case sl_slots (snd (select_loop text_inet demo_batches (select_start [demo_pending, demo_pending]))) ! 0 of
      DoneConn r pc \<Rightarrow> True | _ \<Rightarrow> False)" by code_simp
  then obtain r pc where d: "sl_slots st ! 0 = DoneConn r pc" using st by (auto split: slot.splits)
  from selector_handshake [OF a _ i st d] st d show ?thesis by auto
qed

section \<open>The loop ends\<close>

text \<open>An event that moves a connection on: not a \<^verbatim>\<open>send\<close> that takes nothing.\<close>

definition productive :: "ready \<Rightarrow> bool" where
  "productive r \<longleftrightarrow> fst r \<noteq> Inr 0"

lemma slot_step_progress:
  assumes "slot_ok I pc0 (Live pc)" "productive r" "slot_step I r (Live pc) = Inr (Live pc')"
  shows "pc_sent pc + length (concat (pc_rx pc)) < pc_sent pc' + length (concat (pc_rx pc'))"
proof -
  have ok: "pending_ok pc0 pc" using assms(1) by simp
  from assms(3) show ?thesis
  proof (cases rule: slot_step_cases)
    case (goes_on pc'')
    then have e: "conn_event I r pc = (Inr (), pc')" by (auto split: option.splits)
    show ?thesis
    proof (cases "want pc")
      case EventWrite
      then obtain n where "fst r = Inr n" "on_writable (Inr n) pc = (Inr (), pc')"
        using e by (cases "fst r") (auto simp: conn_event_def on_writable_def)
      then show ?thesis
        using on_writable_ok [OF ok EventWrite] assms(2) EventWrite
        by (fastforce simp: productive_def want_def split: if_splits)
    next
      case EventRead
      then show ?thesis using conn_event_ok(2) [OF ok e] by auto
    qed
  qed simp
qed

lemma slot_run_progress:
  assumes "slot_run I s rs = Inr (Live pc')" "s = Live pc" "slot_ok I pc0 s" "list_all productive rs"
  shows "length rs + pc_sent pc + length (concat (pc_rx pc)) \<le> pc_sent pc' + length (concat (pc_rx pc'))"
  using assms
proof (induction rs arbitrary: s pc)
  case (Cons r rs)
  then obtain s1 where s1: "slot_step I r s = Inr s1" "slot_run I s1 rs = Inr (Live pc')"
    by (auto simp: result_simps)
  have "is_live s1" using s1(2) slot_run_closed [of s1 I rs] by (cases s1) auto
  then obtain pc1 where p: "s1 = Live pc1" by (cases s1) auto
  have "slot_ok I pc0 s1" by (rule slot_step_ok [OF Cons.prems(3) s1(1)])
  from Cons.IH [OF s1(2) p this] Cons.prems(4) slot_step_progress [of I pc0 pc r pc1] Cons.prems(2,3) s1(1) p
  show ?case by simp
qed simp

lemma live_bound:
  assumes "pending_init I None user pass host port = Inr pc0" "slot_ok I pc0 (Live pc)"
  shows "pc_sent pc + length (concat (pc_rx pc)) < length (pc_pipeline pc0) + 266"
proof -
  note init = pending_init_ok [OF assms(1)]
  have "length (concat (pc_rx pc)) < 266"
  proof (cases "pc_rx pc = []")
    case False
    have "feed_all I (pc_sess pc0) (pc_rx pc) = (Inr None, pc_sess pc, [])" using assms(2) by simp
    from fresh_feed_waits [OF init(2) feed_all_concat [OF init(2) False this]] show ?thesis .
  qed simp
  moreover have "pc_sent pc \<le> length (pc_pipeline pc0)" using assms(2) by (auto simp: pending_ok_def)
  ultimately show ?thesis by simp
qed

text \<open>Every connection ends: once each has had as many productive events as its pipeline has
  bytes, and 266 more, the loop has returned or an exception has left it. (A \<^verbatim>\<open>select\<close> that times
  out only goes round again, so a proxy that stays silent keeps the loop for ever.)\<close>

theorem selector_finishes:
  assumes "list_all (fresh_conn I) pcs"
    and "\<And>i. i < length pcs \<Longrightarrow> length (pc_pipeline (pcs ! i)) + 266 \<le> length (events_of i (concat bs))"
    and "list_all (\<lambda>k. productive (snd k)) (concat bs)"
    and "select_loop I bs (select_start pcs) = (e, st)"
  shows "e \<noteq> SelWaiting"
proof
  assume e: "e = SelWaiting"
  note run = select_loop_slot [OF assms(4) _ select_start_counted, unfolded e]
  have "\<not> is_live (sl_slots st ! i)" if i: "i < length pcs" for i
  proof
    assume "is_live (sl_slots st ! i)"
    then obtain pc where pc: "sl_slots st ! i = Live pc" by (cases "sl_slots st ! i") auto
    have r: "slot_run I (Live (pcs ! i)) (events_of i (concat bs)) = Inr (Live pc)"
      using run [of i] i pc by (simp add: select_start_def)
    have f: "fresh_conn I (pcs ! i)" using assms(1) i by (simp add: list_all_length)
    have "list_all productive (events_of i (concat bs))"
      using assms(3) by (fastforce simp: list_all_iff events_of_def simp del: set_concat)
    from slot_run_progress [OF r refl fresh_conn_ok [OF f] this] assms(2) [OF i]
    have "length (pc_pipeline (pcs ! i)) + 266 \<le> pc_sent pc + length (concat (pc_rx pc))" by simp
    moreover have "slot_ok I (pcs ! i) (Live pc)" by (rule slot_run_ok [OF fresh_conn_ok [OF f] r])
    ultimately show False using f live_bound unfolding fresh_conn_def by fastforce
  qed
  then have "filter is_live (sl_slots st) = []"
    using run [of 0] select_loop_length [OF assms(4)]
    by (auto simp: filter_empty_conv in_set_conv_nth select_start_def)
  moreover have "counted st" by (rule select_loop_counted [OF select_start_counted assms(4)])
  ultimately show False using select_loop_waiting [OF assms(4) [unfolded e]] by (simp add: counted_def)
qed

text \<open>One byte at a time, for a proxy that answers the greeting and then trickles.\<close>

theorem selector_finishes_witness:
  "\<exists>e st. select_loop text_inet [map (\<lambda>r. (0, r)) (replicate 300 (Inr 1, Inr [5]))] (select_start [demo_pending]) = (e, st) \<and>
     e \<noteq> SelWaiting"
proof -
  let ?bs = "[map (\<lambda>r. (0, r)) (replicate 300 (Inr 1, Inr [5]))] :: (nat \<times> ready) list list"
  obtain e st where r: "select_loop text_inet ?bs (select_start [demo_pending]) = (e, st)"
    by (cases "select_loop text_inet ?bs (select_start [demo_pending])")
  have "list_all (fresh_conn text_inet) [demo_pending]" by (simp add: demo_fresh)
  then have "e \<noteq> SelWaiting"
    by (rule selector_finishes [OF _ _ _ r])
       (auto simp: demo_pending_def events_of_def productive_def list_all_iff filter_map o_def)
  with r show ?thesis by blast
qed

section \<open>What one proxy can do to the others\<close>

lemma feed_raise: "feed I s d = (Inl e, t) \<Longrightarrow> is_socks5_error e \<or> e = UnicodeDecodeErr"
  using loop_raises by (auto simp: feed_def)

definition plain_ready :: "ready \<Rightarrow> bool" where
  "plain_ready r \<longleftrightarrow>
     (\<forall>e. fst r = Inl e \<longrightarrow> is_os_error e) \<and> (\<forall>e. snd r = Inl e \<longrightarrow> is_os_error e)"

lemma slot_step_crash:
  assumes "slot_step I r s = Inl e" "plain_ready r"
  shows "\<exists>pc c t. s = Live pc \<and> snd r = Inr c \<and> e = UnicodeDecodeErr \<and> feed I (pc_sess pc) c = (Inl UnicodeDecodeErr, t)"
proof -
  obtain pc where pc: "s = Live pc" using assms(1) by (cases s) (auto simp: slot_step.simps)
  obtain q pc' where q: "conn_event I r pc = (q, pc')" by (cases "conn_event I r pc")
  then have e: "q = Inl e" "\<not> select_caught e"
    using assms(1) pc by (auto simp: slot_step.simps split: sum.splits if_splits option.splits)
  show ?thesis
    using q e assms(2) pc feed_raise
    by (fastforce simp: conn_event_def on_writable_def on_readable_def plain_ready_def select_caught_def Let_def
        split: if_splits sum.splits prod.splits)
qed

lemma select_batch_crash:
  assumes "select_batch I keys st = (Inl e, st')" "list_all (\<lambda>k. plain_ready (snd k)) keys"
  shows "\<exists>i pc c t. i < length (sl_slots st') \<and> sl_slots st' ! i = Live pc \<and> e = UnicodeDecodeErr \<and>
    feed I (pc_sess pc) c = (Inl UnicodeDecodeErr, t)"
  using assms
proof (induction keys arbitrary: st)
  case (Cons k keys)
  obtain q t where q: "select_key I k st = (q, t)" by (cases "select_key I k st")
  show ?case
  proof (cases q)
    case (Inl x)
    then have "x = e" "t = st'" using Cons.prems(1) q by simp_all
    then have "slot_step I (snd k) (sl_slots st ! fst k) = Inl e" "st' = st" "fst k < length (sl_slots st)"
      using q Inl by (auto simp: select_key_def split: if_splits sum.splits)
    with slot_step_crash [of I "snd k" "sl_slots st ! fst k" e] Cons.prems(2) show ?thesis by auto
  next
    case (Inr u)
    then show ?thesis using Cons.IH [of t] Cons.prems q by simp
  qed
qed simp

text \<open>One exception leaves the loop, and one only, as long as the sockets raise nothing but
  \<^verbatim>\<open>OSError\<close>: the \<^verbatim>\<open>UnicodeDecodeError\<close> of a session whose proxy answered with a host that is not
  UTF-8. It ends all handshakes: those still registered are left as they are, unanswered and their
  sockets open.\<close>

theorem selector_crashes:
  assumes "select_loop I bs (select_start pcs) = (SelCrash e, st)"
    and "list_all (\<lambda>k. plain_ready (snd k)) (concat bs)"
  shows "e = UnicodeDecodeErr \<and>
    (\<exists>i pc c t. i < length pcs \<and> sl_slots st ! i = Live pc \<and> feed I (pc_sess pc) c = (Inl e, t)) \<and>
    sl_remaining st = length (filter is_live (sl_slots st))"
proof -
  have "counted st" by (rule select_loop_counted [OF select_start_counted assms(1)])
  moreover have "length (sl_slots st) = length pcs"
    using select_loop_length [OF assms(1)] by (simp add: select_start_def)
  moreover obtain b st0 where "select_batch I b st0 = (Inl e, st)" "list_all (\<lambda>k. plain_ready (snd k)) b"
    using select_loop_crash [OF assms(1)] assms(2) by (auto simp: list_all_iff)
  ultimately show ?thesis using select_batch_crash by (fastforce simp: counted_def)
qed

theorem selector_crashes_witness:
  "\<exists>st i pc. select_loop text_inet
       [[(0, Inr 13, Inr []), (1, Inr 13, Inr [])], [(1, Inr 0, Inr [5, 0, 5, 0, 0, 3, 1, 255, 0, 80])]]
       (select_start [demo_pending, demo_pending]) = (SelCrash UnicodeDecodeErr, st) \<and>
     sl_slots st ! i = Live pc \<and> sl_remaining st = 2 \<and> sl_remaining st = length (filter is_live (sl_slots st))"
proof -
  let ?bs = "[[(0, Inr 13, Inr []), (1, Inr 13, Inr [])], [(1, Inr 0, Inr [5, 0, 5, 0, 0, 3, 1, 255, 0, 80])]]
    :: (nat \<times> ready) list list"
  have "fst (select_loop text_inet ?bs (select_start [demo_pending, demo_pending])) = SelCrash UnicodeDecodeErr"
    "sl_remaining (snd (select_loop text_inet ?bs (select_start [demo_pending, demo_pending]))) = 2"
    by code_simp+
  then obtain st where st: "select_loop text_inet ?bs (select_start [demo_pending, demo_pending]) =
      (SelCrash UnicodeDecodeErr, st)" "sl_remaining st = 2" by (metis prod.collapse)
  have "list_all (\<lambda>k. plain_ready (snd k)) (concat ?bs)" by (simp add: plain_ready_def)
  from selector_crashes [OF st(1) this] st show ?thesis by blast
qed

end
