(* ===== verification/ServerHooks.thy ===== *)
theory ServerHooks
  imports ServerRuns
begin

text \<open>
  What the hooks of a server decide, whatever the driver: every dial answers a request that the
  \<^verbatim>\<open>on_connect\<close> hook let pass, to the target it left, and nothing is dialled or relayed before the
  \<^verbatim>\<open>authorize\<close> hook accepted a login. Also the run of a client that logs in, up to its request.
\<close>

section \<open>Dials\<close>

lemma connect_target:
  assumes "queue_ok s" "next_event I s = (Inr (Connect cmd h p), s')"
  shows "sv_target s' = Some (h, p)"
proof -
  have st: "sv_state s = PRequest" using connect_phase [OF assms] by simp
  show ?thesis
  proof (cases "sv_out s = []")
    case True
    then have "step_request I s = (Inr (Connect cmd h p), s')"
      using assms(2) st by (simp add: next_event_def server_step_def)
    then show ?thesis by (cases rule: step_request_cases [OF True, consumes 1]) auto
  next
    case False
    from queue_event [OF assms(1) False assms(2)] show ?thesis by auto
  qed
qed

text \<open>The calls that the \<^verbatim>\<open>on_connect\<close> hook makes for a request.\<close>

definition request_decisions ::
  "('c, 'p) server_hooks \<Rightarrow> ('c, 'p) server_session \<Rightarrow> pystr \<Rightarrow> int \<Rightarrow> ('c, 'p) decision list" where
  "request_decisions H s host port =
     (case hk_on_connect H of
        None \<Rightarrow> []
      | Some h \<Rightarrow> hook_decisions (rep_value GENERAL_FAILURE) (h s host port))"

definition let_pass ::
  "('c, 'p) server_hooks \<Rightarrow> (pystr \<times> int) option \<Rightarrow> ('c, 'p) log_entry list \<Rightarrow> bool" where
  "let_pass H tg log \<longleftrightarrow>
     (\<exists>s cmd host port. LSession (AEvent (Connect cmd host port)) \<in> set log \<and> sv_target s = Some (host, port) \<and>
       (let s' = fold decide (request_decisions H s host port) s
        in tg = sv_target s' \<and> \<not> sv_rejected s' \<and> \<not> sv_intercept s'))"

lemma let_pass_mono: "let_pass H tg log \<Longrightarrow> set log \<subseteq> set log' \<Longrightarrow> let_pass H tg log'"
  unfolding let_pass_def by blast

definition dials_ok :: "('c, 'p) server_hooks \<Rightarrow> ('c, 'p) log_entry list \<Rightarrow> bool" where
  "dials_ok H log \<longleftrightarrow> (\<forall>tg r. LDial tg r \<in> set log \<longrightarrow> let_pass H tg log)"

lemma dials_ok_append:
  assumes "dials_ok H log" "\<And>tg r. LDial tg r \<in> set ext \<Longrightarrow> let_pass H tg (log @ ext)"
  shows "dials_ok H (log @ ext)"
  using assms let_pass_mono [of H _ log "log @ ext"] by (auto simp: dials_ok_def)

lemma serve_event_log:
  assumes "serve_event H dial ev c = (q, c')" "\<And>cmd h p. ev \<noteq> Connect cmd h p"
  shows "\<exists>ext. cn_log c' = cn_log c @ ext \<and> (\<forall>tg r. LDial tg r \<notin> set ext)"
  using assms
  by (auto simp: serve_event_def on_authorize_def cn_note_def cn_decide_def
      split: event.splits list.splits sum.splits option.splits if_splits)

lemma on_request_log:
  assumes "on_request H dial h p c = (q, c')"
  defines "s' \<equiv> fold decide (request_decisions H (cn_sess c) h p) (cn_sess c)"
  shows "\<exists>ext. cn_log c' = cn_log c @ ext \<and>
    (\<forall>tg r. LDial tg r \<in> set ext \<longrightarrow> tg = sv_target s' \<and> \<not> sv_rejected s' \<and> \<not> sv_intercept s')"
  using assms
  by (auto simp: on_request_def request_decisions_def dial_target_def cn_note_def cn_decide_def Let_def
      split: sum.splits option.splits if_splits)

lemma serve_turn_dials:
  assumes "dials_ok H (cn_log c)" "queue_ok (cn_sess c)" "serve_turn I H dial c = (q, c')"
  shows "dials_ok H (cn_log c')"
  using assms(3)
proof (cases rule: serve_turn_cases)
  case (raise e s)
  then show ?thesis using dials_ok_append [OF assms(1), of "[LSession (ARaise e)]"] by (simp add: cn_note_def)
next
  case (event ev s)
  let ?c = "cn_note (LSession (AEvent ev)) (c\<lparr>cn_sess := s\<rparr>)"
  show ?thesis
  proof (cases "\<exists>cmd h p. ev = Connect cmd h p")
    case False
    then obtain ext where "cn_log c' = cn_log ?c @ ext" "\<forall>tg r. LDial tg r \<notin> set ext"
      using serve_event_log [OF event(2)] by blast
    then show ?thesis using dials_ok_append [OF assms(1), of "LSession (AEvent ev) # ext"] by simp
  next
    case True
    then obtain cmd h p where ev: "ev = Connect cmd h p" by blast
    let ?s = "fold decide (request_decisions H s h p) s"
    have tg: "sv_target s = Some (h, p)" using connect_target assms(2) event(1) ev by blast
    have "on_request H dial h p ?c = (q, c')" using event(2) ev by (simp add: serve_event_def)
    from on_request_log [OF this] obtain ext where ext: "cn_log c' = cn_log ?c @ ext"
      "\<forall>tg r. LDial tg r \<in> set ext \<longrightarrow> tg = sv_target ?s \<and> \<not> sv_rejected ?s \<and> \<not> sv_intercept ?s"
      by auto
    have "let_pass H t (cn_log c @ LSession (AEvent ev) # ext)" if "LDial t r \<in> set ext" for t r
      using ext(2) that tg ev unfolding let_pass_def Let_def
      by (intro exI [of _ s] exI [of _ cmd] exI [of _ h] exI [of _ p]) auto
    then show ?thesis
      using dials_ok_append [OF assms(1), of "LSession (AEvent ev) # ext"] ext(1) by simp
  qed
qed

lemma serve_turn_queue:
  assumes "queue_ok (cn_sess c)" "serve_turn I H dial c = (q, c')"
  shows "queue_ok (cn_sess c')"
  using assms(2)
proof (cases rule: serve_turn_cases)
  case (raise e s)
  then show ?thesis using next_event_queue [OF assms(1) raise(1)] by simp
next
  case (event ev s)
  then show ?thesis
    using next_event_queue [OF assms(1) event(1)] serve_event_keeps [OF event(2)] by (simp add: queue_ok_def)
qed

text \<open>A relay that dials nothing.\<close>

definition relay_plain :: "(('c, 'p) conn \<Rightarrow> stop \<times> ('c, 'p) conn) \<Rightarrow> bool" where
  "relay_plain relay \<longleftrightarrow>
     (\<forall>u st v. relay u = (st, v) \<longrightarrow> (\<exists>ext. cn_log v = cn_log u @ ext \<and> (\<forall>tg r. LDial tg r \<notin> set ext)))"

lemma relay_plain_drivers: "relay_plain (threaded_relay E)" "relay_plain (async_relay E)"
  by (auto simp: relay_plain_def threaded_relay_def async_relay_def run_pipe_def splice_def async_splice_def
      cn_note_def Let_def split: option.splits if_splits prod.splits)

lemma handle_dials:
  assumes h: "handle_with swallows relay I H dial (conn_init H rx sends) = (out, c)" and r: "relay_plain relay"
  shows "dials_ok H (cn_log c)"
proof -
  from handle_with_cases [OF h] obtain st u st' v where
    l: "serve_loop I H dial (conn_init H rx sends) = (st, u)"
    and v: "if st = SRelay then relay u = (st', v) else st' = st \<and> v = u"
    and c: "c = v \<or> c = teardown H v" by (fastforce split: stop.splits)
  let ?P = "\<lambda>x. dials_ok H (cn_log x) \<and> queue_ok (cn_sess x)"
  have start: "?P (conn_init H rx sends)"
    by (simp add: conn_init_def new_session_def server_init_def queue_ok_def dials_ok_def)
  have "?P u" by (rule serve_loop_inv [where P = ?P, OF start l]) (blast intro: serve_turn_dials serve_turn_queue)
  moreover have "\<exists>ext. cn_log v = cn_log u @ ext \<and> (\<forall>tg r. LDial tg r \<notin> set ext)"
    using v r by (auto simp: relay_plain_def split: if_splits)
  ultimately have "dials_ok H (cn_log v)" using dials_ok_append by fastforce
  moreover have "dials_ok H (cn_log (teardown H v))" if "dials_ok H (cn_log v)"
    using dials_ok_append [OF that] by (fastforce simp: teardown_def split: if_splits)
  ultimately show ?thesis using c by blast
qed

section \<open>Logins\<close>

definition login_accepted :: "('c, 'p) server_hooks \<Rightarrow> ('c, 'p) log_entry list \<Rightarrow> bool" where
  "login_accepted H log \<longleftrightarrow>
     (\<exists>h s u p. hk_authorize H = Some h \<and> LSession (AEvent (Authorize u p)) \<in> set log \<and>
       \<not> rejected_by (map ADecide (hook_decisions (rep_value NOT_ALLOWED) (h s u p))) False)"

lemma login_accepted_mono: "login_accepted H log \<Longrightarrow> set log \<subseteq> set log' \<Longrightarrow> login_accepted H log'"
  unfolding login_accepted_def by blast

lemma serve_turn_grows:
  assumes "serve_turn I H dial c = (q, c')"
  shows "set (cn_log c) \<subseteq> set (cn_log c')"
  using assms
proof (cases rule: serve_turn_cases)
  case (event ev s)
  show ?thesis
  proof (cases "\<exists>cmd h p. ev = Connect cmd h p")
    case True
    then obtain cmd h p where "on_request H dial h p (cn_note (LSession (AEvent ev)) (c\<lparr>cn_sess := s\<rparr>)) = (q, c')"
      using event(2) by (auto simp: serve_event_def)
    from on_request_log [OF this] show ?thesis by auto
  next
    case False
    with serve_event_log [OF event(2)] show ?thesis by auto
  qed
qed auto

lemma serve_event_hooks:
  assumes "hk_on_connect H' = hk_on_connect H" "\<And>u p. ev = Authorize u p \<Longrightarrow> on_authorize H' u p c = on_authorize H u p c"
  shows "serve_event H' dial ev c = serve_event H dial ev c"
  using assms by (cases ev) (simp_all add: serve_event_def on_request_def)

lemma admitted_turn:
  assumes h: "hk_authorize H = Some h" and k: "kept_out c" and t: "serve_turn I H dial c = (q, c')"
  shows "kept_out c' \<and> q \<noteq> Some SRelay \<or> login_accepted H (cn_log c')"
proof (rule disjCI)
  assume n: "\<not> login_accepted H (cn_log c')"
  define bad where "bad s u p \<longleftrightarrow> rejected_by (map ADecide (hook_decisions (rep_value NOT_ALLOWED) (h s u p))) False"
    for s u p
  define h' where "h' s u p = (if bad s u p then h s u p else ([DReject 2], False))" for s u p
  define H' where "H' = H\<lparr>hk_authorize := Some h'\<rparr>"
  have "serve_turn I H' dial c = (q, c')"
    using t
  proof (cases rule: serve_turn_cases)
    case (event ev s)
    let ?c = "cn_note (LSession (AEvent ev)) (c\<lparr>cn_sess := s\<rparr>)"
    have "on_authorize H' u p ?c = on_authorize H u p ?c" if ev: "ev = Authorize u p" for u p
    proof -
      have "LSession (AEvent ev) \<in> set (cn_log c')"
        using event(2) ev h by (auto simp: serve_event_def on_authorize_def cn_decide_def)
      then have "bad s u p" using n h ev by (auto simp: login_accepted_def bad_def)
      then show ?thesis using h by (simp add: on_authorize_def H'_def h'_def)
    qed
    then have "serve_event H' dial ev ?c = serve_event H dial ev ?c"
      by (intro serve_event_hooks) (simp_all add: H'_def)
    then show ?thesis using event by (simp add: serve_turn_def)
  qed (simp add: serve_turn_def)
  then show "kept_out c' \<and> q \<noteq> Some SRelay"
    by (rule kept_out_turn [OF k, of I H' dial q c' h'])
       (auto simp: H'_def h'_def bad_def hook_decisions_def)
qed

text \<open>With an \<^verbatim>\<open>authorize\<close> hook, nothing is dialled or relayed unless it accepted a login.\<close>

lemma handle_admits:
  assumes h: "handle_with swallows relay I H dial (conn_init H rx sends) = (out, c)"
    and a: "hk_authorize H = Some k" and l: "l \<in> set (cn_log c)" "reaches_out l"
    and r: "\<And>u st v. relay u = (st, v) \<Longrightarrow> set (cn_log u) \<subseteq> set (cn_log v)"
  shows "login_accepted H (cn_log c)"
proof -
  from handle_with_cases [OF h] obtain st u st' v where
    lp: "serve_loop I H dial (conn_init H rx sends) = (st, u)"
    and v: "if st = SRelay then relay u = (st', v) else st' = st \<and> v = u"
    and c: "c = v \<or> c = teardown H v" by (fastforce split: stop.splits)
  let ?P = "\<lambda>x. kept_out x \<or> login_accepted H (cn_log x)"
  have start: "?P (conn_init H rx sends)"
    using a by (simp add: kept_out_def conn_init_def new_session_def shut_out_def queue_ok_def server_init_def)
  have keep: "kept_out x' \<and> q \<noteq> Some SRelay \<or> login_accepted H (cn_log x')"
    if "?P x" "serve_turn I H dial x = (q, x')" for x q x'
    using that admitted_turn [OF a _ that(2)] login_accepted_mono serve_turn_grows [OF that(2)] by blast
  have "\<exists>c0. ?P c0 \<and> serve_turn I H dial c0 = (Some st, u)"
    by (rule serve_loop_last [where P = ?P, OF start lp]) (use keep in blast)
  then have "kept_out u \<and> st \<noteq> SRelay \<or> login_accepted H (cn_log u)" using keep by blast
  moreover have "set (cn_log u) \<subseteq> set (cn_log v)"
    using v r [of u st' v] by (auto split: if_splits)
  moreover have "set (cn_log v) \<subseteq> set (cn_log c)" using c by (auto simp: teardown_def)
  moreover have "\<not> (kept_out u \<and> st \<noteq> SRelay)"
    using v c l by (auto simp: kept_out_def teardown_def split: if_splits)
  ultimately show ?thesis using login_accepted_mono by (meson subset_trans)
qed

lemma relay_grows:
  "threaded_relay E u = (st, v) \<Longrightarrow> set (cn_log u) \<subseteq> set (cn_log v)"
  "async_relay E u = (st, v) \<Longrightarrow> set (cn_log u) \<subseteq> set (cn_log v)"
  by (auto simp: threaded_relay_def async_relay_def run_pipe_def splice_def async_splice_def Let_def cn_note_def
      split: option.splits if_splits prod.splits)

end
