(* ===== verification/MeteredProps.thy ===== *)
theory MeteredProps
  imports MeteredServer ServerHooks ServerDriverProps
begin

text \<open>
  The metered relay delivers what the plain splice delivers and counts right, in every
  interleaving; its hooks let nobody but the known user through, and nobody to the blocked host.
\<close>

section \<open>Counting\<close>

text \<open>The bytes that a copy holds, and those of them that are not yet counted.\<close>

fun held :: "copy_phase \<Rightarrow> nat" where
  "held (CAcquire d) = length d"
| "held (CLoad d) = length d"
| "held (CStore d n) = length d"
| "held (CRelease d) = length d"
| "held (CSend d) = length d"
| "held _ = 0"

fun uncounted :: "copy_phase \<Rightarrow> nat" where
  "uncounted (CAcquire d) = length d"
| "uncounted (CLoad d) = length d"
| "uncounted (CStore d n) = length d"
| "uncounted _ = 0"

fun locks :: "copy_phase \<Rightarrow> bool" where
  "locks (CLoad d) = True"
| "locks (CStore d n) = True"
| "locks (CRelease d) = True"
| "locks _ = False"

definition meter_ok :: "nat \<Rightarrow> meter \<Rightarrow> bool" where
  "meter_ok n0 m \<longleftrightarrow>
     (\<forall>i. locks (cp_phase (mt_copier m i)) \<longleftrightarrow> mt_lock m = Some i) \<and>
     (\<forall>i d n. cp_phase (mt_copier m i) = CStore d n \<longrightarrow> n = mt_n m) \<and>
     mt_n m + uncounted (cp_phase (mt_copier m ToUp)) + uncounted (cp_phase (mt_copier m ToDown)) =
       n0 + cp_read (mt_copier m ToUp) + cp_read (mt_copier m ToDown)"

lemma all_sides: "(\<forall>i. P i) \<longleftrightarrow> P ToUp \<and> P ToDown"
  by (metis side.exhaust)

lemma copier_step_ok: "meter_ok n0 m \<Longrightarrow> copier_step i m = Some m' \<Longrightarrow> meter_ok n0 m'"
  by (cases i; cases "cp_phase (mt_copier m i)")
     (auto simp: meter_ok_def copier_step_def incr_step_def set_copier_def copy_raised_def Let_def all_sides
       split: list.splits sum.splits option.splits if_splits)

section \<open>Copying\<close>

text \<open>What the rest of a copy will deliver, by the function of the plain splice.\<close>

fun resume :: "copier \<Rightarrow> copy_end \<times> bytes" where
  "resume c =
     (case cp_phase c of
        CRecv \<Rightarrow> copy (cp_rx c) (cp_sends c)
      | CAcquire d \<Rightarrow> copy (Inr d # cp_rx c) (cp_sends c)
      | CLoad d \<Rightarrow> copy (Inr d # cp_rx c) (cp_sends c)
      | CStore d n \<Rightarrow> copy (Inr d # cp_rx c) (cp_sends c)
      | CRelease d \<Rightarrow> copy (Inr d # cp_rx c) (cp_sends c)
      | CSend d \<Rightarrow> copy (Inr d # cp_rx c) (cp_sends c)
      | CShut st \<Rightarrow> (st, [])
      | CEnded st \<Rightarrow> (st, []))"

fun chunk_ok :: "copy_phase \<Rightarrow> bool" where
  "chunk_ok (CAcquire d) = (d \<noteq> [])"
| "chunk_ok (CLoad d) = (d \<noteq> [])"
| "chunk_ok (CStore d n) = (d \<noteq> [])"
| "chunk_ok (CRelease d) = (d \<noteq> [])"
| "chunk_ok (CSend d) = (d \<noteq> [])"
| "chunk_ok _ = True"

definition copier_ok :: "(py_exn + bytes) list \<Rightarrow> py_exn option list \<Rightarrow> copier \<Rightarrow> bool" where
  "copier_ok rx sends c \<longleftrightarrow>
     chunk_ok (cp_phase c) \<and> copy rx sends = apsnd ((@) (cp_out c)) (resume c) \<and>
     length (cp_out c) + held (cp_phase c) \<le> cp_read c \<and>
     (set sends \<subseteq> {None} \<longrightarrow>
        set (cp_sends c) \<subseteq> {None} \<and> length (cp_out c) + held (cp_phase c) = cp_read c)"

lemma copier_step_copier:
  assumes "copier_step i m = Some m'" "copier_ok rx sends (mt_copier m i)"
  shows "copier_ok rx sends (mt_copier m' i)"
  using assms
  by (cases "cp_phase (mt_copier m i)")
     (auto simp: copier_ok_def copier_step_def incr_step_def set_copier_def copy_raised_def Let_def apsnd_def map_prod_def
       split: list.splits sum.splits option.splits if_splits prod.splits)

lemma copier_step_other: "copier_step i m = Some m' \<Longrightarrow> j \<noteq> i \<Longrightarrow> mt_copier m' j = mt_copier m j"
  by (auto simp: copier_step_def incr_step_def set_copier_def Let_def
      split: copy_phase.splits list.splits sum.splits option.splits if_splits)

lemma run_inv:
  assumes "meter_run m0 k m" "P m0" "\<And>i m m'. P m \<Longrightarrow> copier_step i m = Some m' \<Longrightarrow> P m'"
  shows "P m"
  using assms by (induction rule: meter_run.induct) auto

lemma meter_start_ok: "meter_ok n (meter_start n a sa b sb)"
  by (simp add: meter_ok_def meter_start_def copier_init_def all_sides)

definition copiers_ok ::
  "(side \<Rightarrow> (py_exn + bytes) list) \<Rightarrow> (side \<Rightarrow> py_exn option list) \<Rightarrow> meter \<Rightarrow> bool" where
  "copiers_ok rx sends m \<longleftrightarrow> (\<forall>i. copier_ok (rx i) (sends i) (mt_copier m i))"

lemma copiers_ok_step: "copiers_ok rx sends m \<Longrightarrow> copier_step i m = Some m' \<Longrightarrow> copiers_ok rx sends m'"
  unfolding copiers_ok_def by (metis copier_step_copier copier_step_other)

lemma copiers_ok_start:
  "copiers_ok (case_side a b) (case_side sa sb) (meter_start n a sa b sb)"
  by (auto simp: copiers_ok_def copier_ok_def meter_start_def copier_init_def all_sides apsnd_def map_prod_def)

lemma meter_run_ok:
  assumes "meter_run (meter_start n a sa b sb) k m"
  shows "meter_ok n m" "copier_ok a sa (mt_copier m ToUp)" "copier_ok b sb (mt_copier m ToDown)"
proof -
  show "meter_ok n m"
    using run_inv [where P = "meter_ok n", OF assms meter_start_ok] copier_step_ok by blast
  have "copiers_ok (case_side a b) (case_side sa sb) m"
    using run_inv [where P = "copiers_ok (case_side a b) (case_side sa sb)", OF assms copiers_ok_start]
      copiers_ok_step by blast
  then show "copier_ok a sa (mt_copier m ToUp)" "copier_ok b sb (mt_copier m ToDown)"
    by (simp_all add: copiers_ok_def all_sides)
qed

text \<open>Where no copy can step, none waits for the lock: each has ended or waits for its source.\<close>

definition stuck :: "meter \<Rightarrow> bool" where
  "stuck m \<longleftrightarrow> copier_step ToUp m = None \<and> copier_step ToDown m = None"

lemma stuck_phase:
  assumes "meter_ok n m" "stuck m"
  shows "(\<exists>st. cp_phase (mt_copier m i) = CEnded st) \<or>
    cp_phase (mt_copier m i) = CRecv \<and> cp_rx (mt_copier m i) = []"
proof -
  have s: "copier_step j m = None" for j using assms(2) by (cases j) (simp_all add: stuck_def)
  have free: "mt_lock m = None"
  proof (rule ccontr)
    assume "mt_lock m \<noteq> None"
    then obtain j where "locks (cp_phase (mt_copier m j))" using assms(1) by (auto simp: meter_ok_def)
    then show False using s [of j] by (cases "cp_phase (mt_copier m j)") (auto simp: copier_step_def incr_step_def)
  qed
  show ?thesis
    using s [of i] free
    by (auto simp: copier_step_def incr_step_def Let_def split: copy_phase.splits list.splits sum.splits if_splits option.splits)
qed

lemma stuck_end:
  assumes "meter_ok n m" "stuck m" "copier_ok rx sends (mt_copier m i)"
  shows "copy rx sends = (copier_end (mt_copier m i), cp_out (mt_copier m i))"
    "held (cp_phase (mt_copier m i)) = 0" "uncounted (cp_phase (mt_copier m i)) = 0"
  using stuck_phase [OF assms(1,2), of i] assms(3)
  by (auto simp: copier_ok_def copier_end_def)

section \<open>Properties of the relay\<close>

text \<open>C10. In every interleaving of its two copies, the metered relay does what the plain splice of the
  server does: when no copy can step any more, each direction has delivered the bytes that
  \<^verbatim>\<open>splice\<close> delivers, over the same chunks and send outcomes, and the relay ends, fails or waits
  as \<^verbatim>\<open>splice\<close> does. In particular the lock never blocks it.\<close>

theorem metered_like_splice:
  assumes "meter_run (meter_start n (cn_rx c) (re_up_sends E) (re_up_rx E) (cn_sends c)) k m" "stuck m"
    and "cn_up c \<noteq> None" "splice E c = (st, c')"
  shows "metered_end m = st \<and>
    cn_log c' = cn_log c @ [LSpliced (cp_out (mt_copier m ToUp)) (cp_out (mt_copier m ToDown))]"
proof -
  note ok = meter_run_ok [OF assms(1)]
  from stuck_end(1) [OF ok(1) assms(2) ok(2)] stuck_end(1) [OF ok(1) assms(2) ok(3)] assms(3,4)
  show ?thesis by (auto simp: splice_def metered_end_def cn_note_def)
qed

text \<open>C12. No byte is counted twice and none is missed, in any interleaving: at every moment the counter
  is at least what was delivered and at most what was read, in both directions together; when no
  copy can step any more it is exactly what was read, and exactly what was delivered unless a
  send failed (a chunk counts although its \<^verbatim>\<open>sendall\<close> fails).\<close>

theorem metered_counts:
  assumes "meter_run (meter_start n a sa b sb) k m"
  defines "up \<equiv> mt_copier m ToUp" and "down \<equiv> mt_copier m ToDown"
  shows "n + length (cp_out up) + length (cp_out down) \<le> mt_n m \<and> mt_n m \<le> n + cp_read up + cp_read down \<and>
    (stuck m \<longrightarrow> mt_n m = n + cp_read up + cp_read down) \<and>
    (stuck m \<longrightarrow> set sa \<union> set sb \<subseteq> {None} \<longrightarrow> mt_n m = n + length (cp_out up) + length (cp_out down))"
proof -
  note ok = meter_run_ok [OF assms(1), folded up_def down_def]
  have u: "uncounted p \<le> held p" for p by (cases p) auto
  have sum: "mt_n m + uncounted (cp_phase up) + uncounted (cp_phase down) = n + cp_read up + cp_read down"
    using ok(1) by (simp add: meter_ok_def up_def down_def)
  have "length (cp_out up) + held (cp_phase up) \<le> cp_read up"
    "length (cp_out down) + held (cp_phase down) \<le> cp_read down"
    using ok(2,3) by (simp_all add: copier_ok_def)
  moreover have "uncounted (cp_phase up) = 0 \<and> uncounted (cp_phase down) = 0 \<and>
      held (cp_phase up) = 0 \<and> held (cp_phase down) = 0" if "stuck m"
    using stuck_end(2,3) [OF ok(1) that] ok(2,3) by (simp add: up_def down_def)
  moreover have "set sa \<subseteq> {None} \<longrightarrow> length (cp_out up) + held (cp_phase up) = cp_read up"
    "set sb \<subseteq> {None} \<longrightarrow> length (cp_out down) + held (cp_phase down) = cp_read down"
    using ok(2,3) by (simp_all add: copier_ok_def)
  ultimately show ?thesis
    using sum u [of "cp_phase up"] u [of "cp_phase down"] by auto
qed

section \<open>The relay ends\<close>

fun phase_left :: "copy_phase \<Rightarrow> nat" where
  "phase_left CRecv = 1"
| "phase_left (CAcquire d) = 6"
| "phase_left (CLoad d) = 5"
| "phase_left (CStore d n) = 4"
| "phase_left (CRelease d) = 3"
| "phase_left (CSend d) = 2"
| "phase_left (CShut st) = 1"
| "phase_left (CEnded st) = 0"

definition copier_left :: "copier \<Rightarrow> nat" where
  "copier_left c = 7 * length (cp_rx c) + phase_left (cp_phase c)"

lemma copier_step_left:
  "copier_step i m = Some m' \<Longrightarrow> copier_left (mt_copier m' i) < copier_left (mt_copier m i)"
  by (cases "cp_phase (mt_copier m i)")
     (auto simp: copier_step_def incr_step_def set_copier_def copier_left_def copy_raised_def Let_def
       split: list.splits sum.splits option.splits if_splits)

lemma meter_run_left:
  assumes "meter_run m0 k m"
  shows "k + copier_left (mt_copier m ToUp) + copier_left (mt_copier m ToDown) \<le>
    copier_left (mt_copier m0 ToUp) + copier_left (mt_copier m0 ToDown)"
  using assms
proof (induction rule: meter_run.induct)
  case (run_step k m i m')
  then show ?case
    using copier_step_left [OF run_step(2)] copier_step_other [OF run_step(2), of ToUp]
      copier_step_other [OF run_step(2), of ToDown] by (cases i) auto
qed simp

text \<open>The relay terminates in every interleaving: a run makes at most seven steps for each chunk
  that arrives and two more, and where it stops each copy has ended or waits for a silent peer.\<close>

theorem metered_terminates:
  assumes "meter_run (meter_start n a sa b sb) k m"
  shows "k \<le> 7 * (length a + length b) + 2 \<and>
    (stuck m \<longrightarrow> (\<forall>i. (\<exists>st. cp_phase (mt_copier m i) = CEnded st) \<or>
       cp_phase (mt_copier m i) = CRecv \<and> cp_rx (mt_copier m i) = []))"
  using meter_run_left [OF assms] stuck_phase [OF meter_run_ok(1) [OF assms]]
  by (auto simp: meter_start_def copier_init_def copier_left_def)

text \<open>Two chunks each way, and the copies step in turn, so that each meets the other's lock.\<close>

definition demo_schedule :: "side list" where
  "demo_schedule = concat (replicate 20 [ToUp, ToDown])"

definition demo_meter :: meter where
  "demo_meter = run_schedule demo_schedule
     (meter_start 0 [Inr [1, 2, 3], Inr [4], Inr []] [] [Inr [5, 6], Inr [7, 8, 9], Inr []] [])"

lemma run_schedule_run: "meter_run m0 k m \<Longrightarrow> \<exists>k'. meter_run m0 k' (run_schedule is m)"
  by (induction "is" arbitrary: k m) (auto split: option.split intro: run_step)

lemma demo_meter_run:
  obtains k where "meter_run (meter_start 0 [Inr [1, 2, 3], Inr [4], Inr []] [] [Inr [5, 6], Inr [7, 8, 9], Inr []] []) k demo_meter"
  unfolding demo_meter_def using run_schedule_run [OF run_start] by blast

lemma demo_meter_stuck: "stuck demo_meter" "mt_n demo_meter = 9" "cp_out (mt_copier demo_meter ToUp) = [1, 2, 3, 4]"
  unfolding stuck_def demo_meter_def by code_simp+

theorem metered_terminates_witness:
  "\<exists>k. meter_run (meter_start 0 [Inr [1, 2, 3], Inr [4], Inr []] [] [Inr [5, 6], Inr [7, 8, 9], Inr []] []) k demo_meter \<and>
     k \<le> 44 \<and> (\<exists>st. cp_phase (mt_copier demo_meter ToUp) = CEnded st)"
proof -
  obtain k where k: "meter_run (meter_start 0 [Inr [1, 2, 3], Inr [4], Inr []] [] [Inr [5, 6], Inr [7, 8, 9], Inr []] []) k demo_meter"
    by (rule demo_meter_run)
  have "cp_phase (mt_copier demo_meter ToUp) \<noteq> CRecv" unfolding demo_meter_def by code_simp
  then have "\<exists>st. cp_phase (mt_copier demo_meter ToUp) = CEnded st"
    using metered_terminates [OF k] demo_meter_stuck(1) by blast
  moreover have "k \<le> 44" using metered_terminates [OF k] by simp
  ultimately show ?thesis using k by blast
qed

theorem metered_counts_witness:
  "stuck demo_meter \<and> mt_n demo_meter = 0 + length (cp_out (mt_copier demo_meter ToUp)) + length (cp_out (mt_copier demo_meter ToDown))"
proof -
  obtain k where k: "meter_run (meter_start 0 [Inr [1, 2, 3], Inr [4], Inr []] [] [Inr [5, 6], Inr [7, 8, 9], Inr []] []) k demo_meter"
    by (rule demo_meter_run)
  from metered_counts [OF k] demo_meter_stuck(1) show ?thesis by simp
qed

definition metered_env :: "metered_pipe relay_env" where
  "metered_env = \<lparr>re_pipe = (\<lambda>_. None), re_up_rx = [Inr [5, 6], Inr [7, 8, 9], Inr []], re_up_sends = [],
     re_up_closing = [], re_down_closing = []\<rparr>"

theorem metered_like_splice_witness:
  "\<exists>c c' :: (metered_ctx, metered_pipe) conn. splice metered_env c = (SReturn, c') \<and> metered_end demo_meter = SReturn \<and>
     cn_log c' = cn_log c @ [LSpliced [1, 2, 3, 4] (cp_out (mt_copier demo_meter ToDown))]"
proof -
  define c :: "(metered_ctx, metered_pipe) conn" where
    "c = (conn_init metered_hooks [Inr [1, 2, 3], Inr [4], Inr []] [])\<lparr>cn_up := Some ([], 0)\<rparr>"
  obtain k where "meter_run (meter_start 0 [Inr [1, 2, 3], Inr [4], Inr []] [] [Inr [5, 6], Inr [7, 8, 9], Inr []] []) k demo_meter"
    by (rule demo_meter_run)
  then have k: "meter_run (meter_start 0 (cn_rx c) (re_up_sends metered_env) (re_up_rx metered_env) (cn_sends c)) k demo_meter"
    by (simp add: c_def conn_init_def metered_env_def)
  have u: "cn_up c \<noteq> None" by (simp add: c_def)
  obtain c' where s: "splice metered_env c = (SReturn, c')"
    by (simp add: splice_def splice_end_def c_def conn_init_def metered_env_def)
  from metered_like_splice [OF k demo_meter_stuck(1) u s] s demo_meter_stuck(3) show ?thesis by auto
qed

section \<open>What the hooks let through\<close>

lemma db_get_known: "db_get (or_empty u) (or_empty p) \<noteq> None \<Longrightarrow> u = Some (py_lit ''alice'') \<and> p = Some (py_lit ''pw'')"
  by (auto simp: db_get_def or_empty_def py_lit_def split: if_splits option.splits)

lemma metered_login:
  "login_accepted metered_hooks log \<Longrightarrow>
     LSession (AEvent (Authorize (Some (py_lit ''alice'')) (Some (py_lit ''pw'')))) \<in> set log"
  using db_get_known
  by (fastforce simp: login_accepted_def metered_hooks_def metered_authorize_def hook_decisions_def split: option.splits)

lemma metered_pass:
  "let_pass metered_hooks tg log \<Longrightarrow>
     \<exists>cmd host port. tg = Some (host, port) \<and> host \<noteq> metadata_host \<and> LSession (AEvent (Connect cmd host port)) \<in> set log"
  by (auto simp: let_pass_def request_decisions_def metered_hooks_def metered_on_connect_def hook_decisions_def
      sv_reject_def sv_pipe_def Let_def split: if_splits)

text \<open>C35. The hooks hold, whatever the client sends and with either driver: nothing is dialled or
  relayed unless the client logged in as the one user the store knows, with the right password;
  and what is dialled is a host and port that the client asked for, never the blocked address (as
  the text \<^verbatim>\<open>169.254.169.254\<close>, the only one the hook compares with).\<close>

theorem metered_guards:
  assumes "threaded_handle I metered_hooks dial E rx sends = (out, c) \<or>
    async_handle I metered_hooks dial E rx sends = (out, c)"
  shows "(\<forall>l \<in> set (cn_log c). reaches_out l \<longrightarrow>
      LSession (AEvent (Authorize (Some (py_lit ''alice'')) (Some (py_lit ''pw'')))) \<in> set (cn_log c)) \<and>
    (\<forall>tg r. LDial tg r \<in> set (cn_log c) \<longrightarrow>
      (\<exists>cmd host port. tg = Some (host, port) \<and> host \<noteq> py_lit ''169.254.169.254'' \<and>
         LSession (AEvent (Connect cmd host port)) \<in> set (cn_log c)))"
proof -
  obtain swallows relay where h: "handle_with swallows relay I metered_hooks dial (conn_init metered_hooks rx sends) = (out, c)"
    and r: "relay_plain relay" "\<And>u st v. relay u = (st, v) \<Longrightarrow> set (cn_log u) \<subseteq> set (cn_log v)"
    using assms relay_plain_drivers relay_grows unfolding threaded_handle_def async_handle_def by metis
  have a: "hk_authorize metered_hooks = Some metered_authorize" by (simp add: metered_hooks_def)
  have "LSession (AEvent (Authorize (Some (py_lit ''alice'')) (Some (py_lit ''pw'')))) \<in> set (cn_log c)"
    if "l \<in> set (cn_log c)" "reaches_out l" for l
    by (rule metered_login [OF handle_admits [OF h a that r(2)]])
  moreover have "dials_ok metered_hooks (cn_log c)" by (rule handle_dials [OF h r(1)])
  then have "\<exists>cmd host port. tg = Some (host, port) \<and> host \<noteq> metadata_host \<and>
      LSession (AEvent (Connect cmd host port)) \<in> set (cn_log c)" if "LDial tg r \<in> set (cn_log c)" for tg r
    using that by (intro metered_pass) (auto simp: dials_ok_def)
  ultimately show ?thesis unfolding metadata_host_def by blast
qed

text \<open>The known user asks for 1.2.3.4.\<close>

definition alice_asks :: "(py_exn + bytes) list" where
  "alice_asks = [Inr [5, 1, 2, 1, 5, 97, 108, 105, 99, 101, 2, 112, 119, 5, 1, 0, 1, 1, 2, 3, 4, 0, 80]]"

theorem metered_guards_witness:
  "\<exists>c. threaded_handle text_inet metered_hooks demo_dial metered_env alice_asks [] = (Ended, c) \<and>
     (\<exists>l \<in> set (cn_log c). reaches_out l) \<and>
     LSession (AEvent (Authorize (Some (py_lit ''alice'')) (Some (py_lit ''pw'')))) \<in> set (cn_log c)"
proof -
  have "run_check (list_ex reaches_out)
      (threaded_handle text_inet metered_hooks demo_dial metered_env alice_asks []) = Some Ended" by code_simp
  from run_checkE [OF this] obtain c where
    c: "threaded_handle text_inet metered_hooks demo_dial metered_env alice_asks [] = (Ended, c)"
      "list_ex reaches_out (cn_log c)" by blast
  with metered_guards [OF disjI1 [OF c(1)]] show ?thesis by (auto simp: list_ex_iff)
qed

end
