(* ===== verification/HelloProps.thy ===== *)
theory HelloProps
  imports HelloServer ServerHooks Transport
begin

text \<open>
  The in-memory destination of the asyncio example: who gets it, what is never dialled for it,
  and that a client which asks for it gets the greeting.
\<close>

section \<open>A client that logs in\<close>

text \<open>The connection as the request finds it, after a login that was accepted with one \<^verbatim>\<open>ok\<close>.\<close>

definition at_request ::
  "inet_api \<Rightarrow> 'c \<Rightarrow> pystr \<Rightarrow> int \<Rightarrow> bytes \<Rightarrow> (py_exn + bytes) list \<Rightarrow> ('c, 'p) conn \<Rightarrow> bool" where
  "at_request I x host port early later c \<longleftrightarrow>
     sv_buf (cn_sess c) = early \<and> sv_target (cn_sess c) = Some (seen_host I host, port) \<and>
     sv_ctx (cn_sess c) = Some x \<and> \<not> sv_intercept (cn_sess c) \<and>
     sv_out (cn_sess c) = [] \<and> sv_state (cn_sess c) = PConnectWait \<and> sv_custom_pipe (cn_sess c) = None \<and>
     \<not> sv_rejected (cn_sess c) \<and> \<not> sv_relay_raw (cn_sess c) \<and> \<not> sv_connect_failed (cn_sess c) \<and>
     cn_rx c = later \<and> cn_sends c = [] \<and> cn_up c = None \<and> sent_bytes (cn_log c) = [5, 2, 1, 0] \<and>
     filter dials (cn_log c) = []"

lemma serve_login:
  assumes I: "posix_inet I" and H: "hk_authorize (H :: ('c, 'p) server_hooks) = Some h"
    and h: "\<And>s. h s (Some u) (Some p) = ([DOk (Some x)], False)"
    and a: "py_userpass_auth u p = Inr a" and r: "py_request I 1 host port = Inr r"
  shows "\<exists>c. at_request I x host port early later c \<and>
    serve_loop I H dial (conn_init H (Inr ([5, 1, 2] @ a @ r @ early) # later) []) =
      (case on_request H dial (seen_host I host) port c of
         (Some st, c') \<Rightarrow> (st, c') | (None, c') \<Rightarrow> serve_loop I H dial c')"
proof -
  let ?d = "[5, 1, 2] @ a @ r @ early"
  let ?s0 = "server_init True :: ('c, 'p) server_session"
  let ?c0 = "conn_init H (Inr ?d # later) []"
  have s0: "cn_sess ?c0 = ?s0" by (simp add: conn_init_def new_session_def H)
  have n0: "next_event I ?s0 = (Inr NeedData, ?s0)"
    by (simp add: next_event_def server_step_def step_greeting_def server_init_def
        py_parse_greeting_def parse_greeting_def)
  define c1 where "c1 = \<lparr>cn_sess = receive ?s0 ?d, cn_up = None, cn_rx = later, cn_sends = [],
      cn_log = [LSession (AEvent NeedData), LSession (ARecv ?d)]\<rparr>"
  have t0: "serve_turn I H dial ?c0 = (None, c1)"
    using n0 s0 by (simp add: serve_turn_def serve_event_def conn_init_def cn_note_def c1_def new_session_def H)
  define c2 where "c2 = \<lparr>cn_sess = (receive ?s0 ?d)\<lparr>sv_buf := a @ r @ early, sv_state := PAuth\<rparr>,
      cn_up = None, cn_rx = later, cn_sends = [],
      cn_log = cn_log c1 @ [LSession (AEvent (Send [5, 2])), LSent [5, 2]]\<rparr>"
  have "sv_poll I (cn_sess c1) = (Some (Inr (Send [5, 2])), cn_sess c2)"
    using poll_greeting [of "cn_sess c1" 2 "a @ r @ early" I]
    by (simp add: c1_def c2_def server_init_def receive_def)
  then have t1: "serve_turn I H dial c1 = (None, c2)"
    by (simp add: serve_turn_event serve_event_def cn_note_def) (simp add: c1_def c2_def)
  define s3 where "s3 = (cn_sess c2)\<lparr>sv_buf := r @ early, sv_rejected := False, sv_state := PAuthWait\<rparr>"
  define c3 where "c3 = cn_decide [DOk (Some x)] (cn_note (LSession (AEvent (Authorize (Some u) (Some p)))) (c2\<lparr>cn_sess := s3\<rparr>))"
  have "sv_poll I (cn_sess c2) = (Some (Inr (Authorize (Some u) (Some p))), s3)"
    using poll_auth [OF _ _ _ a, of "cn_sess c2" "r @ early" I]
    by (simp add: c2_def s3_def server_init_def receive_def)
  then have t2: "serve_turn I H dial c2 = (None, c3)"
    using H h by (simp add: serve_turn_event serve_event_def on_authorize_def hook_decisions_def c3_def)
  have s3': "cn_sess c3 = s3\<lparr>sv_ctx := Some x, sv_rejected := False\<rparr>"
    by (simp add: c3_def cn_decide_def sv_ok_def)
  have k3: "cn_rx c3 = later" "cn_sends c3 = []" "cn_up c3 = None" "sent_bytes (cn_log c3) = [5, 2]"
    "filter dials (cn_log c3) = []"
    by (simp_all add: c3_def) (simp_all add: c2_def c1_def)
  define c4 where "c4 = c3\<lparr>cn_sess := (cn_sess c3)\<lparr>sv_state := PRequest\<rparr>,
      cn_log := cn_log c3 @ [LSession (AEvent (Send [1, 0])), LSent [1, 0]]\<rparr>"
  have "sv_poll I (cn_sess c3) = (Some (Inr (Send [1, 0])), cn_sess c4)"
    using poll_auth_wait [of "cn_sess c3" I] s3' by (simp add: s3_def c4_def c2_def server_init_def receive_def)
  then have t3: "serve_turn I H dial c3 = (None, c4)"
    using k3(2) by (simp add: serve_turn_event serve_event_def cn_note_def) (simp add: c4_def)
  define c5 where "c5 = c4\<lparr>cn_sess := (cn_sess c4)\<lparr>sv_buf := early, sv_cmd := 1,
      sv_target := Some (seen_host I host, port), sv_rejected := False, sv_connected_bnd := None,
      sv_connect_failed := False, sv_state := PConnectWait\<rparr>,
      cn_log := cn_log c4 @ [LSession (AEvent (Connect 1 (seen_host I host) port))]\<rparr>"
  have "sv_poll I (cn_sess c4) = (Some (Inr (Connect 1 (seen_host I host) port)), cn_sess c5)"
    using poll_request [OF I _ _ _ r, of "cn_sess c4" early] s3'
    by (simp add: c4_def c5_def s3_def c2_def server_init_def receive_def)
  then have t4: "serve_turn I H dial c4 = on_request H dial (seen_host I host) port c5"
    by (simp add: serve_turn_event serve_event_def cn_note_def) (simp add: c5_def)
  have "at_request I x host port early later c5"
    using k3 s3' by (simp add: at_request_def c5_def c4_def s3_def c2_def server_init_def receive_def)
  moreover have "serve_loop I H dial ?c0 = serve_loop I H dial c4"
    using serve_loop_step [OF t0] serve_loop_step [OF t1] serve_loop_step [OF t2] serve_loop_step [OF t3] by simp
  moreover have "serve_loop I H dial c4 =
      (case on_request H dial (seen_host I host) port c5 of
         (Some st, c') \<Rightarrow> (st, c') | (None, c') \<Rightarrow> serve_loop I H dial c')"
    by (subst serve_loop.simps) (auto simp: t4 split: prod.split option.split)
  ultimately show ?thesis by auto
qed

section \<open>What is never dialled\<close>

lemma hello_login:
  "login_accepted hello_hooks log \<Longrightarrow>
     \<exists>u p. u \<noteq> [] \<and> LSession (AEvent (Authorize (Some u) p)) \<in> set log"
  by (fastforce simp: login_accepted_def hello_hooks_def hello_authorize_def hook_decisions_def
      split: option.splits if_splits)

lemma hello_pass:
  "let_pass hello_hooks tg log \<Longrightarrow>
     \<exists>cmd host port. tg = Some (host, port) \<and> \<not> (host = py_lit ''ifconfig.me'' \<and> port = 80) \<and>
       LSession (AEvent (Connect cmd host port)) \<in> set log"
  by (auto simp: let_pass_def request_decisions_def hello_hooks_def hello_on_connect_def hook_decisions_def
      intercept_hosts_def sv_set_intercept_def Let_def split: if_splits)

lemma hello_answer_log:
  "hello_answer c = (st, c') \<Longrightarrow>
     \<exists>ext. cn_log c' = cn_log c @ ext \<and> (\<forall>tg r. LDial tg r \<notin> set ext)"
  by (auto simp: hello_answer_def cn_note_def split: option.splits sum.splits list.splits)

lemma hello_relay_log:
  "hello_relay patience E u = (st, v) \<Longrightarrow>
     \<exists>ext. cn_log v = cn_log u @ ext \<and> (\<forall>tg r. LDial tg r \<notin> set ext)"
proof (cases "sv_custom_pipe (cn_sess u)")
  case None
  assume "hello_relay patience E u = (st, v)"
  then show ?thesis
    using None relay_plain_drivers(2) [of E] by (auto simp: hello_relay_def relay_plain_def)
next
  case (Some f)
  let ?u = "cn_note (LRelay (RPipe HelloUpstream)) u"
  assume "hello_relay patience E u = (st, v)"
  then have "v = ?u \<or> hello_answer ?u = (st, v)"
    using Some by (auto simp: hello_relay_def hello_upstream_def
        split: until_result.splits if_splits option.splits hello_pipe.splits)
  then show ?thesis using hello_answer_log [of ?u st v] by (auto simp: cn_note_def)
qed

text \<open>The destination that is faked is never dialled, and nobody without a user name gets anywhere:
  whatever the client sends, a dial goes to a host and port it asked for, other than
  \<^verbatim>\<open>ifconfig.me:80\<close>, and nothing is dialled, relayed or answered from memory before a login with
  a user name that is not empty. (The password is not looked at.)\<close>

theorem hello_guards:
  assumes "hello_handle I dial patience E rx sends = (out, c)"
  shows "(\<forall>tg r. LDial tg r \<in> set (cn_log c) \<longrightarrow>
      (\<exists>cmd host port. tg = Some (host, port) \<and> \<not> (host = py_lit ''ifconfig.me'' \<and> port = 80) \<and>
         LSession (AEvent (Connect cmd host port)) \<in> set (cn_log c))) \<and>
    ((\<exists>l \<in> set (cn_log c). reaches_out l) \<longrightarrow>
      (\<exists>u p. u \<noteq> [] \<and> LSession (AEvent (Authorize (Some u) p)) \<in> set (cn_log c)))"
proof -
  have h: "handle_with (\<lambda>e. is_os_error e \<or> e = IncompleteReadErr) (hello_relay patience E) I hello_hooks dial
      (conn_init hello_hooks rx sends) = (out, c)"
    using assms by (simp add: hello_handle_def)
  have p: "relay_plain (hello_relay patience E)" unfolding relay_plain_def using hello_relay_log by blast
  have a: "hk_authorize hello_hooks = Some hello_authorize" by (simp add: hello_hooks_def)
  have g: "set (cn_log u) \<subseteq> set (cn_log v)" if "hello_relay patience E u = (st, v)" for u st v
    using hello_relay_log [OF that] by auto
  have "dials_ok hello_hooks (cn_log c)" by (rule handle_dials [OF h p])
  then have "\<exists>cmd host port. tg = Some (host, port) \<and> \<not> (host = py_lit ''ifconfig.me'' \<and> port = 80) \<and>
      LSession (AEvent (Connect cmd host port)) \<in> set (cn_log c)" if "LDial tg r \<in> set (cn_log c)" for tg r
    using that by (intro hello_pass) (auto simp: dials_ok_def)
  moreover have "\<exists>u p. u \<noteq> [] \<and> LSession (AEvent (Authorize (Some u) p)) \<in> set (cn_log c)"
    if "l \<in> set (cn_log c)" "reaches_out l" for l
    by (rule hello_login [OF handle_admits [OF h a that g]])
  ultimately show ?thesis by blast
qed

section \<open>The faked destination answers\<close>

lemma hello_turns:
  assumes a: "at_request I \<lparr>hc_username = u\<rparr> host 80 early later c" and hst: "seen_host I host = py_lit ''ifconfig.me''"
    and w: "py_reply I 0 (py_lit ''ifconfig.me'') 80 = Inr w"
  shows "\<exists>c'. (case on_request hello_hooks dial (seen_host I host) 80 c of
         (Some st, c') \<Rightarrow> (st, c') | (None, c') \<Rightarrow> serve_loop I hello_hooks dial c') = (SRelay, c') \<and>
    sv_custom_pipe (cn_sess c') = Some HelloUpstream \<and> sv_ctx (cn_sess c') = Some \<lparr>hc_username = u\<rparr> \<and>
    cn_rx c' = later \<and> cn_sends c' = [] \<and> cn_up c' = None \<and> sent_bytes (cn_log c') = [5, 2, 1, 0] @ w \<and>
    filter dials (cn_log c') = []"
proof -
  note a = a [unfolded at_request_def hst]
  define c1 where "c1 = cn_decide [DConnected (py_lit ''ifconfig.me'') 80] (cn_decide [DIntercept (Some HelloUpstream)] c)"
  have d1: "on_request hello_hooks dial (seen_host I host) 80 c = (None, c1)"
    using a by (simp add: on_request_def hello_hooks_def hello_on_connect_def intercept_hosts_def hook_decisions_def
        hst c1_def cn_decide_def sv_set_intercept_def)
  have s1: "cn_sess c1 = (cn_sess c)\<lparr>sv_custom_pipe := Some HelloUpstream, sv_intercept := True,
      sv_connected_bnd := Some (py_lit ''ifconfig.me'', 80)\<rparr>"
    by (simp add: c1_def cn_decide_def sv_connected_def sv_set_intercept_def)
  have k1: "cn_rx c1 = later" "cn_sends c1 = []" "cn_up c1 = None" "sent_bytes (cn_log c1) = [5, 2, 1, 0]"
    "filter dials (cn_log c1) = []"
    using a by (simp_all add: c1_def)
  define c2 where "c2 = c1\<lparr>cn_sess := (cn_sess c1)\<lparr>sv_state := PRelay, sv_out := [Relay (py_lit ''ifconfig.me'') 80]\<rparr>,
      cn_log := cn_log c1 @ [LSession (AEvent (Send w)), LSent w]\<rparr>"
  have "sv_poll I (cn_sess c1) = (Some (Inr (Send w)), cn_sess c2)"
    using poll_grant [of "cn_sess c1" "py_lit ''ifconfig.me''" 80 "py_lit ''ifconfig.me''" 80 I w] a w s1
    by (simp add: c2_def)
  then have t1: "serve_turn I hello_hooks dial c1 = (None, c2)"
    using k1(2) by (simp add: serve_turn_event serve_event_def cn_note_def) (simp add: c2_def)
  define c3 where "c3 = cn_note (LSession (AEvent (Relay (py_lit ''ifconfig.me'') 80)))
      (c2\<lparr>cn_sess := (cn_sess c2)\<lparr>sv_out := []\<rparr>\<rparr>)"
  have "sv_poll I (cn_sess c2) = (Some (Inr (Relay (py_lit ''ifconfig.me'') 80)), (cn_sess c2)\<lparr>sv_out := []\<rparr>)"
    by (rule poll_queue) (simp_all add: c2_def)
  then have t2: "serve_turn I hello_hooks dial c2 = (Some SRelay, c3)"
    by (simp add: serve_turn_event serve_event_def c3_def)
  have "serve_loop I hello_hooks dial c1 = (SRelay, c3)" by (simp add: serve_loop_step [OF t1] serve_loop_stop [OF t2])
  moreover have "sv_custom_pipe (cn_sess c3) = Some HelloUpstream \<and> sv_ctx (cn_sess c3) = Some \<lparr>hc_username = u\<rparr> \<and>
    cn_rx c3 = later \<and> cn_sends c3 = [] \<and> cn_up c3 = None \<and> sent_bytes (cn_log c3) = [5, 2, 1, 0] @ w \<and>
    filter dials (cn_log c3) = []"
    using a k1 s1 by (simp add: c3_def c2_def cn_note_def)
  ultimately show ?thesis using d1 by simp
qed

text \<open>The request can be late, cut off or too long, but the connection must not fail under it.\<close>

definition request_tolerated :: "nat \<Rightarrow> (py_exn + bytes) list \<Rightarrow> bool" where
  "request_tolerated patience rx \<longleftrightarrow>
     (\<forall>e. read_until stream_limit (crlf_bytes @ crlf_bytes) [] (take patience rx) = UntilRaised e \<longrightarrow> request_ignored e)"

lemma hello_answers:
  assumes "sv_custom_pipe (cn_sess c) = Some HelloUpstream" "sv_ctx (cn_sess c) = Some \<lparr>hc_username = u\<rparr>"
    and "cn_sends c = []" "hello_response u = Inr resp" "request_tolerated patience (cn_rx c)"
  shows "\<exists>c'. hello_relay patience E c = (SReturn, c') \<and> sent_bytes (cn_log c') = sent_bytes (cn_log c) @ resp \<and>
    filter dials (cn_log c') = filter dials (cn_log c) \<and> cn_up c' = cn_up c"
  using assms
  by (auto simp: hello_relay_def hello_upstream_def hello_answer_def request_tolerated_def cn_note_def
      split: until_result.splits)

text \<open>A client that logs in with a user name and asks for \<^verbatim>\<open>ifconfig.me:80\<close> with the pipeline of the
  library is let in, told SUCCEEDED with the host it asked for, and sent the whole greeting that
  names it, whatever it then sends; nothing is dialled, and the connection is closed.\<close>

theorem hello_served:
  assumes I: "posix_inet I" and i: "session_init (Some u) (Some p) = Inr sess" "u \<noteq> []"
    and pipe: "optimistic_pipeline I sess (py_lit ''ifconfig.me'') 80 1 = Inr pipe"
    and hst: "seen_host I (py_lit ''ifconfig.me'') = py_lit ''ifconfig.me''"
    and w: "py_reply I 0 (py_lit ''ifconfig.me'') 80 = Inr w" "hello_response u = Inr resp"
    and t: "request_tolerated patience later"
  shows "\<exists>c. hello_handle I dial patience E (Inr pipe # later) [] = (Ended, c) \<and>
    sent_bytes (cn_log c) = [5, 2, 1, 0] @ w @ resp \<and> filter dials (cn_log c) = [] \<and>
    LCloseDown \<in> set (cn_log c)"
proof -
  obtain a r where ar: "py_userpass_auth u p = Inr a" "py_request I 1 (py_lit ''ifconfig.me'') 80 = Inr r"
    "pipe = [5, 1, 2] @ a @ r" using pipeline_parts [OF i(1) pipe] by auto
  have H: "hk_authorize hello_hooks = Some hello_authorize" by (simp add: hello_hooks_def)
  have h: "hello_authorize s (Some u) (Some p) = ([DOk (Some \<lparr>hc_username = u\<rparr>)], False)" for s
    using i(2) by (simp add: hello_authorize_def)
  obtain c where c: "at_request I \<lparr>hc_username = u\<rparr> (py_lit ''ifconfig.me'') 80 [] later c"
    "serve_loop I hello_hooks dial (conn_init hello_hooks (Inr ([5, 1, 2] @ a @ r @ []) # later) []) =
      (case on_request hello_hooks dial (seen_host I (py_lit ''ifconfig.me'')) 80 c of
         (Some st, c') \<Rightarrow> (st, c') | (None, c') \<Rightarrow> serve_loop I hello_hooks dial c')"
    using serve_login [OF I H h ar(1,2), where early = "[]" and later = later and dial = dial] by blast
  from hello_turns [OF c(1) hst w(1), of dial] c(2) obtain v where
    v: "serve_loop I hello_hooks dial (conn_init hello_hooks (Inr pipe # later) []) = (SRelay, v)"
      "sv_custom_pipe (cn_sess v) = Some HelloUpstream" "sv_ctx (cn_sess v) = Some \<lparr>hc_username = u\<rparr>"
      "cn_rx v = later" "cn_sends v = []" "cn_up v = None" "sent_bytes (cn_log v) = [5, 2, 1, 0] @ w"
      "filter dials (cn_log v) = []"
    using ar(3) by auto
  from hello_answers [OF v(2,3,5) w(2)] t v(4) obtain z where
    z: "hello_relay patience E v = (SReturn, z)" "sent_bytes (cn_log z) = sent_bytes (cn_log v) @ resp"
      "filter dials (cn_log z) = filter dials (cn_log v)" "cn_up z = cn_up v"
    by blast
  show ?thesis
    using v z by (simp add: hello_handle_def handle_with_def teardown_def hello_hooks_def)
qed

text \<open>The user \<^verbatim>\<open>bob\<close>, whose HTTP request is cut off.\<close>

definition hello_env :: "hello_pipe relay_env" where
  "hello_env = \<lparr>re_pipe = (\<lambda>_. None), re_up_rx = [], re_up_sends = [], re_up_closing = [], re_down_closing = []\<rparr>"

definition no_dial :: dialer where
  "no_dial t = Inl ConnRefusedErr"

lemma bob_session: "session_init (Some (py_lit ''bob'')) (Some (py_lit ''x'')) = Inr
    \<lparr>ss_user = Some (py_lit ''bob''), ss_pass = Some (py_lit ''x''), ss_auth = True, ss_buf = [], ss_state = SMethod, ss_reply = None\<rparr>"
  by (simp add: session_init_def)

definition bob_pipe :: bytes where
  "bob_pipe = [5, 1, 2, 1, 3, 98, 111, 98, 1, 120, 5, 1, 0, 3, 11, 105, 102, 99, 111, 110, 102, 105, 103, 46, 109, 101, 0, 80]"

theorem hello_served_witness:
  "\<exists>c w resp. hello_handle text_inet no_dial 9 hello_env (Inr bob_pipe # [Inr [71, 69, 84], Inr []]) [] = (Ended, c) \<and>
     hello_response (py_lit ''bob'') = Inr resp \<and> sent_bytes (cn_log c) = [5, 2, 1, 0] @ w @ resp"
proof -
  have p: "py_lit ''bob'' \<noteq> []" by (simp add: py_lit_def)
  have pipe: "optimistic_pipeline text_inet
      \<lparr>ss_user = Some (py_lit ''bob''), ss_pass = Some (py_lit ''x''), ss_auth = True, ss_buf = [], ss_state = SMethod, ss_reply = None\<rparr>
      (py_lit ''ifconfig.me'') 80 1 = Inr bob_pipe" by code_simp
  have hst: "seen_host text_inet (py_lit ''ifconfig.me'') = py_lit ''ifconfig.me''" by code_simp
  have "\<not> isl (py_reply text_inet 0 (py_lit ''ifconfig.me'') 80)" "\<not> isl (hello_response (py_lit ''bob''))"
    by code_simp+
  then obtain w resp where w: "py_reply text_inet 0 (py_lit ''ifconfig.me'') 80 = Inr w" "hello_response (py_lit ''bob'') = Inr resp"
    by (cases "py_reply text_inet 0 (py_lit ''ifconfig.me'') 80"; cases "hello_response (py_lit ''bob'')") auto
  have "request_tolerated 9 [Inr [71, 69, 84], Inr []]"
    by (simp add: request_tolerated_def until_buffered_def stream_limit_def crlf_bytes_def request_ignored_def)
  from hello_served [OF text_inet.posix_inet_axioms bob_session p pipe hst w this, of no_dial hello_env] w(2)
  show ?thesis by blast
qed

text \<open>The user \<^verbatim>\<open>bob\<close> with an empty password asks for another destination.\<close>

theorem hello_guards_witness:
  "\<exists>c. hello_handle text_inet no_dial 9 hello_env
      [Inr [5, 1, 2, 1, 3, 98, 111, 98, 0, 5, 1, 0, 1, 1, 2, 3, 4, 0, 80]] [] = (Ended, c) \<and>
     list_ex reaches_out (cn_log c) \<and> (\<exists>u p. u \<noteq> [] \<and> LSession (AEvent (Authorize (Some u) p)) \<in> set (cn_log c))"
proof -
  let ?r = "hello_handle text_inet no_dial 9 hello_env
      [Inr [5, 1, 2, 1, 3, 98, 111, 98, 0, 5, 1, 0, 1, 1, 2, 3, 4, 0, 80]] []"
  have "fst ?r = Ended" "list_ex reaches_out (cn_log (snd ?r))" by code_simp+
  then obtain c where c: "?r = (Ended, c)" "list_ex reaches_out (cn_log c)" by (metis prod.collapse)
  then have "\<exists>l \<in> set (cn_log c). reaches_out l" by (simp add: list_ex_iff)
  with hello_guards [OF c(1)] c show ?thesis by blast
qed

end
