(* ===== verification/AsyncConnect.thy ===== *)
theory AsyncConnect
  imports ClientSessionFacts AioClient InetText
begin

text \<open>
  \<^verbatim>\<open>examples/async_connect.py\<close>: the optimistic handshake over asyncio streams, without the client
  classes and without a timeout. A task that awaits what never comes is the result \<open>None\<close>.
\<close>

section \<open>Streams without a timeout\<close>

text \<open>
  \<open>ns_rx\<close> is what has come by each time that the task is woken; an empty chunk is the end of the
  stream. \<open>ns_drain\<close> is how the one \<^verbatim>\<open>drain\<close> ends, \<open>ns_closed\<close> how \<^verbatim>\<open>wait_closed\<close> does, if they do.
\<close>

record nstream =
  ns_buf :: bytes
  ns_eof :: bool
  ns_rx :: "(py_exn + bytes) list"
  ns_drain :: "py_exn option option"
  ns_closed :: "py_exn option option"
  ns_tx :: bytes
  ns_open :: bool

fun chunk_stream :: "(py_exn + bytes) list \<Rightarrow> bytes" where
  "chunk_stream (Inr d # r) = (if d = [] then [] else d @ chunk_stream r)"
| "chunk_stream _ = []"

definition ns_stream :: "nstream \<Rightarrow> bytes" where
  "ns_stream s = ns_buf s @ (if ns_eof s then [] else chunk_stream (ns_rx s))"

definition ns_wait :: "nstream \<Rightarrow> (py_exn + unit) option \<times> nstream" where
  "ns_wait s =
     (if ns_buf s \<noteq> [] \<or> ns_eof s then (Some (Inr ()), s)
      else (case ns_rx s of
              [] \<Rightarrow> (None, s)
            | Inl e # _ \<Rightarrow> (Some (Inl e), s)
            | Inr d # rest \<Rightarrow>
                if d = [] then (Some (Inr ()), s\<lparr>ns_eof := True\<rparr>)
                else (Some (Inr ()), s\<lparr>ns_buf := d, ns_rx := rest\<rparr>)))"

definition ns_read :: "nat \<Rightarrow> nstream \<Rightarrow> (py_exn + bytes) option \<times> nstream" where
  "ns_read n s =
     (case ns_wait s of
        (Some (Inr _), s') \<Rightarrow> (Some (Inr (take n (ns_buf s'))), s'\<lparr>ns_buf := drop n (ns_buf s')\<rparr>)
      | (Some (Inl e), s') \<Rightarrow> (Some (Inl e), s')
      | (None, s') \<Rightarrow> (None, s'))"

section \<open>The example\<close>

text \<open>The reply, once the session has one; what the session holds behind it is not looked at.\<close>

function example_loop :: "inet_api \<Rightarrow> session \<Rightarrow> nstream \<Rightarrow> (py_exn + reply_obj) option \<times> nstream" where
  "example_loop I sess s =
     (case ns_read 4096 s of
        (None, s') \<Rightarrow> (None, s')
      | (Some (Inl e), s') \<Rightarrow> (Some (Inl e), s')
      | (Some (Inr chunk), s') \<Rightarrow>
          if chunk = [] then (Some (Inl (Socks5Err ''proxy closed during handshake'')), s')
          else (case feed I sess chunk of
                  (Inl e, _) \<Rightarrow> (Some (Inl e), s')
                | (Inr (Some r), _) \<Rightarrow> (Some (Inr r), s')
                | (Inr None, sess') \<Rightarrow> example_loop I sess' s'))"
  by pat_completeness auto

definition ns_room :: "nstream \<Rightarrow> nat" where
  "ns_room s = length (ns_buf s) + length (concat (map (case_sum (\<lambda>_. []) id) (ns_rx s)))"

lemma ns_wait_keeps:
  assumes "ns_wait s = (q, s')"
  shows "ns_open s' = ns_open s" "ns_room s' = ns_room s" "ns_stream s' = ns_stream s"
    and "q = None \<Longrightarrow> ns_stream s = []"
  using assms
  by (auto simp: ns_wait_def ns_stream_def ns_room_def split: if_splits list.splits sum.splits)

lemma ns_read_cases:
  assumes "ns_read n s = (q, s')"
  obtains (hang) "q = None" "ns_wait s = (None, s')"
  | (raise) e where "q = Some (Inl e)" "ns_wait s = (Some (Inl e), s')"
  | (data) t where "q = Some (Inr (take n (ns_buf t)))" "ns_wait s = (Some (Inr ()), t)"
      "s' = t\<lparr>ns_buf := drop n (ns_buf t)\<rparr>"
  using assms by (auto simp: ns_read_def split: prod.splits option.splits sum.splits)

lemma ns_buf_drop:
  "take n (ns_buf t) @ ns_stream (t\<lparr>ns_buf := drop n (ns_buf t)\<rparr>) = ns_stream t"
  "take n (ns_buf t) \<noteq> [] \<Longrightarrow> ns_room (t\<lparr>ns_buf := drop n (ns_buf t)\<rparr>) < ns_room t"
  by (simp add: ns_stream_def append_assoc [symmetric] del: append_assoc, auto simp: ns_room_def)

lemma ns_read_bytes:
  assumes "ns_read n s = (Some (Inr d), s')"
  shows "ns_stream s = d @ ns_stream s'" "d \<noteq> [] \<Longrightarrow> ns_room s' < ns_room s"
  using assms
  by (cases rule: ns_read_cases; use ns_wait_keeps(2,3) ns_buf_drop in \<open>metis option.inject sum.inject(2)
      option.distinct(1) sum.distinct(1)\<close>)+

termination example_loop
  by (relation "measure (\<lambda>(I, sess, s). ns_room s)") (auto dest: ns_read_bytes(2) [OF sym])

declare example_loop.simps [simp del]

definition example_connect ::
  "inet_api \<Rightarrow> py_exn + nstream \<Rightarrow> pystr option \<Rightarrow> pystr option \<Rightarrow> pystr \<Rightarrow> int \<Rightarrow>
     (py_exn + reply_obj) option \<times> nstream option" where
  "example_connect I dial user password host port =
     (case dial of
        Inl e \<Rightarrow> (Some (Inl e), None)
      | Inr s \<Rightarrow>
          (case bind_res (session_init user password) (\<lambda>sess.
                  bind_res (optimistic_pipeline I sess host port 1) (\<lambda>p. Inr (sess, p))) of
             Inl e \<Rightarrow> (Some (Inl e), Some s)
           | Inr (sess, p) \<Rightarrow>
               let s = s\<lparr>ns_tx := ns_tx s @ p\<rparr> in
               (case ns_drain s of
                  None \<Rightarrow> (None, Some s)
                | Some (Some e) \<Rightarrow> (Some (Inl e), Some s)
                | Some None \<Rightarrow>
                    (case example_loop I sess s of
                       (Some (Inr r), s) \<Rightarrow>
                         if \<not> reply_ok r
                         then (Some (Inl (Socks5Err (''request failed: '' @ rep_name (r_rep r)))),
                               Some (s\<lparr>ns_open := False\<rparr>))
                         else (Some (Inr r), Some s)
                     | (q, s) \<Rightarrow> (q, Some s)))))"

text \<open>\<^verbatim>\<open>main\<close>, with the command line read: the reply it prints, and how it ends.\<close>

definition example_main ::
  "inet_api \<Rightarrow> py_exn + nstream \<Rightarrow> pystr \<Rightarrow> int \<Rightarrow>
     reply_obj option \<times> (py_exn + unit) option \<times> nstream option" where
  "example_main I dial host port =
     (case example_connect I dial None None host port of
        (Some (Inr r), Some s) \<Rightarrow>
          (Some r,
           (case ns_closed s of None \<Rightarrow> None | Some (Some e) \<Rightarrow> Some (Inl e) | Some None \<Rightarrow> Some (Inr ())),
           Some (s\<lparr>ns_open := False\<rparr>))
      | (Some (Inl e), s) \<Rightarrow> (None, Some (Inl e), s)
      | (_, s) \<Rightarrow> (None, None, s))"

section \<open>The loop feeds its session what it reads\<close>

lemma ns_read_hangs: "ns_read n s = (None, s') \<Longrightarrow> ns_stream s = [] \<and> ns_stream s' = []"
  by (erule ns_read_cases) (use ns_wait_keeps(3,4) in \<open>force+\<close>)

lemma ns_read_open: "ns_read n s = (q, s') \<Longrightarrow> ns_open s' = ns_open s"
  by (erule ns_read_cases) (auto dest: ns_wait_keeps(1))

lemma example_loop_simps:
  "ns_read 4096 s = (None, t) \<Longrightarrow> example_loop I sess s = (None, t)"
  "ns_read 4096 s = (Some (Inl e), t) \<Longrightarrow> example_loop I sess s = (Some (Inl e), t)"
  "ns_read 4096 s = (Some (Inr []), t) \<Longrightarrow>
     example_loop I sess s = (Some (Inl (Socks5Err ''proxy closed during handshake'')), t)"
  "ns_read 4096 s = (Some (Inr d), t) \<Longrightarrow> d \<noteq> [] \<Longrightarrow> example_loop I sess s =
     (case feed I sess d of
        (Inl e, _) \<Rightarrow> (Some (Inl e), t)
      | (Inr (Some r), _) \<Rightarrow> (Some (Inr r), t)
      | (Inr None, sess') \<Rightarrow> example_loop I sess' t)"
  by (subst example_loop.simps; simp)+

definition loop_result ::
  "inet_api \<Rightarrow> session \<Rightarrow> nstream \<Rightarrow> (py_exn + reply_obj) option \<Rightarrow> nstream \<Rightarrow> bool" where
  "loop_result I sess s q s' \<longleftrightarrow>
     (case q of
        None \<Rightarrow> ns_stream s' = [] \<and> (\<exists>cs t. ns_stream s = concat cs \<and> feed_all I sess cs = (Inr None, t, []))
      | Some (Inr r) \<Rightarrow> \<exists>cs t. ns_stream s = concat cs @ ns_stream s' \<and> feed_all I sess cs = (Inr (Some r), t, [])
      | Some (Inl e) \<Rightarrow> True)"

lemma loop_result_more:
  assumes "loop_result I t u q s'" "feed I sess d = (Inr None, t)" "ns_stream s = d @ ns_stream u"
  shows "loop_result I sess s q s'"
proof -
  have ext: "feed_all I sess (d # cs) = feed_all I t cs" "concat (d # cs) = d @ concat cs" for cs
    using assms(2) by simp_all
  consider "q = None" | e where "q = Some (Inl e)" | r where "q = Some (Inr r)"
    by (cases q; metis (full_types) sum.exhaust)
  then show ?thesis
  proof cases
    case 1
    then obtain cs z where "ns_stream s' = []" "ns_stream u = concat cs" "feed_all I t cs = (Inr None, z, [])"
      using assms(1) by (auto simp: loop_result_def)
    then show ?thesis
      using 1 assms(3) ext unfolding loop_result_def by (auto intro!: exI [of _ "d # cs"])
  next
    case (3 r)
    then obtain cs z where "ns_stream u = concat cs @ ns_stream s'" "feed_all I t cs = (Inr (Some r), z, [])"
      using assms(1) by (auto simp: loop_result_def)
    then show ?thesis
      using 3 assms(3) ext unfolding loop_result_def by (auto intro!: exI [of _ "d # cs"])
  qed (simp add: loop_result_def)
qed

lemma example_loop_feeds:
  "example_loop I sess s = (q, s') \<Longrightarrow> ns_open s' = ns_open s \<and> loop_result I sess s q s'"
proof (induction I sess s rule: example_loop.induct)
  case (1 I sess s)
  obtain m u where m: "ns_read 4096 s = (m, u)" by fastforce
  note o = ns_read_open [OF m]
  consider (hang) "m = None" | (err) e where "m = Some (Inl e)" | (eof) "m = Some (Inr [])"
    | (chunk) d where "m = Some (Inr d)" "d \<noteq> []"
    by (cases m; metis (full_types) sum.exhaust)
  then show ?case
  proof cases
    case hang
    then have "ns_stream s = concat []" "ns_stream s' = []" "q = None" "s' = u"
      using m ns_read_hangs "1.prems" by (auto simp: example_loop_simps)
    then show ?thesis using o by (auto simp: loop_result_def intro!: exI [of _ "[]"])
  next
    case chunk
    note d = ns_read_bytes(1) [OF m [unfolded chunk(1)]]
    note run = example_loop_simps(4) [OF m [unfolded chunk(1)] chunk(2)]
    obtain x t where f: "feed I sess d = (x, t)" by fastforce
    consider (e) e where "x = Inl e" | (r) r where "x = Inr (Some r)" | (w) "x = Inr None"
      by (cases x; metis option.exhaust)
    then show ?thesis
    proof cases
      case w
      then have "example_loop I t u = (q, s')" using "1.prems" run f by simp
      then have "ns_open s' = ns_open u \<and> loop_result I t u q s'"
        using "1.IH" [OF m [symmetric] chunk(1) refl chunk(2) f [symmetric] w] by simp
      then show ?thesis using loop_result_more f w d o by metis
    next
      case e
      then show ?thesis using "1.prems" run f o by (auto simp: loop_result_def)
    next
      case (r v)
      then have "q = Some (Inr v)" "s' = u" using "1.prems" run f by simp_all
      moreover have "ns_stream s = concat [d] @ ns_stream u \<and> feed_all I sess [d] = (Inr (Some v), t, [])"
        using d f r by simp
      then have "\<exists>cs t. ns_stream s = concat cs @ ns_stream u \<and> feed_all I sess cs = (Inr (Some v), t, [])"
        by blast
      ultimately show ?thesis using o by (simp add: loop_result_def)
    qed
  qed (use "1.prems" m o in \<open>auto simp: example_loop_simps loop_result_def\<close>)
qed

section \<open>What the caller gets\<close>

text \<open>The bytes that a reply was read from: the answers, the reply, and what came behind it.\<close>

definition read_for :: "inet_api \<Rightarrow> bool \<Rightarrow> reply_obj \<Rightarrow> bytes \<Rightarrow> bytes \<Rightarrow> bool" where
  "read_for I login r d behind \<longleftrightarrow>
     (\<exists>w v. d = accept_bytes login @ w @ behind \<and> reply_size w = Some (length w) \<and>
        py_parse_reply I w = Inr (Some v) \<and> r = mk_reply v)"

lemma example_connect_cases:
  assumes "example_connect I (Inr s) user password host port = (q, Some s')" "ns_open s"
  obtains (no_message) e where "q = Some (Inl e)" "s' = s"
  | (ran) sess p t where "session_init user password = Inr sess"
      "optimistic_pipeline I sess host port 1 = Inr p" "t = s\<lparr>ns_tx := ns_tx s @ p\<rparr>"
      "case ns_drain s of
         None \<Rightarrow> q = None \<and> s' = t
       | Some (Some e) \<Rightarrow> q = Some (Inl e) \<and> s' = t
       | Some None \<Rightarrow>
           (case example_loop I sess t of
              (Some (Inr r), u) \<Rightarrow>
                (if reply_ok r then q = Some (Inr r) \<and> s' = u
                 else q = Some (Inl (Socks5Err (''request failed: '' @ rep_name (r_rep r)))) \<and>
                   s' = u\<lparr>ns_open := False\<rparr>)
            | (x, u) \<Rightarrow> q = x \<and> s' = u)"
proof (cases "bind_res (session_init user password) (\<lambda>sess.
    bind_res (optimistic_pipeline I sess host port 1) (\<lambda>p. Inr (sess, p)))")
  case (Inl e)
  then show ?thesis using assms(1) by (intro no_message [of e]) (simp_all add: example_connect_def)
next
  case (Inr x)
  obtain sess p where x: "x = (sess, p)" by (cases x)
  show ?thesis
    by (rule ran [of sess p "s\<lparr>ns_tx := ns_tx s @ p\<rparr>"])
       (use assms(1) Inr x in \<open>auto simp: example_connect_def result_simps Let_def
          split: option.splits sum.splits prod.splits if_splits\<close>)
qed

lemma loop_result_reads:
  assumes "session_init user password = Inr sess" "loop_result I sess s (Some (Inr r)) s'"
  shows "\<exists>d behind. ns_stream s = d @ ns_stream s' \<and> read_for I (user \<noteq> None) r d behind"
proof -
  obtain cs t where c: "ns_stream s = concat cs @ ns_stream s'" "feed_all I sess cs = (Inr (Some r), t, [])"
    using assms(2) by (auto simp: loop_result_def)
  then have "cs \<noteq> []" by auto
  from feed_all_concat [OF assms(1) this c(2)]
  have "feed I sess (concat cs) = (Inr (Some r), t\<lparr>ss_buf := ss_buf t\<rparr>)" by simp
  from fresh_feed_consumes [OF assms(1) this] c(1) show ?thesis
    unfolding read_for_def by blast
qed

lemma loop_result_waits:
  assumes "session_init user password = Inr sess" "loop_result I sess s None s'"
  shows "length (ns_stream s) < 266 \<and> ns_stream s' = []"
proof -
  obtain cs t where c: "ns_stream s = concat cs" "feed_all I sess cs = (Inr None, t, [])" "ns_stream s' = []"
    using assms(2) by (auto simp: loop_result_def)
  show ?thesis
  proof (cases "cs = []")
    case False
    from feed_all_concat [OF assms(1) this c(2)] fresh_feed_waits [OF assms(1)] c show ?thesis
      by fastforce
  qed (use c in simp)
qed

text \<open>The asyncio example hands over a connection on which tunnel bytes are missing: when its
  \<^verbatim>\<open>optimistic_connect\<close> returns a reply, the peer has sent the answers, that one reply, bytes that
  came with it and are gone, and what the reader still yields. It closes the writer only when the
  reply refuses the request, and it hangs just on a drain that does not end or a peer that is silent
  after fewer than 266 bytes.\<close>

theorem example_loses_tunnel:
  assumes "example_connect I (Inr s) user password host port = (q, Some s')" "ns_open s"
  shows "case q of
      None \<Rightarrow> ns_open s' \<and> (ns_drain s = None \<or> length (ns_stream s) < 266 \<and> ns_stream s' = [])
    | Some (Inr r) \<Rightarrow> ns_open s' \<and> reply_ok r \<and>
        (\<exists>d lost. ns_stream s = d @ ns_stream s' \<and> read_for I (user \<noteq> None) r d lost)
    | Some (Inl e) \<Rightarrow> ns_open s' \<or>
        (\<exists>r d lost. ns_stream s = d @ ns_stream s' \<and> read_for I (user \<noteq> None) r d lost \<and> \<not> reply_ok r \<and>
          e = Socks5Err (''request failed: '' @ rep_name (r_rep r)))"
  using assms
proof (cases rule: example_connect_cases)
  case (ran sess p t)
  have t: "ns_stream t = ns_stream s" "ns_open t" using ran(3) assms(2) by (simp_all add: ns_stream_def)
  obtain x u where x: "example_loop I sess t = (x, u)" by fastforce
  note f = example_loop_feeds [OF x]
  have u: "ns_stream (u\<lparr>ns_open := b\<rparr>) = ns_stream u" for b by (simp add: ns_stream_def)
  show ?thesis
  proof (cases "ns_drain s = Some None")
    case True
    then have c: "case x of
        Some (Inr r) \<Rightarrow> (if reply_ok r then q = Some (Inr r) \<and> s' = u
           else q = Some (Inl (Socks5Err (''request failed: '' @ rep_name (r_rep r)))) \<and>
             s' = u\<lparr>ns_open := False\<rparr>)
      | _ \<Rightarrow> q = x \<and> s' = u" using ran(4) x by (auto split: option.splits sum.splits)
    consider "x = None" | e where "x = Some (Inl e)" | r where "x = Some (Inr r)"
      by (cases x; metis (full_types) sum.exhaust)
    then show ?thesis
    proof cases
      case 1
      then show ?thesis using c f t loop_result_waits [OF ran(1), of I t u] by simp
    next
      case (2 e)
      then show ?thesis using c f t by auto
    next
      case (3 r)
      with loop_result_reads [OF ran(1)] f t obtain d lost where
        "ns_stream s = d @ ns_stream u" "read_for I (user \<noteq> None) r d lost" by metis
      then show ?thesis using 3 c f t u by (auto split: if_splits)
    qed
  next
    case False
    then show ?thesis using ran(4) t by (auto split: option.splits)
  qed
qed (use assms(2) in simp)

definition demo_nstream :: nstream where
  "demo_nstream = \<lparr>ns_buf = [], ns_eof = False,
     ns_rx = [Inr [5, 0, 5], Inr [0, 0, 1, 9, 9, 9, 9, 0, 53, 84, 85], Inr [86]],
     ns_drain = Some None, ns_closed = Some None, ns_tx = [], ns_open = True\<rparr>"

theorem example_loses_tunnel_witness:
  "\<exists>s. example_connect text_inet (Inr demo_nstream) None None (py_lit ''h'') 80 =
      (Some (Inr \<lparr>r_rep = 0, r_host = py_lit ''9.9.9.9'', r_port = 53\<rparr>), Some s) \<and>
    ns_stream s = [86] \<and> (\<exists>d lost. ns_stream demo_nstream = d @ [86] \<and>
      read_for text_inet False \<lparr>r_rep = 0, r_host = py_lit ''9.9.9.9'', r_port = 53\<rparr> d lost)"
proof -
  have "map_prod id (map_option ns_stream)
      (example_connect text_inet (Inr demo_nstream) None None (py_lit ''h'') 80) =
    (Some (Inr \<lparr>r_rep = 0, r_host = py_lit ''9.9.9.9'', r_port = 53\<rparr>), Some [86])" by code_simp
  then obtain s where s: "example_connect text_inet (Inr demo_nstream) None None (py_lit ''h'') 80 =
      (Some (Inr \<lparr>r_rep = 0, r_host = py_lit ''9.9.9.9'', r_port = 53\<rparr>), Some s)" "ns_stream s = [86]"
    by (auto simp: map_prod_def split: prod.splits)
  have "ns_open demo_nstream" by (simp add: demo_nstream_def)
  from example_loses_tunnel [OF s(1) this] s show ?thesis by auto
qed

text \<open>A proxy that closes without a word leaves the example with an open writer.\<close>

lemma example_leaks_writer:
  "map_prod id (map_option ns_open)
     (example_connect text_inet (Inr (demo_nstream\<lparr>ns_rx := [Inr []]\<rparr>)) None None (py_lit ''h'') 80) =
   (Some (Inl (Socks5Err ''proxy closed during handshake'')), Some True)"
  by code_simp

end
