(* ===== verification/PackageApi.thy ===== *)
theory PackageApi
  imports Prelude "HOL-Library.List_Lexorder" "HOL-Library.Char_ord"
begin

text \<open>
  \<^verbatim>\<open>optisocks5/__init__.py\<close>: the names the package exports at once, and those it imports when they
  are first asked for.
\<close>

definition pkg_all :: "string list" where
  "pkg_all =
     [''Cmd'', ''Method'', ''Rep'', ''Reply'', ''Socks5Error'', ''Session'', ''rep_name'',
      ''client_greeting'', ''parse_method_selection'', ''userpass_auth'', ''parse_auth_reply'',
      ''request'', ''parse_reply'', ''udp_encapsulate'', ''udp_decapsulate'', ''Client'',
      ''OptimisticClient'']"

definition pkg_lazy :: "(string \<times> string) list" where
  "pkg_lazy =
     [(''AsyncClient'', ''optisocks5.aio''), (''AsyncOptimisticClient'', ''optisocks5.aio''),
      (''Server'', ''optisocks5.server''), (''AsyncServer'', ''optisocks5.server''),
      (''ServerSession'', ''optisocks5.server'')]"

text \<open>\<open>get m n\<close> is the attribute \<open>n\<close> of the module \<open>m\<close>, imported if need be.\<close>

definition pkg_getattr :: "(string \<Rightarrow> string \<Rightarrow> py_exn + 'o) \<Rightarrow> string \<Rightarrow> py_exn + 'o" where
  "pkg_getattr get name =
     (case map_of pkg_lazy name of
        Some m \<Rightarrow> get m name
      | None \<Rightarrow> Inl AttributeErr)"

definition pkg_dir :: "string list" where
  "pkg_dir = sort (pkg_all @ map fst pkg_lazy)"

text \<open>
  A lookup in the package: the names bound by the imports at the top first, \<^verbatim>\<open>__getattr__\<close> then.
\<close>

definition pkg_lookup ::
  "(string \<Rightarrow> 'o option) \<Rightarrow> (string \<Rightarrow> string \<Rightarrow> py_exn + 'o) \<Rightarrow> string \<Rightarrow> py_exn + 'o" where
  "pkg_lookup globals get name =
     (case globals name of Some x \<Rightarrow> Inr x | None \<Rightarrow> pkg_getattr get name)"

text \<open>What \<^verbatim>\<open>dir\<close> lists can be looked up, once each and in order, and no lazy name hides an eager one.\<close>

lemma pkg_dir_lists:
  "set pkg_dir = set pkg_all \<union> dom (map_of pkg_lazy)" "sorted pkg_dir" "distinct pkg_dir"
  "set pkg_all \<inter> dom (map_of pkg_lazy) = {}"
proof -
  show "set pkg_dir = set pkg_all \<union> dom (map_of pkg_lazy)"
    by (simp add: pkg_dir_def dom_map_of_conv_image_fst)
  show "sorted pkg_dir" by (simp add: pkg_dir_def)
  show "distinct pkg_dir" unfolding pkg_dir_def distinct_sort by code_simp
  show "set pkg_all \<inter> dom (map_of pkg_lazy) = {}"
    unfolding dom_map_of_conv_image_fst pkg_all_def pkg_lazy_def by simp
qed

lemma pkg_lookup_dir:
  assumes "\<And>n. n \<in> set pkg_all \<Longrightarrow> globals n \<noteq> None" "\<And>m n. (n, m) \<in> set pkg_lazy \<Longrightarrow> \<exists>x. get m n = Inr x"
    and "n \<in> set pkg_dir"
  shows "\<exists>x. pkg_lookup globals get n = Inr x"
  using assms pkg_dir_lists(1)
  by (auto simp: pkg_lookup_def pkg_getattr_def split: option.splits dest: map_of_SomeD)

section \<open>The modules behind the package\<close>

text \<open>
  The names that a module imports, each with the module it takes it from, and its \<^verbatim>\<open>__all__\<close>.
\<close>

record py_module =
  md_imports :: "(string \<times> string list) list"
  md_all :: "string list"

definition core_module :: py_module where
  "core_module =
     \<lparr>md_imports =
        [(''core.codec'', [''client_greeting'', ''parse_auth_reply'', ''parse_method_selection'', ''parse_reply'',
            ''request'', ''udp_decapsulate'', ''udp_encapsulate'', ''userpass_auth'']),
         (''core.session'', [''Session'', ''reply_size'']),
         (''core.types'', [''Cmd'', ''Method'', ''Rep'', ''Reply'', ''Socks5Error'', ''rep_name''])],
      md_all =
        [''Cmd'', ''Method'', ''Rep'', ''Reply'', ''Socks5Error'', ''rep_name'', ''Session'', ''reply_size'',
         ''client_greeting'', ''parse_method_selection'', ''userpass_auth'', ''parse_auth_reply'', ''request'',
         ''parse_reply'', ''udp_encapsulate'', ''udp_decapsulate'']\<rparr>"

definition codec_exports :: "string list" where
  "codec_exports =
     [''client_greeting'', ''parse_method_selection'', ''userpass_auth'', ''parse_auth_reply'', ''parse_reply'',
      ''udp_decapsulate'', ''request'', ''udp_encapsulate'', ''Cmd'']"

definition sync_module :: py_module where
  "sync_module =
     \<lparr>md_imports = [(''sync.client'', [''Client'', ''OptimisticClient''])], md_all = [''Client'', ''OptimisticClient'']\<rparr>"

definition aio_module :: py_module where
  "aio_module =
     \<lparr>md_imports = [(''aio.client'', [''AsyncClient'', ''AsyncOptimisticClient''])],
      md_all = [''AsyncClient'', ''AsyncOptimisticClient'']\<rparr>"

definition server_module :: py_module where
  "server_module =
     \<lparr>md_imports =
        [(''server'', [''events'']), (''server.aio'', [''AsyncServer'', ''async_splice'']),
         (''server.events'', [''Authorize'', ''Close'', ''Connect'', ''NeedData'', ''Relay'', ''Send'']),
         (''server.server'', [''Server'', ''splice'']), (''server.session'', [''ServerSession''])],
      md_all =
        [''Server'', ''AsyncServer'', ''ServerSession'', ''splice'', ''async_splice'', ''events'', ''Send'',
         ''NeedData'', ''Authorize'', ''Connect'', ''Relay'', ''Close'']\<rparr>"

text \<open>The imports at the top of the package.\<close>

definition pkg_imports :: "(string \<times> string list) list" where
  "pkg_imports =
     [(''core'', [''Cmd'', ''Method'', ''Rep'', ''Reply'', ''Session'', ''Socks5Error'', ''client_greeting'',
        ''parse_auth_reply'', ''parse_method_selection'', ''parse_reply'', ''rep_name'', ''request'',
        ''udp_decapsulate'', ''udp_encapsulate'', ''userpass_auth'']),
      (''sync'', [''Client'', ''OptimisticClient''])]"

definition bound_names :: "(string \<times> string list) list \<Rightarrow> string list" where
  "bound_names imports = concat (map snd imports)"

definition module_of :: "string \<Rightarrow> py_module option" where
  "module_of m =
     map_of [(''core'', core_module), (''sync'', sync_module), (''optisocks5.aio'', aio_module),
             (''optisocks5.server'', server_module)] m"

text \<open>The attribute of a module, as the value \<open>obj\<close> that the module it comes from gives it.\<close>

definition module_attr :: "(string \<Rightarrow> string \<Rightarrow> 'o) \<Rightarrow> string \<Rightarrow> string \<Rightarrow> py_exn + 'o" where
  "module_attr obj m n =
     (case module_of m of
        None \<Rightarrow> Inl AttributeErr
      | Some M \<Rightarrow>
          (case List.find (\<lambda>(_, ns). n \<in> set ns) (md_imports M) of
             Some (source, _) \<Rightarrow> Inr (obj source n)
           | None \<Rightarrow> Inl AttributeErr))"

definition package_attr :: "(string \<Rightarrow> string \<Rightarrow> 'o) \<Rightarrow> string \<Rightarrow> py_exn + 'o" where
  "package_attr obj =
     pkg_lookup
       (\<lambda>n. case List.find (\<lambda>(_, ns). n \<in> set ns) pkg_imports of
              None \<Rightarrow> None
            | Some (m, _) \<Rightarrow> (case module_attr obj m n of Inl e \<Rightarrow> None | Inr x \<Rightarrow> Some x))
       (module_attr obj)"

text \<open>Every module lists just what it imports, and \<^verbatim>\<open>codec.py\<close> lists what \<^verbatim>\<open>core\<close> takes from it.\<close>

lemma modules_consistent:
  "set (md_all core_module) = set (bound_names (md_imports core_module))"
  "set (md_all sync_module) = set (bound_names (md_imports sync_module))"
  "set (md_all aio_module) = set (bound_names (md_imports aio_module))"
  "set (md_all server_module) = set (bound_names (md_imports server_module))"
  "set pkg_all = set (bound_names pkg_imports)"
  "set (snd (hd (md_imports core_module))) \<subseteq> set codec_exports"
  by code_simp+

text \<open>So every name that \<^verbatim>\<open>dir\<close> of the package lists can be had from it, the lazy ones too.\<close>

lemma module_attr_source: "module_attr obj m n = map_sum id (case_prod obj) (module_attr Pair m n)"
  by (auto simp: module_attr_def split: option.splits)

lemma package_attr_source: "package_attr obj n = map_sum id (case_prod obj) (package_attr Pair n)"
  by (auto simp: package_attr_def pkg_lookup_def pkg_getattr_def module_attr_source [of obj]
      split: option.splits sum.splits)

lemma package_attr_dir:
  assumes "n \<in> set pkg_dir"
  shows "\<exists>m. package_attr obj n = Inr (obj m n)"
proof -
  have "list_all (\<lambda>n. case package_attr Pair n of Inl e \<Rightarrow> False | Inr (m, k) \<Rightarrow> k = n) pkg_dir" by code_simp
  then have "\<exists>m. package_attr Pair n = Inr (m, n)"
    using assms by (cases "package_attr Pair n") (auto simp: list_all_iff)
  then show ?thesis by (subst package_attr_source) auto
qed

end
