(* ===== verification/Spec2Isabelle.thy ===== *)
theory Spec2Isabelle
  imports ClientSessionProps ServerProps ServerVerdicts Handshake RoundTrip
    AioClientProps EndToEnd CliParser ServerSetup RelayTimeouts DialTimes ExampleMains ProxyTest SelectorProps MeteredProps HelloProps
    AsyncConnect PackageApi
begin

text \<open>
  A verification library for optisocks5, a SOCKS5 client and server library: a C++ codec, sans-IO
  sessions on top of it, and transports (blocking sockets, asyncio) around the sessions.

  \<^bold>\<open>The program and its parts.\<close> The codec (\<^verbatim>\<open>csrc/socks5_codec.cpp\<close>) builds and parses the messages
  of RFC 1928 and 1929; \<^verbatim>\<open>csrc/module.cpp\<close> is its CPython binding, which checks arguments and
  converts text. \<^verbatim>\<open>core/session.py\<close> is the client's side without I/O: it glues greeting, login and
  request into one write and then consumes the answers from any chunks. \<^verbatim>\<open>server/session.py\<close> is the
  server's side without I/O: bytes and decisions go in, events come out. \<^verbatim>\<open>sync/client.py\<close> and
  \<^verbatim>\<open>aio/client.py\<close> run the client over a socket and over asyncio streams, each once pipelined and
  once with a round trip per phase; \<^verbatim>\<open>server/server.py\<close> and \<^verbatim>\<open>server/aio.py\<close> run the server session
  with user hooks, a dial and a relay; \<^verbatim>\<open>cli.py\<close> drives the blocking clients. Six
  examples use the parts in ways of their own: \<^verbatim>\<open>selector_connect.py\<close> runs many client sessions on
  one thread, \<^verbatim>\<open>server_metered.py\<close> hangs a counting relay of two threads into the threaded server,
  \<^verbatim>\<open>async_server.py\<close> answers for a destination from memory, \<^verbatim>\<open>curl_through.py\<close> fetches a page,
  \<^verbatim>\<open>async_connect.py\<close> drives a client session by hand, \<^verbatim>\<open>proxy_test.py\<close>
  checks proxies, also through chains of handshakes.

  \<^bold>\<open>Theories and the code they model.\<close>
  \<^item> \<open>Prelude\<close>: exceptions, results (\<open>Inl\<close> raises, \<open>Inr\<close> returns), decimal text, bytes. \<open>PyStr\<close>:
    Python text as code points, with the UTF-8 encoder and the strict decoder.
  \<^item> \<open>Codec\<close>, \<open>CodecFacts\<close>, \<open>InetText\<close>: the C++ codec. \<^verbatim>\<open>inet_pton\<close> and \<^verbatim>\<open>inet_ntop\<close> are the
    parameter \<open>inet_api\<close>; the locale \<open>posix_inet\<close> states what the codec relies on (inverse on
    printed addresses, sizes 4 and 16, printed text is ASCII, short and without NUL), and \<open>text_inet\<close> is
    a concrete dotted-quad and hexadecimal instance of it.
  \<^item> \<open>CoreTypes\<close>: \<^verbatim>\<open>core/types.py\<close>. \<open>Binding\<close>: \<^verbatim>\<open>module.cpp\<close> and \<^verbatim>\<open>core/codec.py\<close>.
  \<^item> \<open>Chunks\<close>: the contract of a sans-IO machine as the locales \<open>sans_io\<close> (a poll commutes with
    bytes pushed behind it) and \<open>sans_io_driven\<close> (with decisions between polls), in which the
    independence of chunk boundaries is proved once. Both sessions interpret them.
  \<^item> \<open>ClientSession\<close>, \<open>ClientSessionFacts\<close>, \<open>ClientSessionProps\<close>: \<^verbatim>\<open>Session\<close> and \<^verbatim>\<open>reply_size\<close>.
  \<^item> \<open>ServerSession\<close>, \<open>ServerSessionFacts\<close>: \<^verbatim>\<open>ServerSession\<close>: the record of its state, the decision
    methods (\<open>decide\<close>), one definition per phase of \<^verbatim>\<open>_step\<close>, and \<open>next_event\<close>. \<open>ServerTrace\<close>: its
    traces under any driver and the protocol automaton they refine. \<open>ServerInvariants\<close>,
    \<open>ServerProps\<close>, \<open>ServerVerdicts\<close>, \<open>SampleTraces\<close>: invariants and properties of the traces.
  \<^item> \<open>Messages\<close>, \<open>RoundTrip\<close>, \<open>Handshake\<close>: built messages are parsed back; the client's pipeline
    drives the server session through the handshake and back.
  \<^item> \<open>Transport\<close>: computations on a transport that may raise, the exact reading of one reply, the
    staged and the pipelined negotiation over any transport, and the contracts of a transport as
    locales: \<open>exact_transport\<close> (a read returns the front of what is to come), \<open>prompt_transport\<close>
    (what was sent is there in time), \<open>greedy_reader\<close> and \<open>greedy_transport\<close> (the loop that feeds
    chunks to a session), \<open>timed_transport\<close> (a time budget).
  \<^item> \<open>SyncClient\<close>, \<open>SyncClientProps\<close>: \<^verbatim>\<open>sync/client.py\<close>. A socket is a record of the clock, the timeout
    in force, the peer's chunks with their arrival times, the outcome of each send, and whether it
    is open. \<open>AioClient\<close>, \<open>AioClientProps\<close>: \<^verbatim>\<open>aio/client.py\<close> over a model of \<^verbatim>\<open>StreamReader\<close>,
    \<^verbatim>\<open>StreamWriter\<close> and \<^verbatim>\<open>asyncio.timeout\<close>. Both interpret every locale of \<open>Transport\<close>.
  \<^item> \<open>ServerDriver\<close>: \<^verbatim>\<open>server/server.py\<close> and \<^verbatim>\<open>server/aio.py\<close>: hooks, \<^verbatim>\<open>_dial\<close>, one turn of the
    event loop (\<open>serve_turn\<close>), the loop, both relays (\<open>copy\<close>, \<open>pump\<close>), the clean-up, the accept loop.
    \<open>ServerDriverFacts\<close>, \<open>ServerRuns\<close>: invariants of the loop and its runs with a client that needs
    no login. \<open>DriverLog\<close>, \<open>DriverContract\<close>: what has to stand in a driver's log behind an event of the
    session and in front of a send, decision, dial or relay, and that every run keeps to it.
    \<open>ServerIntake\<close>: the messages the session takes of the client's bytes.
    \<open>ServerDriverProps\<close>, \<open>ServerRelayProps\<close>: the properties. \<open>EndToEnd\<close>: the threaded
    driver against the blocking client. \<open>CommandLine\<close>: the commands of \<^verbatim>\<open>cli.py\<close>. \<open>ArgParser\<close>,
    \<open>CliParser\<close>: what the programs use of \<^verbatim>\<open>argparse\<close>, the parser of \<^verbatim>\<open>cli.py\<close> and its \<^verbatim>\<open>main\<close>.
  \<^item> \<open>ServerSetup\<close>: the server objects, the registration of hooks, bind, serve and close of the
    threaded server and the life of the asyncio one, with the answers of the system to the calls on
    the listening socket as arguments. \<open>ServerHooks\<close>: what the hooks of either driver decide.
    \<open>RelayTimeouts\<close>: the default relay with the timeouts of its sockets, which refines \<open>splice\<close>.
    \<open>DialTimes\<close>: the two \<^verbatim>\<open>_dial\<close>s with their clock, over names with several addresses.
  \<^item> \<open>SelectorConnect\<close>, \<open>SelectorProps\<close>: \<^verbatim>\<open>selector_connect.py\<close>: connections, their registrations and
    the loop over batches of ready sockets. \<open>MeteredServer\<close>, \<open>MeteredProps\<close>: \<^verbatim>\<open>server_metered.py\<close>,
    the hooks, and the relay as two copies that take atomic steps in any interleaving and share a
    counter and its lock. \<open>HelloServer\<close>, \<open>HelloProps\<close>: \<^verbatim>\<open>async_server.py\<close> with \<^verbatim>\<open>readuntil\<close>.
    \<open>AsyncConnect\<close>: \<^verbatim>\<open>async_connect.py\<close>. \<open>CurlThrough\<close>: \<^verbatim>\<open>curl_through.py\<close>.
    \<open>ProxyTest\<close>: the checks of \<^verbatim>\<open>proxy_test.py\<close>; its exact reads interpret \<open>exact_transport\<close>.
    \<open>ExampleMains\<close>: the \<^verbatim>\<open>main\<close>s of the example servers. \<open>PackageApi\<close>: what the package and its
    modules import, list and load on demand.

  \<^bold>\<open>What is shown.\<close> Builders and parsers invert each other, also with bytes behind the message; a host
  that was decoded is encoded to the same bytes. Neither session depends on how a stream is cut into
  chunks, consumes a byte of the tunnel or waits for ever; the server session only emits what the
  protocol automaton allows, never lets a client through before its login was accepted, and emits
  one connection request at most. The four clients take exactly the handshake from their transport,
  agree with one another on a proxy that answers in time, close the socket they opened whenever they
  raise and keep to their time budget (the staged blocking client only when it returns). The two
  drivers only produce traces of the session, answer each of its events with the send, the hook, the
  dial or the relay it asks for and do none of them unasked, give a rejected client nothing, cannot be pinned before
  the relay by a client that sends or closes, close everything once, report every failed dial with its code, and
  behave alike as long as no send fails. The
  exceptions that can escape are listed exactly, and the client-controlled ones among them are found
  to be reachable. Data that a client pipelines behind its request never reaches the upstream,
  so the optimistic chain of the check tool is not answered beyond its first hop. The
  \<^verbatim>\<open>fetch\<close> command shows no tunnel byte that its client read behind the reply. In the selector loop no
  connection depends on another, except that an exception that is not caught stops all. The
  metered relay delivers what the plain splice delivers and its counter loses no update, in every
  interleaving. A \<^verbatim>\<open>relay_timeout\<close> ends every default relay, and an upstream that is silent for longer
  than its socket's timeout is taken for closed. The timeout of a dial bounds the asyncio dial as a
  whole and the threaded one for each address; the answers to a refused name of several addresses
  differ. Command lines are read back as written. The intercepted destination of the asyncio example is answered without a dial.

  \<^bold>\<open>Bounds and fuel.\<close> There is no fuel. Every loop of the code is a terminating function: the feed loop
  because each turn that goes round moves the phase forward; the read loops because each turn takes
  bytes off the finite list of arrivals; the event loop of a driver because each turn moves the
  phase forward, empties the queue, or takes a chunk. A peer that sends nothing more is the end of
  the list of arrivals: a read then times out, or, on the server's socket, which has no timeout,
  blocks for ever, which is an outcome of its own (\<open>Hung\<close>). The numbers 266 (client session), 256,
  513 and 261 (server phases) and 1032 (a whole server handshake) are the largest messages plus or
  minus one and are derived from the length fields. A connection of the selector loop is done
  after as many productive events as its pipeline has bytes and 266 more; a run of the metered relay
  has at most seven steps for each chunk and two more.

  \<^bold>\<open>What is assumed.\<close> The operations of sockets, streams and \<^verbatim>\<open>asyncio.timeout\<close> are modelled from the
  documentation of the Python library; what the peer sends, when, in which chunks, and which calls
  fail is arbitrary. Hooks and custom pipes are arbitrary functions that may use the decision API
  and raise; a hook that keeps the session and calls it later, or raises what is no
  \<^verbatim>\<open>Exception\<close> (\<^verbatim>\<open>SystemExit\<close>, a cancellation), is not covered. The dial is a function
  from targets to the address of the new socket or an exception.

  \<^bold>\<open>Not modelled.\<close> The initialisation of the extension module and its build script; what is
  printed, apart from the lines that a property is about; the help texts of \<^verbatim>\<open>argparse\<close>; the interleaving of the
  two directions of the relays of the library, which share no state; a failing close or \<^verbatim>\<open>Thread.start\<close>, and that a dial
  whose \<^verbatim>\<open>getsockname\<close> fails, which counts as failed, leaves its socket to the collector; the
  \<^verbatim>\<open>main\<close> of \<^verbatim>\<open>proxy_test.py\<close>; the tests.
\<close>

end
